(* ===== verification/Kprelude.thy ===== *)
theory Kprelude
  imports Main "HOL-Library.Word"
begin

text \<open>
  Shared vocabulary of the development: the integer widths of
  \<^verbatim>\<open>include/kern/kern_types.h\<close>, the error numbers of \<^verbatim>\<open>include/kern/errno.h\<close>, the outcome
  type that makes \<^verbatim>\<open>kassert\<close>, \<^verbatim>\<open>panic\<close> and blocking explicit, the named collections of
  simplification rules, and generic lemmas on lists and words used by several components.
\<close>

unbundle bit_operations_syntax

section \<open>Machine integers\<close>

type_synonym u8 = "8 word"
type_synonym u16 = "16 word"
type_synonym u32 = "32 word"
type_synonym u64 = "64 word"

section \<open>Error numbers\<close>

abbreviation (input) EPERM :: int where "EPERM \<equiv> 1"
abbreviation (input) ENOENT :: int where "ENOENT \<equiv> 2"
abbreviation (input) ESRCH :: int where "ESRCH \<equiv> 3"
abbreviation (input) ENXIO :: int where "ENXIO \<equiv> 6"
abbreviation (input) EBADF :: int where "EBADF \<equiv> 9"
abbreviation (input) EAGAIN :: int where "EAGAIN \<equiv> 11"
abbreviation (input) ENOMEM :: int where "ENOMEM \<equiv> 12"
abbreviation (input) EBUSY :: int where "EBUSY \<equiv> 16"
abbreviation (input) EEXIST :: int where "EEXIST \<equiv> 17"
abbreviation (input) ENODEV :: int where "ENODEV \<equiv> 19"
abbreviation (input) EINVAL :: int where "EINVAL \<equiv> 22"

section \<open>Outcomes\<close>

text \<open>
  A kernel routine either returns or does not come back to its caller: a failed
  \<^verbatim>\<open>kassert\<close> and a \<^verbatim>\<open>panic\<close> print a message and spin (\<^verbatim>\<open>include/kern/printf.h\<close>), a
  routine that waits for a resource no one releases stays blocked, and an access outside an
  object has no defined result.
\<close>

datatype stop = Kassert | Kpanic | Kblocked | Kfault

datatype 'a outcome = Ok 'a | Stop stop

fun obind :: "'a outcome \<Rightarrow> ('a \<Rightarrow> 'b outcome) \<Rightarrow> 'b outcome" where
  "obind (Ok x) f = f x"
| "obind (Stop e) f = Stop e"

definition kassert :: "bool \<Rightarrow> unit outcome" where
  "kassert c = (if c then Ok () else Stop Kassert)"

fun is_ok :: "'a outcome \<Rightarrow> bool" where
  "is_ok (Ok _) = True"
| "is_ok (Stop _) = False"

lemma obind_eq_Ok: "obind m f = Ok y \<longleftrightarrow> (\<exists>x. m = Ok x \<and> f x = Ok y)"
  by (cases m) auto

lemma obind_assoc: "obind (obind m f) g = obind m (\<lambda>x. obind (f x) g)"
  by (cases m) auto

lemma kassert_simps [simp]:
  "kassert True = Ok ()" "kassert False = Stop Kassert"
  by (simp_all add: kassert_def)

lemma kassert_eq_Ok: "kassert c = Ok u \<longleftrightarrow> c"
  by (simp add: kassert_def)

section \<open>Collections of rules\<close>

named_theorems klink \<open>field access and update of linked nodes\<close>
named_theorems kframe \<open>parts of the state an operation leaves alone\<close>

section \<open>Lists\<close>

lemma distinct_split_unique:
  assumes "distinct (xs @ n # ys)"
  shows "n \<notin> set xs" "n \<notin> set ys"
  using assms by auto

lemma remove1_split: "n \<notin> set xs \<Longrightarrow> remove1 n (xs @ n # ys) = xs @ ys"
  by (simp add: remove1_append)

lemma map_remove1_inj: "inj f \<Longrightarrow> map f (remove1 x xs) = remove1 (f x) (map f xs)"
  by (induction xs) (auto simp: inj_eq)

lemma last_eq_or_in: "last (a # xs) = a \<or> last (a # xs) \<in> set xs"
  by simp

lemma hd_append_last_in: "hd (ys @ [a]) = a \<or> hd (ys @ [a]) \<in> set ys"
  by (cases ys) auto

lemma distinct_last_notin:
  assumes "distinct (a # xs @ ys)"
  shows "last (a # xs) \<notin> set (butlast (a # xs))" "last (a # xs) \<notin> set ys"
proof -
  have "distinct (butlast (a # xs) @ [last (a # xs)])"
    using assms by (subst append_butlast_last_id) auto
  then show "last (a # xs) \<notin> set (butlast (a # xs))" by (simp only: distinct_append) auto
  show "last (a # xs) \<notin> set ys" using assms last_in_set [of "a # xs"] by fastforce
qed

lemma distinct_hd_notin:
  assumes "distinct (a # xs @ ys)"
  shows "hd (ys @ [a]) \<notin> set xs" "hd (ys @ [a]) \<notin> set (tl (ys @ [a]))"
  using assms by (cases ys; auto)+

section \<open>Words\<close>

lemma bit_push_one: "bit (push_bit i (1 :: 'a::len word)) j \<longleftrightarrow> i = j \<and> j < LENGTH('a)"
  by (auto simp: bit_exp_iff)

lemma and_push_one_eq_0:
  "(w AND push_bit i (1 :: 'a::len word) = 0) \<longleftrightarrow> \<not> (bit w i \<and> i < LENGTH('a))"
  unfolding push_bit_of_1 bit_eq_iff [of "w AND 2 ^ i" 0] by (auto simp: bit_and_iff bit_exp_iff)

lemma unat_lt: "unat (x :: u64) < 18446744073709551616"
  using unsigned_less [of x] by simp

end
