(* ===== verification/Klist.thy ===== *)
theory Klist
  imports Kprelude
begin

text \<open>
  The circular doubly linked lists of \<^verbatim>\<open>common/list.c\<close> and \<^verbatim>\<open>include/kern/list.h\<close>.  A node is a
  pair of pointers, the store maps node addresses to nodes, and every operation is the
  sequence of pointer assignments of the C code.  The abstraction \<open>is_list\<close> reads a ring as
  the list of its nodes; \<open>rings\<close> does so for a family of rings that share one store, as the
  ready queues, wait queues and call-out queues of the kernel do.  The locale
  \<open>queue_family\<close> is the contract the kernel's queues rely on.
\<close>

section \<open>Nodes and the pointer operations\<close>

record 'a node =
  l_prev :: 'a
  l_next :: 'a

type_synonym 'a links = "'a \<Rightarrow> 'a node"

definition set_next :: "'a links \<Rightarrow> 'a \<Rightarrow> 'a \<Rightarrow> 'a links" where
  "set_next h a v = h(a := (h a)\<lparr>l_next := v\<rparr>)"

definition set_prev :: "'a links \<Rightarrow> 'a \<Rightarrow> 'a \<Rightarrow> 'a links" where
  "set_prev h a v = h(a := (h a)\<lparr>l_prev := v\<rparr>)"

definition list_del :: "'a links \<Rightarrow> 'a \<Rightarrow> 'a links" where
  "list_del h node =
     (let h = set_prev h (l_next (h node)) (l_prev (h node));
          h = set_next h (l_prev (h node)) (l_next (h node));
          h = set_prev h node node
      in set_next h node node)"

definition list_add :: "'a links \<Rightarrow> 'a \<Rightarrow> 'a \<Rightarrow> 'a links" where
  "list_add h head node =
     (let h = set_next h node head;
          h = set_prev h node (l_prev (h head));
          h = set_next h (l_prev (h head)) node
      in set_prev h head node)"

definition list_add_top :: "'a links \<Rightarrow> 'a \<Rightarrow> 'a \<Rightarrow> 'a links" where
  "list_add_top h head node =
     (let h = set_next h node (l_next (h head));
          h = set_prev h node head;
          h = set_prev h (l_next (h head)) node
      in set_next h head node)"

definition list_insert_at :: "'a links \<Rightarrow> 'a \<Rightarrow> 'a \<Rightarrow> 'a links" where
  "list_insert_at h pos node =
     (let h = set_next h node pos;
          h = set_prev h node (l_prev (h pos));
          h = set_next h (l_prev (h pos)) node
      in set_prev h pos node)"

definition list_ref_top :: "'a links \<Rightarrow> 'a \<Rightarrow> 'a" where
  "list_ref_top h head = l_next (h head)"

definition list_get_top :: "'a links \<Rightarrow> 'a \<Rightarrow> 'a \<times> 'a links" where
  "list_get_top h head = (let top = list_ref_top h head in (top, list_del h top))"

definition list_ref_tail :: "'a links \<Rightarrow> 'a \<Rightarrow> 'a" where
  "list_ref_tail h head = l_prev (h head)"

definition list_get_tail :: "'a links \<Rightarrow> 'a \<Rightarrow> 'a \<times> 'a links" where
  "list_get_tail h head = (let tail = list_ref_tail h head in (tail, list_del h tail))"

definition list_is_empty :: "'a links \<Rightarrow> 'a \<Rightarrow> bool" where
  "list_is_empty h head = (l_prev (h head) = head \<and> l_next (h head) = head)"

definition list_rotate :: "'a links \<Rightarrow> 'a \<Rightarrow> 'a links" where
  "list_rotate h head = (let (top, h) = list_get_top h head in list_add h head top)"

definition init_list_node :: "'a links \<Rightarrow> 'a \<Rightarrow> 'a links" where
  "init_list_node h node = (let h = set_next h node node in set_prev h node node)"

definition init_list_head :: "'a links \<Rightarrow> 'a \<Rightarrow> 'a links" where
  "init_list_head h head = (let h = set_next h head head in set_prev h head head)"

definition list_is_linked :: "'a links \<Rightarrow> 'a \<Rightarrow> bool" where
  "list_is_linked h node = (\<not> (l_prev (h node) = node \<and> l_next (h node) = node))"

section \<open>The ring abstraction\<close>

fun chain :: "'a links \<Rightarrow> 'a list \<Rightarrow> bool" where
  "chain h (a # b # r) = (l_next (h a) = b \<and> l_prev (h b) = a \<and> chain h (b # r))"
| "chain h _ = True"

definition is_list :: "'a links \<Rightarrow> 'a \<Rightarrow> 'a list \<Rightarrow> bool" where
  "is_list h head xs = (distinct (head # xs) \<and> chain h (head # xs @ [head]))"

definition used :: "'a set \<Rightarrow> ('a \<Rightarrow> 'a list) \<Rightarrow> 'a set" where
  "used H Q = H \<union> (\<Union>a\<in>H. set (Q a))"

definition rings :: "'a links \<Rightarrow> 'a set \<Rightarrow> ('a \<Rightarrow> 'a list) \<Rightarrow> bool" where
  "rings h H Q =
     ((\<forall>a\<in>H. is_list h a (Q a)) \<and>
      (\<forall>a\<in>H. \<forall>b\<in>H. a \<noteq> b \<longrightarrow> set (a # Q a) \<inter> set (b # Q b) = {}))"

definition unlinked :: "'a links \<Rightarrow> 'a \<Rightarrow> bool" where
  "unlinked h a = (l_prev (h a) = a \<and> l_next (h a) = a)"

section \<open>Field lemmas\<close>

lemma set_next_sel [klink]:
  "l_next (set_next h a v b) = (if b = a then v else l_next (h b))"
  "l_prev (set_next h a v b) = l_prev (h b)"
  by (auto simp: set_next_def)

lemma set_prev_sel [klink]:
  "l_prev (set_prev h a v b) = (if b = a then v else l_prev (h b))"
  "l_next (set_prev h a v b) = l_next (h b)"
  by (auto simp: set_prev_def)

lemma node_eqI: "l_prev (a :: 'a node) = l_prev b \<Longrightarrow> l_next a = l_next b \<Longrightarrow> a = b"
  by (cases a; cases b) simp

lemma set_next_other: "b \<noteq> a \<Longrightarrow> set_next h a v b = h b"
  by (simp add: set_next_def)

lemma set_prev_other: "b \<noteq> a \<Longrightarrow> set_prev h a v b = h b"
  by (simp add: set_prev_def)

lemma list_del_next:
  "l_next (list_del h n m) =
     (if m = n then n else if m = l_prev (set_prev h (l_next (h n)) (l_prev (h n)) n) then l_next (h n)
      else l_next (h m))"
  by (simp add: list_del_def Let_def klink)

lemma list_del_prev:
  "l_prev (list_del h n m) =
     (if m = n then n else if m = l_next (h n) then l_prev (h n) else l_prev (h m))"
  by (simp add: list_del_def Let_def klink)

lemma unlinked_list_del [simp]: "unlinked (list_del h n) n"
  by (simp add: unlinked_def list_del_next list_del_prev)

text \<open>Deleting a node that is in no ring changes nothing.\<close>

lemma list_del_unlinked: "unlinked h n \<Longrightarrow> list_del h n = h"
  by (rule ext, rule node_eqI) (auto simp: unlinked_def list_del_next list_del_prev klink)

lemma list_is_linked_iff: "list_is_linked h n \<longleftrightarrow> \<not> unlinked h n"
  by (simp add: list_is_linked_def unlinked_def)

lemma unlinked_init_list_node [simp]: "unlinked (init_list_node h n) n"
  by (simp add: init_list_node_def unlinked_def Let_def klink)

lemma init_list_node_other [kframe]: "m \<noteq> n \<Longrightarrow> init_list_node h n m = h m"
  by (simp add: init_list_node_def Let_def set_next_other set_prev_other)

lemma init_list_node_unlinked: "unlinked h n \<Longrightarrow> init_list_node h n = h"
  by (rule ext, rule node_eqI) (auto simp: init_list_node_def unlinked_def Let_def klink)

lemma list_del_other [kframe]:
  "m \<noteq> n \<Longrightarrow> m \<noteq> l_prev (h n) \<Longrightarrow> m \<noteq> l_next (h n) \<Longrightarrow> list_del h n m = h m"
  by (rule node_eqI) (auto simp: list_del_next list_del_prev klink)

lemma list_add_other [kframe]:
  "m \<noteq> n \<Longrightarrow> m \<noteq> head \<Longrightarrow> m \<noteq> l_prev (h head) \<Longrightarrow> n \<noteq> head \<Longrightarrow> list_add h head n m = h m"
  by (rule node_eqI) (auto simp: list_add_def Let_def klink)

section \<open>Chains\<close>

lemma chain_append:
  "us \<noteq> [] \<Longrightarrow> vs \<noteq> [] \<Longrightarrow>
   chain h (us @ vs) \<longleftrightarrow>
     chain h us \<and> l_next (h (last us)) = hd vs \<and> l_prev (h (hd vs)) = last us \<and> chain h vs"
proof (induction us rule: induct_list012)
  case (2 x)
  then show ?case by (cases vs) auto
next
  case (3 x y zs)
  then show ?case by auto
qed simp

lemma chain_cong:
  "(\<And>a. a \<in> set (butlast zs) \<Longrightarrow> l_next (h' a) = l_next (h a)) \<Longrightarrow>
   (\<And>a. a \<in> set (tl zs) \<Longrightarrow> l_prev (h' a) = l_prev (h a)) \<Longrightarrow>
   chain h' zs = chain h zs"
proof (induction zs rule: induct_list012)
  case (3 x y zs)
  have "chain h' (y # zs) = chain h (y # zs)"
  proof (rule "3.IH"(2))
    fix a
    show "a \<in> set (butlast (y # zs)) \<Longrightarrow> l_next (h' a) = l_next (h a)"
      using "3.prems"(1) by simp
    show "a \<in> set (tl (y # zs)) \<Longrightarrow> l_prev (h' a) = l_prev (h a)"
      using "3.prems"(2) by simp
  qed
  moreover have "l_next (h' x) = l_next (h x)" "l_prev (h' y) = l_prev (h y)"
    using "3.prems" by auto
  ultimately show ?case by simp
qed simp_all

lemma is_list_split:
  "is_list h a (xs @ ys) \<longleftrightarrow>
     distinct (a # xs @ ys) \<and> chain h (a # xs) \<and>
     l_next (h (last (a # xs))) = hd (ys @ [a]) \<and>
     l_prev (h (hd (ys @ [a]))) = last (a # xs) \<and> chain h (ys @ [a])"
proof -
  have "a # (xs @ ys) @ [a] = (a # xs) @ (ys @ [a])" by simp
  then show ?thesis
    unfolding is_list_def using chain_append [of "a # xs" "ys @ [a]" h] by auto
qed

lemma is_list_frame:
  "(\<And>x. x \<in> set (a # xs) \<Longrightarrow> h' x = h x) \<Longrightarrow> is_list h' a xs = is_list h a xs"
proof -
  assume eq: "\<And>x. x \<in> set (a # xs) \<Longrightarrow> h' x = h x"
  have "chain h' (a # xs @ [a]) = chain h (a # xs @ [a])"
    by (rule chain_cong) (use eq in \<open>auto simp: butlast_append split: if_splits\<close>)
  then show ?thesis by (simp add: is_list_def)
qed


section \<open>Insertion and deletion in a ring\<close>

lemma chain_Cons_hd:
  "vs \<noteq> [] \<Longrightarrow> chain h (n # vs) \<longleftrightarrow> l_next (h n) = hd vs \<and> l_prev (h (hd vs)) = n \<and> chain h vs"
  by (cases vs) auto

lemma is_list_insert:
  assumes L: "is_list h a (xs @ ys)" and n: "n \<notin> set (a # xs @ ys)"
    and nx: "\<And>m. l_next (h' m) =
      (if m = n then hd (ys @ [a]) else if m = last (a # xs) then n else l_next (h m))"
    and pv: "\<And>m. l_prev (h' m) =
      (if m = n then last (a # xs) else if m = hd (ys @ [a]) then n else l_prev (h m))"
  shows "is_list h' a (xs @ n # ys)"
proof -
  from L have d: "distinct (a # xs @ ys)" and c1: "chain h (a # xs)" and c2: "chain h (ys @ [a])"
    by (auto simp: is_list_split)
  note l = distinct_last_notin [OF d] and f = distinct_hd_notin [OF d]
  have nl: "n \<noteq> last (a # xs)" "n \<noteq> hd (ys @ [a])"
    using n last_eq_or_in [of a xs] hd_append_last_in [of ys a] by auto
  have "chain h' (a # xs) = chain h (a # xs)"
    by (rule chain_cong) (use l f n in \<open>auto simp: nx pv dest: in_set_butlastD\<close>)
  moreover have "chain h' (ys @ [a]) = chain h (ys @ [a])"
  proof (rule chain_cong)
    fix m assume "m \<in> set (butlast (ys @ [a]))"
    then show "l_next (h' m) = l_next (h m)"
      using l n by (auto simp: nx)
  next
    fix m assume "m \<in> set (tl (ys @ [a]))"
    then show "l_prev (h' m) = l_prev (h m)"
      using f n by (cases ys) (auto simp: pv)
  qed
  moreover have "distinct (a # xs @ n # ys)" using d n by auto
  ultimately show ?thesis
    using c1 c2 nl by (simp add: is_list_split chain_Cons_hd nx pv)
qed

lemma is_list_delete:
  assumes L: "is_list h a (xs @ n # ys)"
    and nx: "\<And>m. m \<noteq> n \<Longrightarrow>
      l_next (h' m) = (if m = last (a # xs) then hd (ys @ [a]) else l_next (h m))"
    and pv: "\<And>m. m \<noteq> n \<Longrightarrow>
      l_prev (h' m) = (if m = hd (ys @ [a]) then last (a # xs) else l_prev (h m))"
  shows "is_list h' a (xs @ ys)"
proof -
  from L have d: "distinct (a # xs @ n # ys)" and c1: "chain h (a # xs)" and "chain h (n # ys @ [a])"
    by (auto simp: is_list_split)
  then have c2: "chain h (ys @ [a])" by (simp add: chain_Cons_hd)
  have "distinct (a # xs @ ys)" using d by auto
  note l = distinct_last_notin [OF this] and f = distinct_hd_notin [OF this]
  have nl: "n \<noteq> last (a # xs)" "n \<noteq> hd (ys @ [a])"
    using d last_eq_or_in [of a xs] hd_append_last_in [of ys a] by auto
  have "chain h' (a # xs) = chain h (a # xs)"
  proof (rule chain_cong)
    fix m assume "m \<in> set (butlast (a # xs))"
    moreover then have "m \<in> set (a # xs)" by (rule in_set_butlastD)
    ultimately show "l_next (h' m) = l_next (h m)"
      using l d by (subst nx) auto
  next
    fix m assume "m \<in> set (tl (a # xs))"
    then show "l_prev (h' m) = l_prev (h m)"
      using f d by (subst pv) auto
  qed
  moreover have "chain h' (ys @ [a]) = chain h (ys @ [a])"
  proof (rule chain_cong)
    fix m assume "m \<in> set (butlast (ys @ [a]))"
    then show "l_next (h' m) = l_next (h m)"
      using l d by (subst nx) auto
  next
    fix m assume "m \<in> set (tl (ys @ [a]))"
    then show "l_prev (h' m) = l_prev (h m)"
      using f d by (subst pv) (cases ys; auto)+
  qed
  ultimately show ?thesis
    using c1 c2 nl d by (simp add: is_list_split nx pv)
qed

lemma is_list_ends:
  assumes "is_list h a xs"
  shows "l_next (h a) = hd (xs @ [a])" "l_prev (h a) = last (a # xs)"
  using assms is_list_split [of h a "[]" xs] is_list_split [of h a xs "[]"] by auto

lemma is_list_neighbours:
  assumes "is_list h a (xs @ n # ys)"
  shows "l_prev (h n) = last (a # xs)" "l_next (h n) = hd (ys @ [a])"
  using assms by (auto simp: is_list_split chain_Cons_hd)

lemma is_list_distinct: "is_list h a xs \<Longrightarrow> distinct (a # xs)"
  by (simp add: is_list_def)

lemma is_list_add:
  assumes L: "is_list h a xs" and n: "n \<notin> set (a # xs)"
  shows "is_list (list_add h a n) a (xs @ [n])"
proof (rule is_list_insert [where ys = "[]", of h a xs n])
  have p: "l_prev (h a) = last (a # xs)" by (rule is_list_ends [OF L])
  have na: "n \<noteq> a" "n \<noteq> last (a # xs)" using n last_eq_or_in [of a xs] by auto
  show "l_next (list_add h a n m) =
      (if m = n then hd ([] @ [a]) else if m = last (a # xs) then n else l_next (h m))" for m
    using p na by (simp add: list_add_def Let_def klink)
  show "l_prev (list_add h a n m) =
      (if m = n then last (a # xs) else if m = hd ([] @ [a]) then n else l_prev (h m))" for m
    using p na by (simp add: list_add_def Let_def klink)
qed (use L n in auto)

lemma is_list_insert_at:
  assumes L: "is_list h a (xs @ pos # ys)" and n: "n \<notin> set (a # xs @ pos # ys)"
  shows "is_list (list_insert_at h pos n) a (xs @ n # pos # ys)"
proof (rule is_list_insert [of h a xs "pos # ys" n])
  have p: "l_prev (h pos) = last (a # xs)" by (rule is_list_neighbours [OF L])
  have na: "n \<noteq> pos" "n \<noteq> last (a # xs)" using n last_eq_or_in [of a xs] by auto
  show "l_next (list_insert_at h pos n m) =
      (if m = n then hd ((pos # ys) @ [a]) else if m = last (a # xs) then n else l_next (h m))" for m
    using p na by (simp add: list_insert_at_def Let_def klink)
  show "l_prev (list_insert_at h pos n m) =
      (if m = n then last (a # xs) else if m = hd ((pos # ys) @ [a]) then n else l_prev (h m))" for m
    using p na by (simp add: list_insert_at_def Let_def klink)
qed (use L n in auto)

lemma is_list_add_top:
  assumes L: "is_list h a xs" and n: "n \<notin> set (a # xs)"
  shows "is_list (list_add_top h a n) a (n # xs)"
proof -
  have p: "l_next (h a) = hd (xs @ [a])" by (rule is_list_ends [OF L])
  have na: "n \<noteq> a" "n \<noteq> hd (xs @ [a])" using n hd_append_last_in [of xs a] by auto
  have "is_list (list_add_top h a n) a ([] @ n # xs)"
    by (rule is_list_insert [of h a "[]" xs n])
      (use L n p na in \<open>auto simp: list_add_top_def Let_def klink\<close>)
  then show ?thesis by simp
qed

lemma is_list_del:
  assumes L: "is_list h a (xs @ n # ys)"
  shows "is_list (list_del h n) a (xs @ ys)"
proof (rule is_list_delete [OF L])
  have p: "l_prev (h n) = last (a # xs)" "l_next (h n) = hd (ys @ [a])"
    by (rule is_list_neighbours [OF L])+
  have "n \<noteq> hd (ys @ [a])"
    using is_list_distinct [OF L] hd_append_last_in [of ys a] by auto
  then show "m \<noteq> n \<Longrightarrow> l_next (list_del h n m) =
      (if m = last (a # xs) then hd (ys @ [a]) else l_next (h m))" for m
    using p by (simp add: list_del_next klink)
  show "m \<noteq> n \<Longrightarrow> l_prev (list_del h n m) =
      (if m = hd (ys @ [a]) then last (a # xs) else l_prev (h m))" for m
    using p by (simp add: list_del_prev)
qed

lemma is_list_empty_iff: "is_list h a xs \<Longrightarrow> list_is_empty h a \<longleftrightarrow> xs = []"
  by (cases xs) (auto simp: list_is_empty_def is_list_def)

lemma is_list_top: "is_list h a (x # xs) \<Longrightarrow> list_ref_top h a = x"
  by (simp add: list_ref_top_def is_list_ends)

lemma is_list_tail: "is_list h a (xs @ [x]) \<Longrightarrow> list_ref_tail h a = x"
  by (simp add: list_ref_tail_def is_list_ends)

lemma is_list_init_head: "is_list (init_list_head h a) a []"
  by (simp add: is_list_def init_list_head_def Let_def klink)


section \<open>Families of rings in one store\<close>

lemma rings_is_list: "rings h H Q \<Longrightarrow> a \<in> H \<Longrightarrow> is_list h a (Q a)"
  by (simp add: rings_def)

lemma rings_disjoint:
  "rings h H Q \<Longrightarrow> a \<in> H \<Longrightarrow> b \<in> H \<Longrightarrow> a \<noteq> b \<Longrightarrow> set (a # Q a) \<inter> set (b # Q b) = {}"
  by (simp add: rings_def)

lemma rings_notin_other:
  "rings h H Q \<Longrightarrow> a \<in> H \<Longrightarrow> b \<in> H \<Longrightarrow> a \<noteq> b \<Longrightarrow> x \<in> set (b # Q b) \<Longrightarrow> x \<notin> set (a # Q a)"
  using rings_disjoint [of h H Q a b] by blast

lemma used_upd: "a \<in> H \<Longrightarrow> used H (Q(a := xs)) = H \<union> set xs \<union> (\<Union>b\<in>H - {a}. set (Q b))"
  by (auto simp: used_def split: if_splits)

lemma in_usedI: "a \<in> H \<Longrightarrow> x \<in> set (a # Q a) \<Longrightarrow> x \<in> used H Q"
  by (auto simp: used_def)

lemma rings_update:
  assumes R: "rings h H Q" and a: "a \<in> H" and L: "is_list h' a xs"
    and same: "\<And>x. x \<in> used H Q \<Longrightarrow> x \<notin> set (a # Q a) \<Longrightarrow> h' x = h x"
    and new: "\<And>x. x \<in> set xs \<Longrightarrow> x \<in> set (Q a) \<or> x \<notin> used H Q"
  shows "rings h' H (Q(a := xs))"
proof -
  have "is_list h' b (Q b)" if "b \<in> H" "b \<noteq> a" for b
  proof -
    have "h' x = h x" if "x \<in> set (b # Q b)" for x
      using that rings_notin_other [OF R a \<open>b \<in> H\<close>] \<open>b \<noteq> a\<close> \<open>b \<in> H\<close> by (metis same in_usedI)
    then show ?thesis using is_list_frame [of b "Q b" h' h] rings_is_list [OF R \<open>b \<in> H\<close>] by blast
  qed
  moreover have "set (a # xs) \<inter> set (b # Q b) = {}" if "b \<in> H" "b \<noteq> a" for b
    using rings_disjoint [OF R a that(1)] that new in_usedI [OF that(1), of _ Q] by fastforce
  ultimately show ?thesis
    using R a L by (auto simp: rings_def)
qed

lemma rings_add:
  assumes R: "rings h H Q" and a: "a \<in> H" and n: "n \<notin> used H Q"
  shows "rings (list_add h a n) H (Q(a := Q a @ [n]))"
proof (rule rings_update [OF R a])
  have na: "n \<notin> set (a # Q a)" using n in_usedI [OF a] by metis
  show "is_list (list_add h a n) a (Q a @ [n])"
    by (rule is_list_add [OF rings_is_list [OF R a] na])
  fix x assume x: "x \<in> used H Q" "x \<notin> set (a # Q a)"
  have "l_prev (h a) \<in> set (a # Q a)"
    using is_list_ends [OF rings_is_list [OF R a]] last_in_set [of "a # Q a"] by simp
  then show "list_add h a n x = h x"
    using x n na by (intro list_add_other) auto
qed (use n in auto)

lemma list_add_top_other [kframe]:
  "m \<noteq> n \<Longrightarrow> m \<noteq> head \<Longrightarrow> m \<noteq> l_next (h head) \<Longrightarrow> n \<noteq> head \<Longrightarrow> list_add_top h head n m = h m"
  by (rule node_eqI) (auto simp: list_add_top_def Let_def klink)

lemma list_insert_at_other [kframe]:
  "m \<noteq> n \<Longrightarrow> m \<noteq> pos \<Longrightarrow> m \<noteq> l_prev (h pos) \<Longrightarrow> n \<noteq> pos \<Longrightarrow> list_insert_at h pos n m = h m"
  by (rule node_eqI) (auto simp: list_insert_at_def Let_def klink)

lemma rings_add_top:
  assumes R: "rings h H Q" and a: "a \<in> H" and n: "n \<notin> used H Q"
  shows "rings (list_add_top h a n) H (Q(a := n # Q a))"
proof (rule rings_update [OF R a])
  have na: "n \<notin> set (a # Q a)" using n in_usedI [OF a] by metis
  show "is_list (list_add_top h a n) a (n # Q a)"
    by (rule is_list_add_top [OF rings_is_list [OF R a] na])
  fix x assume x: "x \<in> used H Q" "x \<notin> set (a # Q a)"
  have "l_next (h a) \<in> set (a # Q a)"
    using is_list_ends [OF rings_is_list [OF R a]] hd_append_last_in [of "Q a" a] by auto
  then show "list_add_top h a n x = h x"
    using x n na by (intro list_add_top_other) auto
qed (use n in auto)

lemma rings_insert_at:
  assumes R: "rings h H Q" and a: "a \<in> H" and n: "n \<notin> used H Q" and Q: "Q a = xs @ pos # ys"
  shows "rings (list_insert_at h pos n) H (Q(a := xs @ n # pos # ys))"
proof (rule rings_update [OF R a])
  have na: "n \<notin> set (a # Q a)" using n in_usedI [OF a] by metis
  have L: "is_list h a (xs @ pos # ys)" using rings_is_list [OF R a] Q by simp
  show "is_list (list_insert_at h pos n) a (xs @ n # pos # ys)"
    by (rule is_list_insert_at [OF L]) (use na Q in auto)
  fix x assume x: "x \<in> used H Q" "x \<notin> set (a # Q a)"
  have "l_prev (h pos) \<in> set (a # Q a)"
    using is_list_neighbours [OF L] last_eq_or_in [of a xs] Q by auto
  then show "list_insert_at h pos n x = h x"
    using x n na Q by (intro list_insert_at_other) auto
qed (use n Q in auto)

lemma rings_del_split:
  assumes R: "rings h H Q" and a: "a \<in> H" and Q: "Q a = xs @ n # ys"
  shows "rings (list_del h n) H (Q(a := xs @ ys))"
proof (rule rings_update [OF R a])
  have L: "is_list h a (xs @ n # ys)" using rings_is_list [OF R a] Q by simp
  show "is_list (list_del h n) a (xs @ ys)" by (rule is_list_del [OF L])
  fix x assume x: "x \<in> used H Q" "x \<notin> set (a # Q a)"
  have "l_prev (h n) \<in> set (a # Q a)" "l_next (h n) \<in> set (a # Q a)"
    using is_list_neighbours [OF L] last_eq_or_in [of a xs] hd_append_last_in [of ys a] Q by auto
  then show "list_del h n x = h x"
    using x Q by (intro list_del_other) auto
qed (use Q in auto)

lemma rings_del:
  assumes R: "rings h H Q" and a: "a \<in> H" and n: "n \<in> set (Q a)"
  shows "rings (list_del h n) H (Q(a := remove1 n (Q a)))"
proof -
  from n obtain xs ys where Q: "Q a = xs @ n # ys" by (auto simp: in_set_conv_decomp)
  moreover have "distinct (Q a)" using is_list_distinct [OF rings_is_list [OF R a]] by simp
  ultimately have "remove1 n (Q a) = xs @ ys" by (simp add: remove1_split)
  then show ?thesis using rings_del_split [OF R a Q] by simp
qed

lemma rings_cong:
  "(\<And>a. a \<in> H \<Longrightarrow> Q a = Q' a) \<Longrightarrow> (\<And>x. x \<in> used H Q \<Longrightarrow> h x = h' x) \<Longrightarrow> rings h H Q = rings h' H Q'"
proof -
  assume Q: "\<And>a. a \<in> H \<Longrightarrow> Q a = Q' a" and h: "\<And>x. x \<in> used H Q \<Longrightarrow> h x = h' x"
  have "is_list h a (Q a) = is_list h' a (Q' a)" if "a \<in> H" for a
    using is_list_frame [of a "Q a" h h'] h Q that by (metis in_usedI)
  then show ?thesis using Q by (auto simp: rings_def)
qed

section \<open>The queue contract\<close>

text \<open>
  What the kernel's queues rely on: a store that holds a family of queues with heads \<open>H\<close> and
  contents \<open>Q\<close>, an operation that appends an unused node, one that takes a node out, the first
  node and the test for emptiness.
\<close>

locale queue_family =
  fixes rep :: "'h \<Rightarrow> 'a set \<Rightarrow> ('a \<Rightarrow> 'a list) \<Rightarrow> bool"
    and enq :: "'h \<Rightarrow> 'a \<Rightarrow> 'a \<Rightarrow> 'h"
    and del :: "'h \<Rightarrow> 'a \<Rightarrow> 'h"
    and top :: "'h \<Rightarrow> 'a \<Rightarrow> 'a"
    and empty :: "'h \<Rightarrow> 'a \<Rightarrow> bool"
  assumes rep_enq: "rep h H Q \<Longrightarrow> a \<in> H \<Longrightarrow> n \<notin> used H Q \<Longrightarrow> rep (enq h a n) H (Q(a := Q a @ [n]))"
    and rep_del: "rep h H Q \<Longrightarrow> a \<in> H \<Longrightarrow> n \<in> set (Q a) \<Longrightarrow> rep (del h n) H (Q(a := remove1 n (Q a)))"
    and rep_top: "rep h H Q \<Longrightarrow> a \<in> H \<Longrightarrow> Q a \<noteq> [] \<Longrightarrow> top h a = hd (Q a)"
    and rep_empty: "rep h H Q \<Longrightarrow> a \<in> H \<Longrightarrow> empty h a \<longleftrightarrow> Q a = []"
    and rep_distinct: "rep h H Q \<Longrightarrow> a \<in> H \<Longrightarrow> distinct (a # Q a)"
    and rep_apart: "rep h H Q \<Longrightarrow> a \<in> H \<Longrightarrow> b \<in> H \<Longrightarrow> a \<noteq> b \<Longrightarrow> set (a # Q a) \<inter> set (b # Q b) = {}"
begin

lemma removed_notin_used:
  assumes R: "rep h H Q" and a: "a \<in> H" and n: "n \<in> set (Q a)"
  shows "n \<notin> used H (Q(a := remove1 n (Q a)))"
proof -
  have "n \<notin> set (remove1 n (Q a))" using rep_distinct [OF R a] by simp
  moreover have "n \<noteq> b \<and> n \<notin> set (Q b)" if "b \<in> H" "b \<noteq> a" for b
    using rep_apart [OF R a that(1)] that n by auto
  moreover have "n \<noteq> a" using rep_distinct [OF R a] n by auto
  ultimately show ?thesis by (fastforce simp: used_upd [OF a])
qed

lemma rep_pop:
  assumes "rep h H Q" "a \<in> H" "Q a = x # xs"
  shows "top h a = x" "rep (del h x) H (Q(a := xs))"
  using rep_top [of h H Q a] rep_del [of h H Q a x] assms by auto

lemma rep_move:
  assumes R: "rep h H Q" and a: "a \<in> H" and n: "n \<in> set (Q a)"
  shows "rep (enq (del h n) a n) H (Q(a := remove1 n (Q a) @ [n]))"
  using rep_enq [OF rep_del [OF R a n] a removed_notin_used [OF R a n]] by simp

lemma rep_rotate:
  assumes R: "rep h H Q" and a: "a \<in> H" and ne: "Q a \<noteq> []"
  shows "rep (enq (del h (top h a)) a (top h a)) H (Q(a := rotate1 (Q a)))"
proof (cases "Q a")
  case (Cons x xs)
  then have "top h a = x" using rep_top [OF R a] by simp
  then show ?thesis using rep_move [OF R a, of x] Cons by simp
qed (use ne in simp)

lemma rep_enq_all:
  assumes "rep h H Q" "a \<in> H" "distinct ns" "set ns \<inter> used H Q = {}"
  shows "rep (fold (\<lambda>n h. enq h a n) ns h) H (Q(a := Q a @ ns))"
  using assms
proof (induction ns arbitrary: h Q)
  case (Cons n ns)
  have R: "rep (enq h a n) H (Q(a := Q a @ [n]))"
    using Cons.prems by (intro rep_enq) auto
  have "set ns \<inter> used H (Q(a := Q a @ [n])) = {}"
    using Cons.prems by (auto simp: used_upd) (auto simp: used_def)
  moreover have "distinct ns" using Cons.prems by simp
  ultimately have "rep (fold (\<lambda>n h. enq h a n) ns (enq h a n)) H
      ((Q(a := Q a @ [n]))(a := (Q(a := Q a @ [n])) a @ ns))"
    by (intro Cons.IH R Cons.prems(2))
  then show ?case by (simp only: fold_simps comp_apply fun_upd_upd fun_upd_same append_assoc append_Cons append_Nil)
qed simp

end

interpretation lq: queue_family rings list_add list_del list_ref_top list_is_empty
proof unfold_locales
  fix h :: "'a links" and H Q a
  assume R: "rings h H Q" "a \<in> H"
  show "list_is_empty h a \<longleftrightarrow> Q a = []"
    by (rule is_list_empty_iff [OF rings_is_list [OF R]])
  show "distinct (a # Q a)" by (rule is_list_distinct [OF rings_is_list [OF R]])
  show "Q a \<noteq> [] \<Longrightarrow> list_ref_top h a = hd (Q a)"
    using is_list_top [of h a "hd (Q a)" "tl (Q a)"] rings_is_list [OF R] by simp
qed (rule rings_add rings_del rings_disjoint; assumption)+

text \<open>Rotating a queue moves its first node to the end, and leaves an empty queue alone.\<close>

lemma list_rotate_empty: "unlinked h a \<Longrightarrow> list_rotate h a = h"
proof -
  assume u: "unlinked h a"
  then have "list_ref_top h a = a" by (simp add: list_ref_top_def unlinked_def)
  moreover have "list_add h a a = h" using u
    by (intro ext node_eqI) (auto simp: list_add_def Let_def klink unlinked_def)
  ultimately show ?thesis
    using list_del_unlinked [OF u] by (simp add: list_rotate_def list_get_top_def)
qed

lemma rings_rotate:
  assumes R: "rings h H Q" and a: "a \<in> H"
  shows "rings (list_rotate h a) H (Q(a := rotate1 (Q a)))"
proof (cases "Q a")
  case Nil
  then have "unlinked h a" using is_list_ends [OF rings_is_list [OF R a]] by (simp add: unlinked_def)
  then have "list_rotate h a = h" by (rule list_rotate_empty)
  moreover have "Q(a := rotate1 (Q a)) = Q" using Nil by auto
  ultimately show ?thesis using R by simp
next
  case Cons
  then show ?thesis using lq.rep_rotate [OF R a]
    by (simp add: list_rotate_def list_get_top_def Let_def)
qed

end
