(* ===== verification/Kbitops.thy ===== *)
theory Kbitops
  imports Kprelude
begin

text \<open>
  The bit searches of \<^verbatim>\<open>common/bitops.c\<close>.  The argument is a C \<^verbatim>\<open>int\<close>, kept as a 32-bit word;
  it is sign-extended to 64 bits before it is masked with \<^verbatim>\<open>1UL << i\<close>.  The second result is the
  value stored through the pointer argument, when the code stores one.
\<close>

definition test_ul :: "u32 \<Rightarrow> nat \<Rightarrow> bool" where
  "test_ul x i = ((scast x :: u64) AND push_bit i 1 \<noteq> 0)"

fun msr_loop :: "u32 \<Rightarrow> nat \<Rightarrow> int \<times> nat option" where
  "msr_loop x 0 = (ESRCH, None)"
| "msr_loop x (Suc i) = (if test_ul x i then (0, Some i) else msr_loop x i)"

definition find_msr_bit :: "u32 \<Rightarrow> int \<times> nat option" where
  "find_msr_bit x = (if x = 0 then (ESRCH, Some 0) else msr_loop x 32)"

function lsr_loop :: "u32 \<Rightarrow> nat \<Rightarrow> int \<times> nat option" where
  "lsr_loop x i =
     (if i < 32 then (if test_ul x i then (0, Some i) else lsr_loop x (Suc i)) else (ESRCH, None))"
  by pat_completeness auto
termination by (relation "measure (\<lambda>(x, i). 32 - i)") auto

declare lsr_loop.simps [simp del]

definition find_lsr_bit :: "u32 \<Rightarrow> int \<times> nat option" where
  "find_lsr_bit x = (if x = 0 then (ESRCH, Some 0) else lsr_loop x 0)"

lemma test_ul_iff: "i < 32 \<Longrightarrow> test_ul x i \<longleftrightarrow> bit x i"
  by (simp add: test_ul_def and_push_one_eq_0 [simplified] bit_signed_iff)

lemma word_nonzero_bit: "(x :: 'a::len word) \<noteq> 0 \<Longrightarrow> \<exists>i < LENGTH('a). bit x i"
  by (metis bit_imp_le_length bit_word_eqI bit_0_eq bot_apply bot_bool_def)

lemma msr_loop_spec:
  "n \<le> 32 \<Longrightarrow>
   (case msr_loop x n of
      (rc, Some i) \<Rightarrow> rc = 0 \<and> i < n \<and> bit x i \<and> (\<forall>j. i < j \<and> j < n \<longrightarrow> \<not> bit x j)
    | (rc, None) \<Rightarrow> rc = ESRCH \<and> (\<forall>j < n. \<not> bit x j))"
proof (induction n)
  case (Suc n)
  show ?case
  proof (cases "bit x n")
    case True
    then show ?thesis using Suc.prems by (auto simp: test_ul_iff less_Suc_eq)
  next
    case False
    with Suc show ?thesis
      by (auto simp: test_ul_iff less_Suc_eq split: prod.splits option.splits)
  qed
qed simp

lemma lsr_loop_spec:
  "(\<forall>j < i. \<not> bit x j) \<Longrightarrow> i \<le> 32 \<Longrightarrow>
   (case lsr_loop x i of
      (rc, Some k) \<Rightarrow> rc = 0 \<and> k < 32 \<and> bit x k \<and> (\<forall>j < k. \<not> bit x j)
    | (rc, None) \<Rightarrow> rc = ESRCH \<and> (\<forall>j < 32. \<not> bit x j))"
proof (induction x i rule: lsr_loop.induct)
  case (1 x i)
  show ?case
  proof (cases "i < 32 \<and> \<not> bit x i")
    case True
    then have "\<forall>j < Suc i. \<not> bit x j" using "1.prems" by (auto simp: less_Suc_eq)
    then show ?thesis
      using "1.IH" True by (subst lsr_loop.simps) (simp add: test_ul_iff)
  next
    case False
    then show ?thesis using "1.prems"
      by (subst lsr_loop.simps) (auto simp: test_ul_iff)
  qed
qed

text \<open>The most significant set bit, for every non-zero argument.\<close>

lemma find_msr_bit_some:
  assumes "x \<noteq> 0"
  obtains i where "find_msr_bit x = (0, Some i)" "i < 32" "bit x i" "\<And>j. i < j \<Longrightarrow> \<not> bit x j"
proof -
  obtain k where k: "k < 32" "bit x k" using word_nonzero_bit [OF assms] by auto
  have "\<exists>i. msr_loop x 32 = (0, Some i) \<and> i < 32 \<and> bit x i \<and> (\<forall>j. i < j \<and> j < 32 \<longrightarrow> \<not> bit x j)"
    using msr_loop_spec [of 32 x] k by (auto split: prod.splits option.splits)
  then obtain i where i: "msr_loop x 32 = (0, Some i)" "i < 32" "bit x i"
    "\<forall>j. i < j \<and> j < 32 \<longrightarrow> \<not> bit x j" by blast
  have "\<not> bit x j" if "i < j" for j
    using i(4) that bit_imp_le_length [of x j] by (cases "j < 32") auto
  with i assms show ?thesis by (intro that [of i]) (auto simp: find_msr_bit_def)
qed

lemma find_msr_bit_zero: "find_msr_bit 0 = (ESRCH, Some 0)"
  by (simp add: find_msr_bit_def)

text \<open>
  C9: for every \<^verbatim>\<open>int\<close> the two searches either report \<^verbatim>\<open>ESRCH\<close> and store 0, exactly when the
  argument is 0, or report success and store the position of the highest (lowest) set bit.
\<close>

theorem find_bit_correct:
  "(find_msr_bit x = (ESRCH, Some 0) \<and> find_lsr_bit x = (ESRCH, Some 0) \<and> x = 0) \<or>
   (\<exists>i k. find_msr_bit x = (0, Some i) \<and> bit x i \<and> {j. i < j \<and> bit x j} = {} \<and>
          find_lsr_bit x = (0, Some k) \<and> bit x k \<and> {j. j < k \<and> bit x j} = {})"
proof (cases "x = 0")
  case True
  then show ?thesis by (simp add: find_msr_bit_def find_lsr_bit_def)
next
  case False
  obtain i where i: "find_msr_bit x = (0, Some i)" "bit x i" "\<And>j. i < j \<Longrightarrow> \<not> bit x j"
    using find_msr_bit_some [OF False] by blast
  have "\<exists>k. find_lsr_bit x = (0, Some k) \<and> bit x k \<and> (\<forall>j < k. \<not> bit x j)"
    using lsr_loop_spec [of 0 x] word_nonzero_bit [OF False] False
    by (auto simp: find_lsr_bit_def split: prod.splits option.splits)
  with i show ?thesis by blast
qed

end
