(* ===== verification/Kthread_info.thy ===== *)
theory Kthread_info
  imports Kprelude
begin

text \<open>
  The dispatch-state word of a thread (\<^verbatim>\<open>thread_info_t.preempt\<close>, \<^verbatim>\<open>include/hal-x64/thread_info.h\<close>)
  and the counters packed into it (\<^verbatim>\<open>include/kern/thread.h\<close>): exception, interrupt and
  preemption counts in three bytes, the delayed-dispatch and scheduler-active flags in the top
  byte.
\<close>

abbreviation (input) THR_PRECNT_SHIFT :: nat where "THR_PRECNT_SHIFT \<equiv> 16"
abbreviation (input) THR_IRQCNT_SHIFT :: nat where "THR_IRQCNT_SHIFT \<equiv> 8"
abbreviation (input) THR_EXCCNT_SHIFT :: nat where "THR_EXCCNT_SHIFT \<equiv> 0"

definition THR_CNTR_MASK :: u64 where "THR_CNTR_MASK = 0xff"
definition THR_PRMPT_CTRL_PREEMPT_ACTIVE :: u64 where
  "THR_PRMPT_CTRL_PREEMPT_ACTIVE = push_bit 56 0x80"
definition THR_PRMPT_CTRL_RESCHED_DELAYED :: u64 where
  "THR_PRMPT_CTRL_RESCHED_DELAYED = push_bit 56 0x40"

section \<open>Dispatch flags\<close>

definition ti_set_delay_dispatch :: "u64 \<Rightarrow> u64" where
  "ti_set_delay_dispatch preempt = preempt OR THR_PRMPT_CTRL_RESCHED_DELAYED"

definition ti_clr_delay_dispatch :: "u64 \<Rightarrow> u64" where
  "ti_clr_delay_dispatch preempt = preempt AND NOT THR_PRMPT_CTRL_RESCHED_DELAYED"

definition ti_check_need_dispatch :: "u64 \<Rightarrow> bool" where
  "ti_check_need_dispatch preempt = (preempt AND THR_PRMPT_CTRL_RESCHED_DELAYED \<noteq> 0)"

definition ti_set_preempt_active :: "u64 \<Rightarrow> u64" where
  "ti_set_preempt_active preempt = preempt OR THR_PRMPT_CTRL_PREEMPT_ACTIVE"

definition ti_clr_preempt_active :: "u64 \<Rightarrow> u64" where
  "ti_clr_preempt_active preempt = preempt AND NOT THR_PRMPT_CTRL_PREEMPT_ACTIVE"

text \<open>The function returns \<^verbatim>\<open>int\<close>: the 64-bit conjunction is truncated to its low 32 bits.\<close>

definition ti_check_preempt_active :: "u64 \<Rightarrow> u32" where
  "ti_check_preempt_active preempt = ucast (preempt AND THR_PRMPT_CTRL_PREEMPT_ACTIVE)"

section \<open>Counters\<close>

definition ti_update_preempt_count :: "u64 \<Rightarrow> nat \<Rightarrow> u64 \<Rightarrow> u64" where
  "ti_update_preempt_count preempt shift diff =
     (let cnt = preempt;
          cnt = drop_bit shift cnt AND THR_CNTR_MASK;
          cnt = cnt + diff;
          cnt = push_bit shift cnt AND push_bit shift THR_CNTR_MASK;
          preempt = preempt AND NOT (push_bit shift THR_CNTR_MASK)
      in preempt OR cnt)"

definition ti_refer_pre_count :: "u64 \<Rightarrow> nat \<Rightarrow> u8" where
  "ti_refer_pre_count preempt shift = ucast (drop_bit shift preempt AND THR_CNTR_MASK)"

definition ti_refer_preempt_count :: "u64 \<Rightarrow> u8" where
  "ti_refer_preempt_count preempt = ti_refer_pre_count preempt THR_PRECNT_SHIFT"

definition ti_refer_irq_count :: "u64 \<Rightarrow> u8" where
  "ti_refer_irq_count preempt = ti_refer_pre_count preempt THR_IRQCNT_SHIFT"

definition ti_refer_exc_count :: "u64 \<Rightarrow> u8" where
  "ti_refer_exc_count preempt = ti_refer_pre_count preempt THR_EXCCNT_SHIFT"

section \<open>Bit-level facts\<close>

lemma mask_bit: "bit THR_CNTR_MASK i \<longleftrightarrow> i < 8"
proof -
  have eq: "THR_CNTR_MASK = mask 8" by (simp add: THR_CNTR_MASK_def mask_eq_exp_minus_1)
  show ?thesis unfolding eq bit_mask_iff by auto
qed

lemma active_bit: "bit THR_PRMPT_CTRL_PREEMPT_ACTIVE i \<longleftrightarrow> i = 63"
proof -
  have eq: "THR_PRMPT_CTRL_PREEMPT_ACTIVE = push_bit 63 1"
    by (simp add: THR_PRMPT_CTRL_PREEMPT_ACTIVE_def push_bit_eq_mult)
  show ?thesis unfolding eq bit_push_one by auto
qed

lemma delayed_bit: "bit THR_PRMPT_CTRL_RESCHED_DELAYED i \<longleftrightarrow> i = 62"
proof -
  have eq: "THR_PRMPT_CTRL_RESCHED_DELAYED = push_bit 62 1"
    by (simp add: THR_PRMPT_CTRL_RESCHED_DELAYED_def push_bit_eq_mult)
  show ?thesis unfolding eq bit_push_one by auto
qed

lemmas ti_bits = mask_bit active_bit delayed_bit

lemma refer_bit: "bit (ti_refer_pre_count p s) i \<longleftrightarrow> i < 8 \<and> bit p (s + i)"
  by (auto simp: ti_refer_pre_count_def bit_ucast_iff bit_and_iff bit_drop_bit_eq ti_bits)

lemma update_bit:
  assumes "s \<le> 56"
  shows "bit (ti_update_preempt_count p s d) i \<longleftrightarrow>
     (if s \<le> i \<and> i < s + 8 then bit ((drop_bit s p AND THR_CNTR_MASK) + d) (i - s) else bit p i)"
proof -
  have "i < 64" if "bit p i" using bit_imp_le_length [OF that] by simp
  then show ?thesis using assms
    by (auto simp: ti_update_preempt_count_def Let_def bit_or_iff bit_and_iff bit_not_iff
        bit_push_bit_iff ti_bits)
qed

lemma need_dispatch_bit: "ti_check_need_dispatch p \<longleftrightarrow> bit p 62"
proof -
  have "THR_PRMPT_CTRL_RESCHED_DELAYED = push_bit 62 1"
    by (simp add: THR_PRMPT_CTRL_RESCHED_DELAYED_def push_bit_eq_mult)
  then show ?thesis unfolding ti_check_need_dispatch_def using and_push_one_eq_0 [of p 62] by simp
qed


section \<open>Counters behave as bytes\<close>

lemma mask_ucast: "(ucast (w AND THR_CNTR_MASK) :: u8) = ucast w"
  by (rule bit_word_eqI) (auto simp: bit_ucast_iff bit_and_iff ti_bits)

lemma refer_eq: "ti_refer_pre_count p s = ucast (drop_bit s p)"
  by (simp add: ti_refer_pre_count_def mask_ucast)

lemma ucast8_add: "(ucast (a + b :: u64) :: u8) = ucast a + ucast b"
proof -
  have "(256 :: int) dvd 2 ^ 64" by simp
  then show ?thesis
    by (simp add: word_uint_eq_iff uint_word_ariths unsigned_ucast_eq take_bit_eq_mod mod_simps mod_mod_cancel)
qed

lemma ucast8_minus_one: "(ucast (- 1 :: u64) :: u8) = - 1"
  by (rule bit_word_eqI) (auto simp: bit_ucast_iff)

lemma drop_update:
  assumes "s \<le> 56"
  shows "(ucast (drop_bit s (ti_update_preempt_count p s d)) :: u8) =
    ucast ((drop_bit s p AND THR_CNTR_MASK) + d)"
  by (rule bit_word_eqI) (use assms in \<open>auto simp: bit_ucast_iff bit_drop_bit_eq update_bit\<close>)

lemma refer_update:
  assumes "s \<le> 56"
  shows "ti_refer_pre_count (ti_update_preempt_count p s d) s = ti_refer_pre_count p s + ucast d"
  by (simp add: refer_eq drop_update [OF assms] ucast8_add mask_ucast)

lemma update_inverse:
  assumes s: "s \<le> 56"
  shows "ti_update_preempt_count (ti_update_preempt_count p s 1) s (- 1) = p" (is "?q = p")
proof (rule bit_word_eqI)
  have "ti_refer_pre_count ?q s = ti_refer_pre_count p s + ucast (1 :: u64) + ucast (- 1 :: u64)"
    by (simp only: refer_update [OF s])
  also have "\<dots> = ti_refer_pre_count p s" by (simp add: ucast8_minus_one)
  finally have eq: "ti_refer_pre_count ?q s = ti_refer_pre_count p s" .
  fix i
  show "bit ?q i = bit p i"
  proof (cases "s \<le> i \<and> i < s + 8")
    case True
    then show ?thesis
      using refer_bit [of ?q s "i - s"] refer_bit [of p s "i - s"] eq by auto
  qed (auto simp: update_bit [OF s])
qed

text \<open>
  C7: the packed counters behave as independent bytes: after adding a difference to the counter
  at a byte position, reading it gives the old value plus the difference modulo 256, every bit
  outside that byte is unchanged, and the decrement on leaving an interrupt undoes the
  increment on entering it.
\<close>

theorem ti_update_preempt_count_correct:
  assumes "shift \<le> 56"
  shows "ti_refer_pre_count (ti_update_preempt_count p shift d) shift =
           ti_refer_pre_count p shift + ucast d \<and>
         (\<not> (shift \<le> i \<and> i < shift + 8) \<longrightarrow> bit (ti_update_preempt_count p shift d) i = bit p i) \<and>
         ti_update_preempt_count (ti_update_preempt_count p shift 1) shift (- 1) = p"
  using refer_update [OF assms] update_bit [OF assms] update_inverse [OF assms] by simp

theorem ti_update_preempt_count_witness:
  "ti_refer_pre_count (ti_update_preempt_count 0x0105 THR_IRQCNT_SHIFT 1) THR_IRQCNT_SHIFT = 2 \<and>
   ti_refer_pre_count (ti_update_preempt_count 0xff00 THR_IRQCNT_SHIFT 1) THR_IRQCNT_SHIFT = 0 \<and>
   bit (ti_update_preempt_count 0xff05 8 1) 2 \<and>
   ti_update_preempt_count (ti_update_preempt_count 0xff05 8 1) 8 (- 1) = 0xff05"
  using ti_update_preempt_count_correct [of 8 "0x0105" 1 0]
    ti_update_preempt_count_correct [of 8 "0xff00" 1 0]
    ti_update_preempt_count_correct [of 8 "0xff05" 1 2]
  by (simp add: ti_refer_pre_count_def THR_CNTR_MASK_def drop_bit_eq_div)

text \<open>
  C8: the scheduler-active flag is bit 63 of the dispatch word, and \<^verbatim>\<open>ti_check_preempt_active\<close>
  returns the masked word as an \<^verbatim>\<open>int\<close>, so the test reads as false for every dispatch word, also
  right after the flag was set; the delayed-dispatch test, which compares before it converts, is
  exact.
\<close>

theorem ti_check_preempt_active_always_false:
  "ti_check_preempt_active p = 0 \<and> ti_check_preempt_active (ti_set_preempt_active p) = 0 \<and>
   bit (ti_set_preempt_active p) 63 \<and>
   ti_check_need_dispatch (ti_set_delay_dispatch p) \<and> \<not> ti_check_need_dispatch (ti_clr_delay_dispatch p)"
proof -
  have z: "ti_check_preempt_active q = 0" for q
    by (rule bit_word_eqI)
      (auto simp: ti_check_preempt_active_def bit_ucast_iff bit_and_iff active_bit)
  show ?thesis
    using z by (simp add: need_dispatch_bit ti_set_preempt_active_def ti_set_delay_dispatch_def
        ti_clr_delay_dispatch_def bit_or_iff bit_and_iff bit_not_iff ti_bits)
qed

end
