(* ===== verification/Kstate.thy ===== *)
theory Kstate
  imports Klist Kbitops Kthread_info
begin

text \<open>
  The state of the kernel core (\<^verbatim>\<open>kern/\<close>, built with \<^verbatim>\<open>CONFIG_HAL\<close>).  Threads, wait queues and
  mutexes are named by identifiers in place of addresses; the list nodes embedded in them have
  structured addresses (\<open>laddr\<close>), so that \<^verbatim>\<open>CONTAINER_OF\<close> is a pattern match and all queues share
  one store of links, as in C.

  A context switch suspends a thread in the middle of the routines it is executing.  What is left
  to do after the switch is a stack of \<open>frame\<close>s, innermost first, kept with the thread; each frame
  names the routine and the local variables it still needs.  A routine that can switch returns
  \<open>Returned v\<close> when it came back to its caller and \<open>Switched\<close> when the processor now runs
  another thread.
\<close>

section \<open>Identifiers, frames, threads\<close>

type_synonym thr = nat
type_synonym mtx = nat

datatype wqid = MtxWq mtx | ReaperWq | DlyWq thr | Wq nat

datatype laddr =
    RdqHead nat            \<comment> \<open>\<^verbatim>\<open>rd_queue.head[i]\<close>\<close>
  | ThrLink thr            \<comment> \<open>\<^verbatim>\<open>thr->link\<close>\<close>
  | WqHead wqid            \<comment> \<open>\<^verbatim>\<open>wq->head\<close>\<close>
  | EntLink thr nat        \<comment> \<open>\<^verbatim>\<open>ent.link\<close> on the stack of a waiting thread\<close>
  | ReapHead               \<comment> \<open>\<^verbatim>\<open>reaper_info.reaper_queue.head\<close>\<close>
  | CoHead                 \<comment> \<open>\<^verbatim>\<open>callouts.head\<close>\<close>
  | CoLink nat             \<comment> \<open>\<^verbatim>\<open>link\<close> of a call-out entry\<close>
  | CalledHead thr         \<comment> \<open>\<^verbatim>\<open>tobe_called\<close> on the stack of a thread\<close>

datatype frame =
    FSched bool
  | FWait wqid nat bool
  | FWakeup bool
  | FHold mtx nat bool
  | FRelease mtx bool
  | FDestroy mtx bool
  | FWaitEvRelease nat wqid mtx bool
  | FWaitEvSched nat wqid mtx bool
  | FWaitEvHold nat wqid mtx bool
  | FReapAdd bool
  | FExit bool
  | FThreadTime bool
  | FCallouts bool
  | FDelay bool
  | FReaper bool
  | FIdle bool
  | FStart

datatype thr_state = THR_TSTATE_RUN | THR_TSTATE_WAIT | THR_TSTATE_EXIT | THR_TSTATE_DEAD

record thread =
  status :: thr_state
  tid :: u64
  prio :: nat
  slice :: u64
  exit_code :: u64
  stack_top :: u64
  stack_size :: u64
  stack :: u64
  preempt :: u64
  kstack :: "frame list"

datatype callout_fn = Thr_delay_callout wqid

record kst =
  lnk :: "laddr links"
  bitmap :: u32
  thrs :: "thr \<Rightarrow> thread"
  live :: "thr set"
  current :: thr
  psw_if :: bool
  wq_reason :: "wqid \<Rightarrow> u32"
  ent_thr :: "thr \<times> nat \<Rightarrow> thr option"
  m_count :: "mtx \<Rightarrow> u32"
  m_owner :: "mtx \<Rightarrow> thr option"
  uptime :: u64
  co_expire :: "nat \<Rightarrow> u64"
  co_fn :: "nat \<Rightarrow> callout_fn option"

datatype ret = Returned int | Switched

lemma not_returned [simp]: "(\<forall>v. r \<noteq> Returned v) \<longleftrightarrow> r = Switched"
  by (cases r) auto

type_synonym kres = "(ret \<times> kst) outcome"

abbreviation (input) WQUE_REASON_WAKEUP :: u32 where "WQUE_REASON_WAKEUP \<equiv> 0"
abbreviation (input) WQUE_REASON_DESTROY :: u32 where "WQUE_REASON_DESTROY \<equiv> 1"
abbreviation (input) RDQ_PRIORITY_MAX :: nat where "RDQ_PRIORITY_MAX \<equiv> 16"
abbreviation (input) RDQ_USER_RR_PRIORITY :: nat where "RDQ_USER_RR_PRIORITY \<equiv> 0"
abbreviation (input) CONFIG_TIMER_TIME_SLICE :: u64 where "CONFIG_TIMER_TIME_SLICE \<equiv> 10"
abbreviation (input) CONFIG_TIMER_INTERVAL_MS :: u32 where "CONFIG_TIMER_INTERVAL_MS \<equiv> 10"

text \<open>The idle thread is a static object; it is the current thread at boot.\<close>

definition idle_refer_idle_thread :: thr where
  "idle_refer_idle_thread = 0"

section \<open>Processor status word\<close>

text \<open>Of the status word only the interrupt-enable flag matters to the kernel.\<close>

definition psw_disable_and_save_interrupt :: "kst \<Rightarrow> bool \<times> kst" where
  "psw_disable_and_save_interrupt s = (psw_if s, s\<lparr>psw_if := False\<rparr>)"

definition psw_restore_interrupt :: "bool \<Rightarrow> kst \<Rightarrow> kst" where
  "psw_restore_interrupt psw s = s\<lparr>psw_if := psw\<rparr>"

definition psw_enable_interrupt :: "kst \<Rightarrow> kst" where
  "psw_enable_interrupt s = s\<lparr>psw_if := True\<rparr>"

definition psw_disable_interrupt :: "kst \<Rightarrow> kst" where
  "psw_disable_interrupt s = s\<lparr>psw_if := False\<rparr>"

section \<open>Field updates\<close>

definition upd_thr :: "thr \<Rightarrow> (thread \<Rightarrow> thread) \<Rightarrow> kst \<Rightarrow> kst" where
  "upd_thr t f s = s\<lparr>thrs := (thrs s)(t := f (thrs s t))\<rparr>"

definition set_status :: "thr \<Rightarrow> thr_state \<Rightarrow> kst \<Rightarrow> kst" where
  "set_status t st = upd_thr t (\<lambda>r. r\<lparr>status := st\<rparr>)"

definition upd_preempt :: "thr \<Rightarrow> (u64 \<Rightarrow> u64) \<Rightarrow> kst \<Rightarrow> kst" where
  "upd_preempt t f = upd_thr t (\<lambda>r. r\<lparr>preempt := f (preempt r)\<rparr>)"

text \<open>A routine suspended below the frames already recorded for the thread.\<close>

definition push_frame :: "thr \<Rightarrow> frame \<Rightarrow> kst \<Rightarrow> kst" where
  "push_frame t f = upd_thr t (\<lambda>r. r\<lparr>kstack := kstack r @ [f]\<rparr>)"

definition upd_lnk :: "(laddr links \<Rightarrow> laddr links) \<Rightarrow> kst \<Rightarrow> kst" where
  "upd_lnk f s = s\<lparr>lnk := f (lnk s)\<rparr>"

lemmas upd_defs = upd_thr_def set_status_def upd_preempt_def push_frame_def upd_lnk_def
lemmas psw_defs = psw_disable_and_save_interrupt_def psw_restore_interrupt_def
  psw_enable_interrupt_def psw_disable_interrupt_def

text \<open>Frame rules: what each elementary update leaves alone.\<close>

lemma psw_restore_sel [simp]:
  "lnk (psw_restore_interrupt b s) = lnk s" "bitmap (psw_restore_interrupt b s) = bitmap s"
  "thrs (psw_restore_interrupt b s) = thrs s" "live (psw_restore_interrupt b s) = live s"
  "current (psw_restore_interrupt b s) = current s" "psw_if (psw_restore_interrupt b s) = b"
  "wq_reason (psw_restore_interrupt b s) = wq_reason s" "ent_thr (psw_restore_interrupt b s) = ent_thr s"
  "m_count (psw_restore_interrupt b s) = m_count s" "m_owner (psw_restore_interrupt b s) = m_owner s"
  "uptime (psw_restore_interrupt b s) = uptime s" "co_expire (psw_restore_interrupt b s) = co_expire s"
  "co_fn (psw_restore_interrupt b s) = co_fn s"
  by (simp_all add: psw_defs)

lemma upd_thr_sel [simp]:
  "lnk (upd_thr t f s) = lnk s" "bitmap (upd_thr t f s) = bitmap s"
  "thrs (upd_thr t f s) = (thrs s)(t := f (thrs s t))" "live (upd_thr t f s) = live s"
  "current (upd_thr t f s) = current s" "psw_if (upd_thr t f s) = psw_if s"
  "wq_reason (upd_thr t f s) = wq_reason s" "ent_thr (upd_thr t f s) = ent_thr s"
  "m_count (upd_thr t f s) = m_count s" "m_owner (upd_thr t f s) = m_owner s"
  "uptime (upd_thr t f s) = uptime s" "co_expire (upd_thr t f s) = co_expire s"
  "co_fn (upd_thr t f s) = co_fn s"
  by (simp_all add: upd_thr_def)

lemma upd_lnk_sel [simp]:
  "lnk (upd_lnk g s) = g (lnk s)" "bitmap (upd_lnk g s) = bitmap s"
  "thrs (upd_lnk g s) = thrs s" "live (upd_lnk g s) = live s"
  "current (upd_lnk g s) = current s" "psw_if (upd_lnk g s) = psw_if s"
  "wq_reason (upd_lnk g s) = wq_reason s" "ent_thr (upd_lnk g s) = ent_thr s"
  "m_count (upd_lnk g s) = m_count s" "m_owner (upd_lnk g s) = m_owner s"
  "uptime (upd_lnk g s) = uptime s" "co_expire (upd_lnk g s) = co_expire s"
  "co_fn (upd_lnk g s) = co_fn s"
  by (simp_all add: upd_lnk_def)

end
