(* ===== verification/Kready.thy ===== *)
theory Kready
  imports Kstate
begin

text \<open>
  The ready queue of \<^verbatim>\<open>kern/ready_queue.c\<close>: sixteen lists of threads, one per priority, and a
  bitmap of the non-empty ones.  The file also holds the thread-queue helpers of
  \<^verbatim>\<open>kern/thread.c\<close> the ready queue uses, the abstract ready queue and the refinement lemmas.
\<close>

section \<open>Operations\<close>

definition thr_unlink_thread :: "thr \<Rightarrow> kst \<Rightarrow> kst" where
  "thr_unlink_thread t s =
     (let (psw, s) = psw_disable_and_save_interrupt s;
          s = upd_lnk (\<lambda>h. list_del h (ThrLink t)) s
      in psw_restore_interrupt psw s)"

definition rdq_add_thread :: "thr \<Rightarrow> kst \<Rightarrow> kst" where
  "rdq_add_thread t s =
     (let p = prio (thrs s t);
          (psw, s) = psw_disable_and_save_interrupt s;
          s = upd_lnk (\<lambda>h. list_add h (RdqHead p) (ThrLink t)) s;
          s = s\<lparr>bitmap := bitmap s OR push_bit p 1\<rparr>
      in psw_restore_interrupt psw s)"

definition rdq_remove_thread :: "thr \<Rightarrow> kst \<Rightarrow> kst" where
  "rdq_remove_thread t s =
     (let p = prio (thrs s t);
          (psw, s) = psw_disable_and_save_interrupt s;
          s = thr_unlink_thread t s;
          s = (if list_is_empty (lnk s) (RdqHead p)
               then s\<lparr>bitmap := bitmap s AND NOT (push_bit p 1)\<rparr> else s)
      in psw_restore_interrupt psw s)"

definition rdq_rotate_queue :: "kst \<Rightarrow> kst" where
  "rdq_rotate_queue s =
     (let (psw, s) = psw_disable_and_save_interrupt s;
          s = upd_lnk (\<lambda>h. list_rotate h (RdqHead RDQ_USER_RR_PRIORITY)) s
      in psw_restore_interrupt psw s)"

text \<open>
  An index outside the array and a node that is not a thread's link have no defined meaning in
  the C code; the search reports \<open>Kfault\<close> for them.
\<close>

definition rdq_find_runnable_thread :: "kst \<Rightarrow> thr option outcome" where
  "rdq_find_runnable_thread s =
     (case find_msr_bit (bitmap s) of
        (rc, idx) \<Rightarrow>
          if rc \<noteq> 0 then Ok None
          else (case idx of
                  None \<Rightarrow> Stop Kfault
                | Some i \<Rightarrow>
                    if RDQ_PRIORITY_MAX \<le> i then Stop Kfault
                    else obind (kassert (\<not> list_is_empty (lnk s) (RdqHead i)))
                      (\<lambda>_. case list_ref_top (lnk s) (RdqHead i) of
                              ThrLink t \<Rightarrow> Ok (Some t)
                            | _ \<Rightarrow> Stop Kfault)))"

definition rdq_init_ready_queue :: "kst \<Rightarrow> kst" where
  "rdq_init_ready_queue s =
     (let s = s\<lparr>bitmap := 0\<rparr>
      in fold (\<lambda>i s. upd_lnk (\<lambda>h. init_list_head h (RdqHead i)) s) [0..<RDQ_PRIORITY_MAX] s)"

section \<open>The abstract queues of the kernel\<close>

text \<open>
  Abstractly the kernel keeps, for each priority, the list of its ready threads, for each wait
  queue the list of its entries, the list of terminated threads and the list of call-outs.  The
  links represent these lists when every queue head in \<open>all_heads\<close> is a ring of the right nodes
  and every other node is linked to itself.
\<close>

record kabs =
  a_rq :: "nat \<Rightarrow> thr list"
  a_wq :: "wqid \<Rightarrow> (thr \<times> nat) list"
  a_reap :: "thr list"
  a_co :: "nat list"

definition all_heads :: "laddr set" where
  "all_heads = RdqHead ` {..<RDQ_PRIORITY_MAX} \<union> range WqHead \<union> {ReapHead, CoHead}"

fun ent_link :: "thr \<times> nat \<Rightarrow> laddr" where
  "ent_link (t, d) = EntLink t d"

fun a_lists :: "kabs \<Rightarrow> laddr \<Rightarrow> laddr list" where
  "a_lists a (RdqHead p) = map ThrLink (a_rq a p)"
| "a_lists a (WqHead w) = map ent_link (a_wq a w)"
| "a_lists a ReapHead = map ThrLink (a_reap a)"
| "a_lists a CoHead = map CoLink (a_co a)"
| "a_lists a _ = []"

fun is_node :: "laddr \<Rightarrow> bool" where
  "is_node (ThrLink _) = True"
| "is_node (EntLink _ _) = True"
| "is_node (CoLink _) = True"
| "is_node _ = False"

definition links_ok :: "laddr links \<Rightarrow> kabs \<Rightarrow> bool" where
  "links_ok h a =
     (rings h all_heads (a_lists a) \<and>
      (\<forall>n. is_node n \<and> n \<notin> used all_heads (a_lists a) \<longrightarrow> unlinked h n))"

definition bitmap_ok :: "u32 \<Rightarrow> (nat \<Rightarrow> thr list) \<Rightarrow> bool" where
  "bitmap_ok b rq = (\<forall>i. bit b i \<longleftrightarrow> i < RDQ_PRIORITY_MAX \<and> rq i \<noteq> [])"

definition ready_ok :: "(thr \<Rightarrow> thread) \<Rightarrow> (nat \<Rightarrow> thr list) \<Rightarrow> bool" where
  "ready_ok ts rq =
     (\<forall>p < RDQ_PRIORITY_MAX. \<forall>t \<in> set (rq p).
        prio (ts t) = p \<and> status (ts t) = THR_TSTATE_RUN \<and> t \<noteq> idle_refer_idle_thread)"

text \<open>The scheduling policy: the first thread of the highest non-empty priority.\<close>

definition rq_select :: "(nat \<Rightarrow> thr list) \<Rightarrow> thr option" where
  "rq_select rq =
     (case filter (\<lambda>p. rq p \<noteq> []) (rev [0..<RDQ_PRIORITY_MAX]) of
        [] \<Rightarrow> None | p # _ \<Rightarrow> Some (hd (rq p)))"

section \<open>Nodes and heads\<close>

lemma inj_ent_link [simp]: "ent_link x = ent_link y \<longleftrightarrow> x = y"
  by (cases x; cases y) auto

lemma ent_link_neq [simp]:
  "ent_link x \<noteq> ThrLink t" "ent_link x \<noteq> CoLink c" "ent_link x \<noteq> RdqHead p"
  "ent_link x \<noteq> WqHead w" "ent_link x \<noteq> ReapHead" "ent_link x \<noteq> CoHead"
  "ThrLink t \<noteq> ent_link x" "CoLink c \<noteq> ent_link x"
  by (cases x; simp)+

lemma inj_links [simp]: "inj_on ThrLink A" "inj_on CoLink B" "inj_on ent_link C"
  by (auto simp: inj_on_def)

lemma is_node_ent_link [simp]: "is_node (ent_link x)"
  by (cases x) simp

lemma head_not_node: "n \<in> all_heads \<Longrightarrow> \<not> is_node n"
  by (auto simp: all_heads_def)

lemma heads_in [simp]:
  "RdqHead p \<in> all_heads \<longleftrightarrow> p < RDQ_PRIORITY_MAX" "WqHead w \<in> all_heads"
  "ReapHead \<in> all_heads" "CoHead \<in> all_heads"
  "ThrLink t \<notin> all_heads" "ent_link e \<notin> all_heads" "CoLink c \<notin> all_heads"
  by (auto simp: all_heads_def)

lemma ball_all_heads:
  "(\<forall>x\<in>all_heads. P x) \<longleftrightarrow>
     (\<forall>p < RDQ_PRIORITY_MAX. P (RdqHead p)) \<and> (\<forall>w. P (WqHead w)) \<and> P ReapHead \<and> P CoHead"
  by (auto simp: all_heads_def)

text \<open>Which abstract list a node is on.\<close>

definition thr_queued :: "kabs \<Rightarrow> thr \<Rightarrow> bool" where
  "thr_queued a t = ((\<exists>p < RDQ_PRIORITY_MAX. t \<in> set (a_rq a p)) \<or> t \<in> set (a_reap a))"

lemma used_iff:
  "ThrLink t \<in> used all_heads (a_lists a) \<longleftrightarrow> thr_queued a t"
  "ent_link e \<in> used all_heads (a_lists a) \<longleftrightarrow> (\<exists>w. e \<in> set (a_wq a w))"
  "CoLink c \<in> used all_heads (a_lists a) \<longleftrightarrow> c \<in> set (a_co a)"
  by (auto simp: used_def thr_queued_def all_heads_def image_iff)

lemma links_ok_rings: "links_ok h a \<Longrightarrow> rings h all_heads (a_lists a)"
  by (simp add: links_ok_def)

lemma links_ok_unlinked:
  "links_ok h a \<Longrightarrow> is_node n \<Longrightarrow> n \<notin> used all_heads (a_lists a) \<Longrightarrow> unlinked h n"
  by (simp add: links_ok_def)

lemma links_ok_distinct:
  assumes "links_ok h a"
  shows "p < RDQ_PRIORITY_MAX \<Longrightarrow> distinct (a_rq a p)" "distinct (a_wq a w)"
    "distinct (a_reap a)" "distinct (a_co a)"
  using lq.rep_distinct [OF links_ok_rings [OF assms], of "RdqHead p"]
    lq.rep_distinct [OF links_ok_rings [OF assms], of "WqHead w"]
    lq.rep_distinct [OF links_ok_rings [OF assms], of ReapHead]
    lq.rep_distinct [OF links_ok_rings [OF assms], of CoHead]
  by (auto simp: distinct_map)

lemma links_ok_apart:
  assumes "links_ok h a"
  shows "p < RDQ_PRIORITY_MAX \<Longrightarrow> q < RDQ_PRIORITY_MAX \<Longrightarrow> t \<in> set (a_rq a p) \<Longrightarrow> t \<in> set (a_rq a q) \<Longrightarrow> p = q"
    "p < RDQ_PRIORITY_MAX \<Longrightarrow> t \<in> set (a_rq a p) \<Longrightarrow> t \<notin> set (a_reap a)"
    "e \<in> set (a_wq a v) \<Longrightarrow> e \<in> set (a_wq a w) \<Longrightarrow> v = w"
proof -
  note A = lq.rep_apart [OF links_ok_rings [OF assms]]
  show "p = q" if "p < RDQ_PRIORITY_MAX" "q < RDQ_PRIORITY_MAX" "t \<in> set (a_rq a p)" "t \<in> set (a_rq a q)"
    using A [of "RdqHead p" "RdqHead q"] that by (auto simp: disjoint_iff)
  show "t \<notin> set (a_reap a)" if "p < RDQ_PRIORITY_MAX" "t \<in> set (a_rq a p)"
    using A [of "RdqHead p" ReapHead] that by (auto simp: disjoint_iff)
  show "v = w" if "e \<in> set (a_wq a v)" "e \<in> set (a_wq a w)"
    using A [of "WqHead v" "WqHead w"] that by (auto simp: disjoint_iff)
qed

section \<open>Effect of the list operations on the abstract queues\<close>

lemma links_ok_add:
  assumes L: "links_ok h a" and b: "b \<in> all_heads" and n: "n \<notin> used all_heads (a_lists a)"
    and a': "a_lists a' = (a_lists a)(b := a_lists a b @ [n])"
  shows "links_ok (list_add h b n) a'"
  unfolding links_ok_def
proof (intro conjI allI impI)
  note R = links_ok_rings [OF L]
  show "rings (list_add h b n) all_heads (a_lists a')"
    unfolding a' by (rule lq.rep_enq [OF R b n])
  fix m assume m: "is_node m \<and> m \<notin> used all_heads (a_lists a')"
  have mu: "m \<notin> used all_heads (a_lists a)" "m \<noteq> n"
    using m b by (auto simp: a' used_def split: if_splits)
  have "l_prev (h b) \<in> set (b # a_lists a b)"
    using is_list_ends [OF rings_is_list [OF R b]] last_in_set [of "b # a_lists a b"] by simp
  then have "m \<noteq> l_prev (h b)" using mu in_usedI [OF b, of _ "a_lists a"] by blast
  moreover have "m \<noteq> b" "n \<noteq> b" using mu n b by (auto simp: used_def)
  ultimately have "list_add h b n m = h m" using mu by (intro list_add_other)
  then show "unlinked (list_add h b n) m"
    using links_ok_unlinked [OF L] m mu by (simp add: unlinked_def)
qed

lemma links_ok_del:
  assumes L: "links_ok h a" and b: "b \<in> all_heads" and n: "n \<in> set (a_lists a b)"
    and a': "a_lists a' = (a_lists a)(b := remove1 n (a_lists a b))"
  shows "links_ok (list_del h n) a'"
  unfolding links_ok_def
proof (intro conjI allI impI)
  note R = links_ok_rings [OF L]
  show "rings (list_del h n) all_heads (a_lists a')"
    unfolding a' by (rule lq.rep_del [OF R b n])
  fix m assume m: "is_node m \<and> m \<notin> used all_heads (a_lists a')"
  show "unlinked (list_del h n) m"
  proof (cases "m = n")
    case False
    have d: "distinct (a_lists a b)" using lq.rep_distinct [OF R b] by simp
    have mu: "m \<notin> used all_heads (a_lists a)"
      using m b False d by (auto simp: a' used_def split: if_splits)
    from n obtain xs ys where "a_lists a b = xs @ n # ys" by (auto simp: in_set_conv_decomp)
    then have "l_prev (h n) \<in> set (b # a_lists a b)" "l_next (h n) \<in> set (b # a_lists a b)"
      using is_list_neighbours [of h b xs n ys] rings_is_list [OF R b]
        last_eq_or_in [of b xs] hd_append_last_in [of ys b] by auto
    then have "m \<noteq> l_prev (h n)" "m \<noteq> l_next (h n)" using mu in_usedI [OF b, of _ "a_lists a"] by blast+
    then have "list_del h n m = h m" using False by (intro list_del_other)
    then show ?thesis using links_ok_unlinked [OF L] m mu by (simp add: unlinked_def)
  qed simp
qed

lemma links_ok_rotate:
  assumes L: "links_ok h a" and b: "b \<in> all_heads"
    and a': "a_lists a' = (a_lists a)(b := rotate1 (a_lists a b))"
  shows "links_ok (list_rotate h b) a'"
proof (cases "a_lists a b")
  case Nil
  note R = links_ok_rings [OF L]
  have "unlinked h b" using is_list_ends [OF rings_is_list [OF R b]] Nil by (simp add: unlinked_def)
  then have "list_rotate h b = h" by (rule list_rotate_empty)
  moreover have "a_lists a' = a_lists a" using Nil by (simp add: a' fun_upd_idem)
  ultimately show ?thesis using L by (simp add: links_ok_def)
next
  case (Cons x xs)
  note R = links_ok_rings [OF L]
  have eq: "list_rotate h b = list_add (list_del h x) b x"
    using lq.rep_pop [OF R b Cons] by (simp add: list_rotate_def list_get_top_def Let_def)
  have "rings (list_rotate h b) all_heads (a_lists a')"
    unfolding a' by (rule rings_rotate [OF R b])
  moreover have "unlinked (list_rotate h b) m"
    if m: "is_node m" "m \<notin> used all_heads (a_lists a')" for m
  proof -
    have mu: "m \<notin> used all_heads (a_lists a)"
      using m b by (auto simp: a' used_def split: if_splits)
    let ?h = "list_del h x"
    have R1: "rings ?h all_heads ((a_lists a)(b := xs))" by (rule lq.rep_pop(2) [OF R b Cons])
    have "l_prev (h x) \<in> set (b # a_lists a b)" "l_next (h x) \<in> set (b # a_lists a b)"
      using is_list_neighbours [of h b "[]" x xs] rings_is_list [OF R b] Cons
        hd_append_last_in [of xs b] by auto
    then have "m \<noteq> l_prev (h x)" "m \<noteq> l_next (h x)" "m \<noteq> x"
      using mu in_usedI [OF b, of _ "a_lists a"] Cons by auto
    then have "?h m = h m" by (intro list_del_other)
    moreover have "l_prev (?h b) \<in> set (b # a_lists a b)"
      using is_list_ends [OF rings_is_list [OF R1 b]] Cons last_eq_or_in [of b xs] by auto
    then have "m \<noteq> l_prev (?h b)" using mu in_usedI [OF b, of _ "a_lists a"] by blast
    moreover have "m \<noteq> b" using mu b by (auto simp: used_def)
    moreover have "x \<noteq> b" using lq.rep_distinct [OF R b] Cons by auto
    ultimately have "list_rotate h b m = h m"
      unfolding eq using \<open>m \<noteq> x\<close> list_add_other [of m x b ?h] by simp
    then show ?thesis using links_ok_unlinked [OF L] m mu by (simp add: unlinked_def)
  qed
  ultimately show ?thesis by (simp add: links_ok_def)
qed

lemma a_lists_upd:
  "a_lists (a\<lparr>a_rq := (a_rq a)(p := xs)\<rparr>) = (a_lists a)(RdqHead p := map ThrLink xs)"
  "a_lists (a\<lparr>a_wq := (a_wq a)(w := es)\<rparr>) = (a_lists a)(WqHead w := map ent_link es)"
  "a_lists (a\<lparr>a_reap := ys\<rparr>) = (a_lists a)(ReapHead := map ThrLink ys)"
  "a_lists (a\<lparr>a_co := cs\<rparr>) = (a_lists a)(CoHead := map CoLink cs)"
proof -
  show "a_lists (a\<lparr>a_rq := (a_rq a)(p := xs)\<rparr>) = (a_lists a)(RdqHead p := map ThrLink xs)"
    by (rule ext, rename_tac x, case_tac x) auto
  show "a_lists (a\<lparr>a_wq := (a_wq a)(w := es)\<rparr>) = (a_lists a)(WqHead w := map ent_link es)"
    by (rule ext, rename_tac x, case_tac x) auto
  show "a_lists (a\<lparr>a_reap := ys\<rparr>) = (a_lists a)(ReapHead := map ThrLink ys)"
    by (rule ext, rename_tac x, case_tac x) auto
  show "a_lists (a\<lparr>a_co := cs\<rparr>) = (a_lists a)(CoHead := map CoLink cs)"
    by (rule ext, rename_tac x, case_tac x) auto
qed

section \<open>Refinement of the ready queue\<close>

text \<open>The part of the kernel invariant the ready queue keeps.\<close>

definition rdq_ok :: "kst \<Rightarrow> kabs \<Rightarrow> bool" where
  "rdq_ok s a = (links_ok (lnk s) a \<and> bitmap_ok (bitmap s) (a_rq a) \<and> ready_ok (thrs s) (a_rq a))"

definition a_add :: "nat \<Rightarrow> thr \<Rightarrow> kabs \<Rightarrow> kabs" where
  "a_add p t a = a\<lparr>a_rq := (a_rq a)(p := a_rq a p @ [t])\<rparr>"

definition a_remove :: "nat \<Rightarrow> thr \<Rightarrow> kabs \<Rightarrow> kabs" where
  "a_remove p t a = a\<lparr>a_rq := (a_rq a)(p := remove1 t (a_rq a p))\<rparr>"

lemma bit_or_one: "bit (b OR push_bit p 1 :: u32) i \<longleftrightarrow> bit b i \<or> i = p \<and> p < 32"
  by (auto simp: bit_or_iff bit_push_one simp del: push_bit_of_1)

lemma bit_clear_one: "bit (b AND NOT (push_bit p 1) :: u32) i \<longleftrightarrow> bit b i \<and> i \<noteq> p"
  by (auto simp: bit_and_iff bit_not_iff bit_push_one dest: bit_imp_le_length simp del: push_bit_of_1)

lemma rdq_add_thread_sel [simp]:
  "lnk (rdq_add_thread t s) = list_add (lnk s) (RdqHead (prio (thrs s t))) (ThrLink t)"
  "bitmap (rdq_add_thread t s) = bitmap s OR push_bit (prio (thrs s t)) 1"
  "thrs (rdq_add_thread t s) = thrs s" "live (rdq_add_thread t s) = live s"
  "current (rdq_add_thread t s) = current s" "psw_if (rdq_add_thread t s) = psw_if s"
  "wq_reason (rdq_add_thread t s) = wq_reason s" "ent_thr (rdq_add_thread t s) = ent_thr s"
  "m_count (rdq_add_thread t s) = m_count s" "m_owner (rdq_add_thread t s) = m_owner s"
  "uptime (rdq_add_thread t s) = uptime s" "co_expire (rdq_add_thread t s) = co_expire s"
  "co_fn (rdq_add_thread t s) = co_fn s"
  by (simp_all add: rdq_add_thread_def Let_def psw_defs upd_lnk_def)

lemma rdq_remove_thread_sel [simp]:
  "lnk (rdq_remove_thread t s) = list_del (lnk s) (ThrLink t)"
  "bitmap (rdq_remove_thread t s) =
     (if list_is_empty (list_del (lnk s) (ThrLink t)) (RdqHead (prio (thrs s t)))
      then bitmap s AND NOT (push_bit (prio (thrs s t)) 1) else bitmap s)"
  "thrs (rdq_remove_thread t s) = thrs s" "live (rdq_remove_thread t s) = live s"
  "current (rdq_remove_thread t s) = current s" "psw_if (rdq_remove_thread t s) = psw_if s"
  "wq_reason (rdq_remove_thread t s) = wq_reason s" "ent_thr (rdq_remove_thread t s) = ent_thr s"
  "m_count (rdq_remove_thread t s) = m_count s" "m_owner (rdq_remove_thread t s) = m_owner s"
  "uptime (rdq_remove_thread t s) = uptime s" "co_expire (rdq_remove_thread t s) = co_expire s"
  "co_fn (rdq_remove_thread t s) = co_fn s"
  by (simp_all add: rdq_remove_thread_def thr_unlink_thread_def Let_def psw_defs upd_lnk_def)

lemma rdq_rotate_queue_sel [simp]:
  "lnk (rdq_rotate_queue s) = list_rotate (lnk s) (RdqHead 0)"
  "bitmap (rdq_rotate_queue s) = bitmap s"
  "thrs (rdq_rotate_queue s) = thrs s" "live (rdq_rotate_queue s) = live s"
  "current (rdq_rotate_queue s) = current s" "psw_if (rdq_rotate_queue s) = psw_if s"
  "wq_reason (rdq_rotate_queue s) = wq_reason s" "ent_thr (rdq_rotate_queue s) = ent_thr s"
  "m_count (rdq_rotate_queue s) = m_count s" "m_owner (rdq_rotate_queue s) = m_owner s"
  "uptime (rdq_rotate_queue s) = uptime s" "co_expire (rdq_rotate_queue s) = co_expire s"
  "co_fn (rdq_rotate_queue s) = co_fn s"
  by (simp_all add: rdq_rotate_queue_def Let_def psw_defs upd_lnk_def)

lemma rdq_ok_add:
  assumes ok: "rdq_ok s a" and t: "\<not> thr_queued a t" and p: "prio (thrs s t) = p" "p < RDQ_PRIORITY_MAX"
    and r: "status (thrs s t) = THR_TSTATE_RUN" "t \<noteq> idle_refer_idle_thread"
  shows "rdq_ok (rdq_add_thread t s) (a_add p t a)"
  unfolding rdq_ok_def
proof (intro conjI)
  have L: "links_ok (lnk s) a" using ok by (simp add: rdq_ok_def)
  show "links_ok (lnk (rdq_add_thread t s)) (a_add p t a)"
    by (simp add: p, rule links_ok_add [OF L])
      (use t p in \<open>auto simp: used_iff a_add_def a_lists_upd\<close>)
  show "bitmap_ok (bitmap (rdq_add_thread t s)) (a_rq (a_add p t a))"
    using ok p by (auto simp: rdq_ok_def bitmap_ok_def a_add_def bit_or_one simp del: push_bit_of_1)
  show "ready_ok (thrs (rdq_add_thread t s)) (a_rq (a_add p t a))"
    using ok p r by (auto simp: rdq_ok_def ready_ok_def a_add_def)
qed

lemma rdq_ok_remove:
  assumes ok: "rdq_ok s a" and p: "p < RDQ_PRIORITY_MAX" and t: "t \<in> set (a_rq a p)"
  shows "rdq_ok (rdq_remove_thread t s) (a_remove p t a)"
  unfolding rdq_ok_def
proof (intro conjI)
  have L: "links_ok (lnk s) a" using ok by (simp add: rdq_ok_def)
  have pr: "prio (thrs s t) = p" using ok p t by (auto simp: rdq_ok_def ready_ok_def)
  have d: "distinct (a_rq a p)" by (rule links_ok_distinct(1) [OF L p])
  have L': "links_ok (list_del (lnk s) (ThrLink t)) (a_remove p t a)"
    by (rule links_ok_del [OF L, of "RdqHead p"])
      (use t p in \<open>simp_all add: a_remove_def a_lists_upd map_remove1_inj\<close>)
  then show "links_ok (lnk (rdq_remove_thread t s)) (a_remove p t a)" by simp
  have e: "list_is_empty (list_del (lnk s) (ThrLink t)) (RdqHead p) \<longleftrightarrow> remove1 t (a_rq a p) = []"
    by (rule trans [OF is_list_empty_iff [OF rings_is_list [OF links_ok_rings [OF L']]]])
      (simp_all add: p a_remove_def)
  show "bitmap_ok (bitmap (rdq_remove_thread t s)) (a_rq (a_remove p t a))"
    unfolding bitmap_ok_def
  proof
    fix i
    have "bit (bitmap s) i \<longleftrightarrow> i < RDQ_PRIORITY_MAX \<and> a_rq a i \<noteq> []"
      using ok by (simp add: rdq_ok_def bitmap_ok_def)
    moreover have "a_rq a p \<noteq> []" using t by (cases "a_rq a p") simp_all
    moreover have "bit (bitmap (rdq_remove_thread t s)) i \<longleftrightarrow>
        bit (bitmap s) i \<and> (remove1 t (a_rq a p) = [] \<longrightarrow> i \<noteq> p)"
      by (simp only: rdq_remove_thread_sel pr e bit_clear_one split: if_split) blast
    ultimately show "bit (bitmap (rdq_remove_thread t s)) i \<longleftrightarrow>
        i < RDQ_PRIORITY_MAX \<and> a_rq (a_remove p t a) i \<noteq> []"
      by (cases "i = p") (use p in \<open>simp_all add: a_remove_def\<close>)
  qed
  show "ready_ok (thrs (rdq_remove_thread t s)) (a_rq (a_remove p t a))"
    using ok d by (auto simp: rdq_ok_def ready_ok_def a_remove_def)
qed

text \<open>Removing a thread that is not queued leaves the queue as it is.\<close>

lemma rdq_ok_remove_none:
  assumes ok: "rdq_ok s a" and t: "\<not> thr_queued a t" "prio (thrs s t) < RDQ_PRIORITY_MAX"
  shows "rdq_ok (rdq_remove_thread t s) a" "lnk (rdq_remove_thread t s) = lnk s"
proof -
  have L: "links_ok (lnk s) a" using ok by (simp add: rdq_ok_def)
  have h: "list_del (lnk s) (ThrLink t) = lnk s"
    by (rule list_del_unlinked, rule links_ok_unlinked [OF L]) (use t in \<open>auto simp: used_iff\<close>)
  then show "lnk (rdq_remove_thread t s) = lnk s" by simp
  show "rdq_ok (rdq_remove_thread t s) a"
    using ok t h lq.rep_empty [OF links_ok_rings [OF L], of "RdqHead (prio (thrs s t))"]
    by (auto simp: rdq_ok_def bitmap_ok_def bit_clear_one simp del: push_bit_of_1)
qed

lemma rdq_ok_rotate:
  assumes ok: "rdq_ok s a"
  shows "rdq_ok (rdq_rotate_queue s) (a\<lparr>a_rq := (a_rq a)(0 := rotate1 (a_rq a 0))\<rparr>)"
proof -
  have "links_ok (list_rotate (lnk s) (RdqHead 0)) (a\<lparr>a_rq := (a_rq a)(0 := rotate1 (a_rq a 0))\<rparr>)"
    by (rule links_ok_rotate [of _ a])
      (use ok in \<open>auto simp: rdq_ok_def a_lists_upd rotate1_map\<close>)
  moreover have "ready_ok (thrs s) ((a_rq a)(0 := rotate1 (a_rq a 0)))"
    using ok by (auto simp: rdq_ok_def ready_ok_def dest: spec [of _ 0])
  ultimately show ?thesis using ok by (auto simp: rdq_ok_def bitmap_ok_def)
qed

lemma rq_select_highest:
  assumes "p < RDQ_PRIORITY_MAX" "rq p \<noteq> []" "\<And>q. p < q \<Longrightarrow> q < RDQ_PRIORITY_MAX \<Longrightarrow> rq q = []"
  shows "rq_select rq = Some (hd (rq p))"
proof -
  have "[0..<RDQ_PRIORITY_MAX] = [0..<p] @ p # [Suc p..<RDQ_PRIORITY_MAX]"
    using assms(1) upt_add_eq_append [of 0 p "RDQ_PRIORITY_MAX - p"] upt_conv_Cons [of p RDQ_PRIORITY_MAX]
    by (simp del: upt_conv_Cons)
  moreover have "filter (\<lambda>q. rq q \<noteq> []) (rev [Suc p..<RDQ_PRIORITY_MAX]) = []"
    using assms(3) by (auto simp: filter_empty_conv)
  ultimately show ?thesis using assms(2) by (simp only: rq_select_def rev_append rev.simps append.simps append_assoc
      filter_append filter.simps append_Nil if_True list.case simp_thms)
qed

lemma rq_select_none: "(\<And>p. p < RDQ_PRIORITY_MAX \<Longrightarrow> rq p = []) \<Longrightarrow> rq_select rq = None"
  unfolding rq_select_def by (subst filter_False) auto

lemma rq_select_someD:
  assumes "rq_select rq = Some t"
  obtains p xs where "p < RDQ_PRIORITY_MAX" "rq p = t # xs"
    "\<And>q. p < q \<Longrightarrow> q < RDQ_PRIORITY_MAX \<Longrightarrow> rq q = []"
proof -
  let ?P = "\<lambda>p. p < RDQ_PRIORITY_MAX \<and> rq p \<noteq> []"
  from assms have "\<exists>p. ?P p" using rq_select_none [of rq] by (metis option.distinct(1))
  moreover have "finite (Collect ?P)" by simp
  ultimately obtain p where p: "?P p" "\<And>q. ?P q \<Longrightarrow> q \<le> p"
    using Max_in [of "Collect ?P"] Max_ge [of "Collect ?P"] by blast
  have top: "rq q = []" if "p < q" "q < RDQ_PRIORITY_MAX" for q using p(2) [of q] that by auto
  have "t = hd (rq p)" using rq_select_highest [of p rq] top p(1) assms by simp
  then show ?thesis using that [of p "tl (rq p)"] p(1) top by auto
qed

text \<open>The bitmap search finds the thread the policy selects, and never fails.\<close>

lemma rdq_find_runnable_thread_ok:
  assumes ok: "rdq_ok s a"
  shows "rdq_find_runnable_thread s = Ok (rq_select (a_rq a))"
proof (cases "bitmap s = 0")
  case True
  then have "rq_select (a_rq a) = None"
    using ok by (intro rq_select_none) (simp add: rdq_ok_def bitmap_ok_def)
  then show ?thesis using True by (simp add: rdq_find_runnable_thread_def find_msr_bit_zero)
next
  case False
  have B: "bit (bitmap s) i \<longleftrightarrow> i < RDQ_PRIORITY_MAX \<and> a_rq a i \<noteq> []" for i
    using ok by (simp add: rdq_ok_def bitmap_ok_def)
  obtain i where i: "find_msr_bit (bitmap s) = (0, Some i)" "bit (bitmap s) i"
    "\<And>j. i < j \<Longrightarrow> \<not> bit (bitmap s) j" using find_msr_bit_some [OF False] by metis
  then have p: "i < RDQ_PRIORITY_MAX" "a_rq a i \<noteq> []" using B by auto
  then obtain t xs where t: "a_rq a i = t # xs" by (cases "a_rq a i") auto
  have L: "is_list (lnk s) (RdqHead i) (ThrLink t # map ThrLink xs)"
    using rings_is_list [OF links_ok_rings, of "lnk s" a "RdqHead i"] ok p t by (simp add: rdq_ok_def)
  have "rq_select (a_rq a) = Some t"
    using rq_select_highest [of i "a_rq a"] p i(3) B t by simp
  then show ?thesis
    using p i(1) is_list_top [OF L] is_list_empty_iff [OF L]
    by (simp add: rdq_find_runnable_thread_def)
qed

lemma rq_select_ready:
  assumes "rdq_ok s a" "rq_select (a_rq a) = Some t"
  shows "status (thrs s t) = THR_TSTATE_RUN" "t \<noteq> idle_refer_idle_thread" "thr_queued a t"
proof -
  obtain p xs where "p < RDQ_PRIORITY_MAX" "a_rq a p = t # xs"
    using rq_select_someD [OF assms(2)] by metis
  then have "p < RDQ_PRIORITY_MAX" "t \<in> set (a_rq a p)" by auto
  then show "status (thrs s t) = THR_TSTATE_RUN" "t \<noteq> idle_refer_idle_thread" "thr_queued a t"
    using assms(1) by (auto simp: rdq_ok_def ready_ok_def thr_queued_def)
qed

text \<open>Initialisation empties every list and touches no other link.\<close>

lemma fold_init_heads:
  "lnk (fold (\<lambda>i s. upd_lnk (\<lambda>h. init_list_head h (RdqHead i)) s) is s) x =
     (if x \<in> RdqHead ` set is then \<lparr>l_prev = x, l_next = x\<rparr> else lnk s x)"
  by (induction "is" arbitrary: s) (auto simp: init_list_head_def klink intro!: node_eqI)

lemma rdq_init_ready_queue_ok:
  shows "p < RDQ_PRIORITY_MAX \<Longrightarrow> is_list (lnk (rdq_init_ready_queue s)) (RdqHead p) []"
    and "x \<notin> RdqHead ` {..<RDQ_PRIORITY_MAX} \<Longrightarrow> lnk (rdq_init_ready_queue s) x = lnk s x"
  unfolding rdq_init_ready_queue_def Let_def is_list_def fold_init_heads set_upt
  by (auto simp: atLeast0LessThan)

end
