(* ===== verification/Ksched.thy ===== *)
theory Ksched
  imports Kready
begin

text \<open>
  The scheduler of \<^verbatim>\<open>kern/sched.c\<close> (with \<^verbatim>\<open>CONFIG_HAL\<close>) and the invariant of the kernel queues.
  A dispatch records the rest of \<^verbatim>\<open>sched_schedule\<close> as the frame \<open>FSched\<close> of the thread that gave up
  the processor; \<open>sched_resume\<close> is that rest, run when the thread is dispatched again.
\<close>

section \<open>Operations\<close>

definition select_next_thread :: "kst \<Rightarrow> thr outcome" where
  "select_next_thread s =
     obind (rdq_find_runnable_thread s)
       (\<lambda>nxt. case nxt of None \<Rightarrow> Ok idle_refer_idle_thread | Some t \<Rightarrow> Ok t)"

definition sched_set_ready :: "thr \<Rightarrow> kst \<Rightarrow> kst" where
  "sched_set_ready t s =
     (let (psw, s) = psw_disable_and_save_interrupt s;
          s = rdq_add_thread t s
      in psw_restore_interrupt psw s)"

definition sched_rotate_queue :: "kst \<Rightarrow> kst" where
  "sched_rotate_queue s =
     (let (psw, s) = psw_disable_and_save_interrupt s;
          s = rdq_rotate_queue s
      in psw_restore_interrupt psw s)"

text \<open>The label \<^verbatim>\<open>out\<close> of \<^verbatim>\<open>sched_schedule\<close>; \<open>ti\<close> is the thread that entered it.\<close>

definition sched_out :: "bool \<Rightarrow> thr \<Rightarrow> kst \<Rightarrow> kst" where
  "sched_out psw ti s = upd_preempt ti ti_clr_preempt_active (psw_restore_interrupt psw s)"

definition dispatch_delayed :: "u64 \<Rightarrow> bool" where
  "dispatch_delayed p = (0 < ti_refer_preempt_count p \<or> 0 < ti_refer_irq_count p)"

definition sched_schedule :: "kst \<Rightarrow> kres" where
  "sched_schedule s =
     (let (psw, s) = psw_disable_and_save_interrupt s;
          ti = current s;
          s = upd_preempt ti ti_set_preempt_active s
      in if dispatch_delayed (preempt (thrs s ti))
         then Ok (Returned 0, sched_out psw ti (upd_preempt ti ti_set_delay_dispatch s))
         else obind (select_next_thread s)
           (\<lambda>nxt. let prev = current s in
              if prev = nxt then Ok (Returned 0, sched_out psw ti s)
              else Ok (Switched, push_frame prev (FSched psw) (s\<lparr>current := nxt\<rparr>))))"

definition sched_resume :: "bool \<Rightarrow> kst \<Rightarrow> kst" where
  "sched_resume psw s = sched_out psw (current s) (set_status (current s) THR_TSTATE_RUN s)"

definition sched_delay_disptach :: "kst \<Rightarrow> kres" where
  "sched_delay_disptach s =
     (let ti = current s
      in if dispatch_delayed (preempt (thrs s ti)) then Ok (Returned 0, s)
         else if ti_check_preempt_active (preempt (thrs s ti)) \<noteq> 0 then Ok (Returned 0, s)
         else if \<not> ti_check_need_dispatch (preempt (thrs s ti)) then Ok (Returned 0, s)
         else sched_schedule (upd_preempt ti ti_clr_delay_dispatch s))"

definition sched_init :: "kst \<Rightarrow> kst" where
  "sched_init s = rdq_init_ready_queue s"

section \<open>The invariant of the kernel queues\<close>

text \<open>
  Every entry of a wait queue belongs to one waiting thread that is on no thread list, and a
  thread has at most one linked entry.
\<close>

definition wait_ok :: "kst \<Rightarrow> kabs \<Rightarrow> bool" where
  "wait_ok s a =
     (\<forall>w t d. (t, d) \<in> set (a_wq a w) \<longrightarrow>
        ent_thr s (t, d) = Some t \<and> status (thrs s t) = THR_TSTATE_WAIT \<and>
        prio (thrs s t) < RDQ_PRIORITY_MAX \<and> t \<noteq> idle_refer_idle_thread \<and> \<not> thr_queued a t \<and>
        (\<forall>w' d'. (t, d') \<in> set (a_wq a w') \<longrightarrow> d' = d))"

definition kinv :: "kst \<Rightarrow> kabs \<Rightarrow> bool" where
  "kinv s a = (rdq_ok s a \<and> wait_ok s a)"

text \<open>States that differ only in the processor's and the dispatcher's own variables.\<close>

definition sched_eq :: "kst \<Rightarrow> kst \<Rightarrow> bool" where
  "sched_eq s s' =
     (lnk s' = lnk s \<and> bitmap s' = bitmap s \<and> live s' = live s \<and> wq_reason s' = wq_reason s \<and>
      ent_thr s' = ent_thr s \<and> m_count s' = m_count s \<and> m_owner s' = m_owner s \<and>
      uptime s' = uptime s \<and> co_expire s' = co_expire s \<and> co_fn s' = co_fn s \<and>
      (\<forall>t. status (thrs s' t) = status (thrs s t) \<and> tid (thrs s' t) = tid (thrs s t) \<and>
           prio (thrs s' t) = prio (thrs s t) \<and> slice (thrs s' t) = slice (thrs s t) \<and>
           exit_code (thrs s' t) = exit_code (thrs s t)))"

lemma sched_eq_refl [simp]: "sched_eq s s"
  by (simp add: sched_eq_def)

lemma sched_eq_trans: "sched_eq s s' \<Longrightarrow> sched_eq s' s'' \<Longrightarrow> sched_eq s s''"
  by (simp add: sched_eq_def)

lemma sched_eq_upd [simp]:
  "sched_eq s (upd_preempt t f s)" "sched_eq s (push_frame t g s)"
  "sched_eq s (psw_restore_interrupt b s)" "sched_eq s (s\<lparr>current := t\<rparr>)" "sched_eq s (s\<lparr>psw_if := b\<rparr>)"
  by (simp_all add: sched_eq_def upd_defs psw_defs)

lemma sched_eqD:
  assumes "sched_eq s s'"
  shows "lnk s' = lnk s" "bitmap s' = bitmap s" "wq_reason s' = wq_reason s" "ent_thr s' = ent_thr s"
    "m_count s' = m_count s" "m_owner s' = m_owner s" "status (thrs s' t) = status (thrs s t)"
    "prio (thrs s' t) = prio (thrs s t)"
  using assms by (simp_all add: sched_eq_def)

lemma rdq_ok_cong:
  "sched_eq s s' \<Longrightarrow> rdq_ok s' a \<longleftrightarrow> rdq_ok s a"
  by (simp add: sched_eqD rdq_ok_def ready_ok_def)

lemma kinv_cong:
  "sched_eq s s' \<Longrightarrow> kinv s' a \<longleftrightarrow> kinv s a"
  by (simp add: kinv_def rdq_ok_cong wait_ok_def sched_eqD)

lemma wait_ok_mono:
  assumes W: "wait_ok s a"
    and sub: "\<And>w t d. (t, d) \<in> set (a_wq a' w) \<Longrightarrow> (t, d) \<in> set (a_wq a w) \<and> ent_thr s' (t, d) = ent_thr s (t, d) \<and>
      status (thrs s' t) = status (thrs s t) \<and> prio (thrs s' t) = prio (thrs s t) \<and>
      (thr_queued a' t \<longrightarrow> thr_queued a t)"
  shows "wait_ok s' a'"
  unfolding wait_ok_def
proof (intro allI impI)
  fix w t d assume t: "(t, d) \<in> set (a_wq a' w)"
  then have "(t, d) \<in> set (a_wq a w)" using sub by blast
  then have F: "ent_thr s (t, d) = Some t" "status (thrs s t) = THR_TSTATE_WAIT" "prio (thrs s t) < RDQ_PRIORITY_MAX"
    "t \<noteq> idle_refer_idle_thread" "\<not> thr_queued a t" "\<And>w' d'. (t, d') \<in> set (a_wq a w') \<Longrightarrow> d' = d"
    using W unfolding wait_ok_def by blast+
  moreover have "\<forall>w' d'. (t, d') \<in> set (a_wq a' w') \<longrightarrow> d' = d" using F(6) sub by blast
  ultimately show "ent_thr s' (t, d) = Some t \<and> status (thrs s' t) = THR_TSTATE_WAIT \<and>
      prio (thrs s' t) < RDQ_PRIORITY_MAX \<and> t \<noteq> idle_refer_idle_thread \<and> \<not> thr_queued a' t \<and>
      (\<forall>w' d'. (t, d') \<in> set (a_wq a' w') \<longrightarrow> d' = d)"
    using sub [OF t] by simp
qed

lemma kinv_rdq: "kinv s a \<Longrightarrow> rdq_ok s a"
  by (simp add: kinv_def)

section \<open>Dispatching\<close>

lemma select_next_thread_ok:
  assumes "rdq_ok s a"
  shows "select_next_thread s =
    Ok (case rq_select (a_rq a) of None \<Rightarrow> idle_refer_idle_thread | Some t \<Rightarrow> t)"
  using assms by (simp add: select_next_thread_def rdq_find_runnable_thread_ok split: option.splits)

text \<open>The thread the policy gives the processor to.\<close>

definition a_next :: "kabs \<Rightarrow> thr" where
  "a_next a = (case rq_select (a_rq a) of None \<Rightarrow> idle_refer_idle_thread | Some t \<Rightarrow> t)"

lemma a_next_ready:
  assumes "rdq_ok s a" "a_next a \<noteq> idle_refer_idle_thread"
  shows "thr_queued a (a_next a)" "status (thrs s (a_next a)) = THR_TSTATE_RUN"
  using assms rq_select_ready [OF assms(1)] by (auto simp: a_next_def split: option.splits)

lemma a_next_highest:
  assumes ok: "rdq_ok s a" and p: "p < RDQ_PRIORITY_MAX" and t: "t \<in> set (a_rq a p)"
  shows "a_next a \<noteq> idle_refer_idle_thread" "p \<le> prio (thrs s (a_next a))"
    "hd (a_rq a (prio (thrs s (a_next a)))) = a_next a"
proof -
  have ne: "a_rq a p \<noteq> []" using t by (cases "a_rq a p") simp_all
  then have "filter (\<lambda>p. a_rq a p \<noteq> []) (rev [0..<RDQ_PRIORITY_MAX]) \<noteq> []"
    unfolding filter_empty_conv using p by (metis atLeastLessThan_iff le0 set_rev set_upt)
  then have "rq_select (a_rq a) \<noteq> None"
    unfolding rq_select_def by (metis (no_types, lifting) list.case(2) neq_Nil_conv option.distinct(1))
  then obtain u where u: "rq_select (a_rq a) = Some u" by auto
  then obtain q xs where q: "q < RDQ_PRIORITY_MAX" "a_rq a q = u # xs"
    "\<And>r. q < r \<Longrightarrow> r < RDQ_PRIORITY_MAX \<Longrightarrow> a_rq a r = []" using rq_select_someD by metis
  have "prio (thrs s u) = q" "u \<noteq> idle_refer_idle_thread" using ok q by (auto simp: rdq_ok_def ready_ok_def)
  moreover have "p \<le> q" using q(3) [of p] p t by (metis empty_iff list.set(1) not_le)
  ultimately show "a_next a \<noteq> idle_refer_idle_thread" "p \<le> prio (thrs s (a_next a))"
    "hd (a_rq a (prio (thrs s (a_next a)))) = a_next a" using u q(2) by (simp_all add: a_next_def)
qed

lemma dispatch_delayed_flags [simp]:
  "dispatch_delayed (ti_set_preempt_active x) = dispatch_delayed x"
  "dispatch_delayed (ti_clr_preempt_active x) = dispatch_delayed x"
  "dispatch_delayed (ti_set_delay_dispatch x) = dispatch_delayed x"
  "dispatch_delayed (ti_clr_delay_dispatch x) = dispatch_delayed x"
proof -
  have "ti_refer_pre_count (ti_set_preempt_active x) k = ti_refer_pre_count x k"
    "ti_refer_pre_count (ti_clr_preempt_active x) k = ti_refer_pre_count x k"
    "ti_refer_pre_count (ti_set_delay_dispatch x) k = ti_refer_pre_count x k"
    "ti_refer_pre_count (ti_clr_delay_dispatch x) k = ti_refer_pre_count x k" if "k \<le> 54" for k
    by (rule bit_word_eqI; use that in \<open>auto simp: refer_bit ti_clr_preempt_active_def
        ti_set_delay_dispatch_def ti_clr_delay_dispatch_def ti_set_preempt_active_def bit_simps ti_bits\<close>)+
  then show "dispatch_delayed (ti_set_preempt_active x) = dispatch_delayed x"
    "dispatch_delayed (ti_clr_preempt_active x) = dispatch_delayed x"
    "dispatch_delayed (ti_set_delay_dispatch x) = dispatch_delayed x"
    "dispatch_delayed (ti_clr_delay_dispatch x) = dispatch_delayed x"
    by (simp_all add: dispatch_delayed_def ti_refer_preempt_count_def ti_refer_irq_count_def)
qed

lemma sched_schedule_unfold:
  assumes ok: "rdq_ok s a"
  shows "sched_schedule s =
    (let ti = current s; s1 = upd_preempt ti ti_set_preempt_active (s\<lparr>psw_if := False\<rparr>)
     in if dispatch_delayed (preempt (thrs s ti))
        then Ok (Returned 0, sched_out (psw_if s) ti (upd_preempt ti ti_set_delay_dispatch s1))
        else if a_next a = ti then Ok (Returned 0, sched_out (psw_if s) ti s1)
        else Ok (Switched, push_frame ti (FSched (psw_if s)) (s1\<lparr>current := a_next a\<rparr>)))"
proof -
  let ?s1 = "upd_preempt (current s) ti_set_preempt_active (s\<lparr>psw_if := False\<rparr>)"
  have "rdq_ok ?s1 a" using ok rdq_ok_cong sched_eq_trans sched_eq_upd by metis
  then have "select_next_thread ?s1 = Ok (a_next a)" by (simp add: select_next_thread_ok a_next_def)
  then show ?thesis
    by (simp add: sched_schedule_def psw_disable_and_save_interrupt_def Let_def upd_preempt_def
        eq_commute [of "current s"])
qed

lemma sched_out_eq [simp]: "sched_eq s (sched_out b t s)"
  unfolding sched_out_def using sched_eq_trans sched_eq_upd by metis

lemma sched_out_sel [simp]:
  "current (sched_out b t s) = current s" "psw_if (sched_out b t s) = b"
  "kstack (thrs (sched_out b t s) u) = kstack (thrs s u)"
  by (simp_all add: sched_out_def upd_preempt_def)

lemma need_dispatch_set [simp]:
  "ti_check_need_dispatch (ti_clr_preempt_active (ti_set_delay_dispatch x))"
  by (simp add: need_dispatch_bit ti_clr_preempt_active_def ti_set_delay_dispatch_def
      bit_simps ti_bits)

text \<open>
  The two outcomes of a call: the thread keeps the processor (its dispatch is not needed or has been
  postponed), or another thread gets it.
\<close>

definition stay :: "kst \<Rightarrow> kst" where
  "stay s =
     (let ti = current s; s1 = upd_preempt ti ti_set_preempt_active (s\<lparr>psw_if := False\<rparr>)
      in sched_out (psw_if s) ti
           (if dispatch_delayed (preempt (thrs s ti)) then upd_preempt ti ti_set_delay_dispatch s1 else s1))"

definition switch_to :: "thr \<Rightarrow> kst \<Rightarrow> kst" where
  "switch_to n s =
     (let ti = current s; s1 = upd_preempt ti ti_set_preempt_active (s\<lparr>psw_if := False\<rparr>)
      in push_frame ti (FSched (psw_if s)) (s1\<lparr>current := n\<rparr>))"

lemma sched_schedule_ok:
  assumes "rdq_ok s a"
  shows "sched_schedule s =
    Ok (if dispatch_delayed (preempt (thrs s (current s))) \<or> a_next a = current s
        then (Returned 0, stay s) else (Switched, switch_to (a_next a) s))"
  using sched_schedule_unfold [OF assms] by (simp add: Let_def stay_def switch_to_def)

lemma stay_eq [simp]: "sched_eq s (stay s)"
proof -
  let ?s1 = "upd_preempt (current s) ti_set_preempt_active (s\<lparr>psw_if := False\<rparr>)"
  have 1: "sched_eq s ?s1" by (rule sched_eq_trans [OF sched_eq_upd(5) sched_eq_upd(1)])
  have 2: "sched_eq s (upd_preempt (current s) ti_set_delay_dispatch ?s1)"
    by (rule sched_eq_trans [OF 1 sched_eq_upd(1)])
  show ?thesis unfolding stay_def Let_def
    by (rule sched_eq_trans [OF _ sched_out_eq]) (simp add: 1 2)
qed

lemma switch_to_eq [simp]: "sched_eq s (switch_to n s)"
  unfolding switch_to_def Let_def using sched_eq_trans sched_eq_upd by metis

lemma stay_sel [simp]:
  "current (stay s) = current s" "psw_if (stay s) = psw_if s"
  "kstack (thrs (stay s) u) = kstack (thrs s u)"
  by (simp_all add: stay_def Let_def upd_preempt_def)

lemma switch_to_sel [simp]:
  "current (switch_to n s) = n" "psw_if (switch_to n s) = False"
  "kstack (thrs (switch_to n s) u) =
     kstack (thrs s u) @ (if u = current s then [FSched (psw_if s)] else [])"
  by (simp_all add: switch_to_def Let_def upd_preempt_def push_frame_def)

lemma stay_need_dispatch:
  "dispatch_delayed (preempt (thrs s (current s))) \<Longrightarrow>
     ti_check_need_dispatch (preempt (thrs (stay s) (current s)))"
  by (simp add: stay_def Let_def upd_preempt_def sched_out_def)

lemma stay_preempt_delayed:
  "dispatch_delayed (preempt (thrs (stay s) u)) = dispatch_delayed (preempt (thrs s u))"
  by (simp add: stay_def Let_def upd_preempt_def sched_out_def)

end
