(* ===== verification/Kwqueue.thy ===== *)
theory Kwqueue
  imports Ksched "HOL-Library.While_Combinator"
begin

text \<open>
  The wait queues of \<^verbatim>\<open>kern/wqueue.c\<close>.  A waiting thread links an entry that lives on its own stack;
  the entry is named by the thread and a depth, because \<^verbatim>\<open>wque_wait_on_event_with_mutex\<close> keeps its
  entry alive while \<^verbatim>\<open>mutex_hold\<close> may use another one.  The part of \<^verbatim>\<open>wque_wait_on_queue\<close> and of
  \<^verbatim>\<open>wque_wakeup\<close> after the dispatch is a function of its own, run directly when the dispatcher comes
  back and from the frame when the thread is dispatched later.
\<close>

section \<open>Operations\<close>

definition wque_add_thread :: "wqid \<Rightarrow> thr \<times> nat \<Rightarrow> thr \<Rightarrow> kst \<Rightarrow> kst" where
  "wque_add_thread wq ep t s =
     (let (psw, s) = psw_disable_and_save_interrupt s;
          s = upd_lnk (\<lambda>h. list_del h (ThrLink t)) s;
          s = upd_lnk (\<lambda>h. init_list_node h (ent_link ep)) s;
          s = s\<lparr>ent_thr := (ent_thr s)(ep := Some t)\<rparr>;
          s = upd_lnk (\<lambda>h. list_add h (WqHead wq) (ent_link ep)) s
      in psw_restore_interrupt psw s)"

definition wque_remove_entry :: "wqid \<Rightarrow> thr \<times> nat \<Rightarrow> kst \<Rightarrow> kst" where
  "wque_remove_entry wq ep s =
     (let (psw, s) = psw_disable_and_save_interrupt s;
          s = upd_lnk (\<lambda>h. list_del h (ent_link ep)) s;
          s = upd_lnk (\<lambda>h. init_list_node h (ent_link ep)) s;
          s = s\<lparr>ent_thr := (ent_thr s)(ep := None)\<rparr>
      in psw_restore_interrupt psw s)"

definition wque_init_wait_queue :: "wqid \<Rightarrow> kst \<Rightarrow> kst" where
  "wque_init_wait_queue wq s =
     (let (psw, s) = psw_disable_and_save_interrupt s;
          s = upd_lnk (\<lambda>h. init_list_head h (WqHead wq)) s;
          s = s\<lparr>wq_reason := (wq_reason s)(wq := WQUE_REASON_WAKEUP)\<rparr>
      in psw_restore_interrupt psw s)"

text \<open>The end of \<^verbatim>\<open>wque_wait_on_queue\<close>, after \<^verbatim>\<open>sched_schedule\<close>.\<close>

definition wque_wait_resume :: "wqid \<Rightarrow> nat \<Rightarrow> bool \<Rightarrow> kst \<Rightarrow> u32 \<times> kst" where
  "wque_wait_resume wq d psw s =
     (let s = wque_remove_entry wq (current s, d) s;
          reason = wq_reason s wq
      in (reason, psw_restore_interrupt psw s))"

definition wque_wait_on_queue :: "wqid \<Rightarrow> nat \<Rightarrow> kst \<Rightarrow> kres" where
  "wque_wait_on_queue wq d s =
     (let t = current s; ep = (t, d);
          s = upd_lnk (\<lambda>h. init_list_node h (ent_link ep)) s;
          (psw, s) = psw_disable_and_save_interrupt s;
          s = rdq_remove_thread t s;
          s = wque_add_thread wq ep t s
      in case ent_thr s ep of
           None \<Rightarrow> Stop Kfault
         | Some u \<Rightarrow>
             obind (sched_schedule (set_status u THR_TSTATE_WAIT s))
               (\<lambda>(r, s). case r of
                   Switched \<Rightarrow> Ok (Switched, push_frame t (FWait wq d psw) s)
                 | Returned _ \<Rightarrow>
                     (case wque_wait_resume wq d psw s of (reason, s) \<Rightarrow> Ok (Returned (uint reason), s))))"

text \<open>One turn of the loop of \<^verbatim>\<open>wque_wakeup\<close>.\<close>

definition wakeup_one :: "wqid \<Rightarrow> kst \<Rightarrow> kst outcome" where
  "wakeup_one wq s =
     (case list_get_top (lnk s) (WqHead wq) of
        (EntLink t d, h) \<Rightarrow>
          (let ep = (t, d);
               s = upd_lnk (\<lambda>_. h) s;
               s = upd_lnk (\<lambda>h. list_del h (ent_link ep)) s;
               s = upd_lnk (\<lambda>h. init_list_node h (ent_link ep)) s
           in case ent_thr s ep of
                None \<Rightarrow> Stop Kfault
              | Some u \<Rightarrow>
                  (let s = set_status u THR_TSTATE_RUN s;
                       s = sched_set_ready u s
                   in Ok (s\<lparr>ent_thr := (ent_thr s)(ep := None)\<rparr>)))
      | _ \<Rightarrow> Stop Kfault)"

definition wakeup_loop :: "wqid \<Rightarrow> kst \<Rightarrow> kst outcome" where
  "wakeup_loop wq s =
     (case while_option
             (\<lambda>r. case r of Ok s \<Rightarrow> \<not> list_is_empty (lnk s) (WqHead wq) | Stop _ \<Rightarrow> False)
             (\<lambda>r. obind r (wakeup_one wq)) (Ok s) of
        None \<Rightarrow> Stop Kblocked
      | Some r \<Rightarrow> r)"

definition wque_wakeup :: "wqid \<Rightarrow> u32 \<Rightarrow> kst \<Rightarrow> kres" where
  "wque_wakeup wq reason s =
     (let t = current s;
          (psw, s) = psw_disable_and_save_interrupt s
      in if list_is_empty (lnk s) (WqHead wq) then Ok (Returned 0, psw_restore_interrupt psw s)
         else obind (wakeup_loop wq s)
           (\<lambda>s. obind (sched_schedule (s\<lparr>wq_reason := (wq_reason s)(wq := reason)\<rparr>))
             (\<lambda>(r, s). case r of
                 Switched \<Rightarrow> Ok (Switched, push_frame t (FWakeup psw) s)
               | Returned _ \<Rightarrow> Ok (Returned 0, psw_restore_interrupt psw s))))"

definition is_wque_empty :: "wqid \<Rightarrow> kst \<Rightarrow> bool" where
  "is_wque_empty wq s = list_is_empty (lnk s) (WqHead wq)"

section \<open>Waiting refines moving the thread from the ready queue to the wait queue\<close>

lemma sched_set_ready_eq: "sched_set_ready t s = rdq_add_thread t s"
  by (simp add: sched_set_ready_def rdq_add_thread_def Let_def psw_defs upd_lnk_def)

definition a_wait :: "nat \<Rightarrow> wqid \<Rightarrow> thr \<times> nat \<Rightarrow> kabs \<Rightarrow> kabs" where
  "a_wait p wq ep a = (a_remove p (fst ep) a)\<lparr>a_wq := (a_wq a)(wq := a_wq a wq @ [ep])\<rparr>"

definition a_unwait :: "wqid \<Rightarrow> thr \<times> nat \<Rightarrow> kabs \<Rightarrow> kabs" where
  "a_unwait wq ep a = a\<lparr>a_wq := (a_wq a)(wq := remove1 ep (a_wq a wq))\<rparr>"

text \<open>Waking: every entry's thread goes to the end of the list of its priority, in queue order.\<close>

definition a_wake :: "(thr \<Rightarrow> nat) \<Rightarrow> wqid \<Rightarrow> kabs \<Rightarrow> kabs" where
  "a_wake pr wq a =
     a\<lparr>a_rq := (\<lambda>p. a_rq a p @ filter (\<lambda>t. pr t = p) (map fst (a_wq a wq))),
       a_wq := (a_wq a)(wq := [])\<rparr>"

text \<open>What the queue operations never touch.\<close>

definition mid_eq :: "kst \<Rightarrow> kst \<Rightarrow> bool" where
  "mid_eq s s' =
     (live s' = live s \<and> m_count s' = m_count s \<and> m_owner s' = m_owner s \<and>
      uptime s' = uptime s \<and> co_expire s' = co_expire s \<and> co_fn s' = co_fn s \<and>
      (\<forall>t. tid (thrs s' t) = tid (thrs s t) \<and> prio (thrs s' t) = prio (thrs s t) \<and>
           slice (thrs s' t) = slice (thrs s t) \<and> exit_code (thrs s' t) = exit_code (thrs s t)))"

definition core_eq :: "kst \<Rightarrow> kst \<Rightarrow> bool" where
  "core_eq s s' =
     (mid_eq s s' \<and> current s' = current s \<and> psw_if s' = psw_if s \<and>
      (\<forall>t. kstack (thrs s' t) = kstack (thrs s t) \<and> preempt (thrs s' t) = preempt (thrs s t)))"

lemma mid_eq_refl [simp]: "mid_eq s s"
  by (simp add: mid_eq_def)

lemma mid_eq_trans: "mid_eq s s' \<Longrightarrow> mid_eq s' s'' \<Longrightarrow> mid_eq s s''"
  by (simp add: mid_eq_def)

lemma core_eq_refl [simp]: "core_eq s s"
  by (simp add: core_eq_def)

lemma core_eq_trans: "core_eq s s' \<Longrightarrow> core_eq s' s'' \<Longrightarrow> core_eq s s''"
  using mid_eq_trans by (auto simp: core_eq_def)

lemma sched_eq_mid: "sched_eq s s' \<Longrightarrow> mid_eq s s'"
  by (simp add: sched_eq_def mid_eq_def)

lemma core_eq_mid: "core_eq s s' \<Longrightarrow> mid_eq s s'"
  by (simp add: core_eq_def)

lemma mid_eqD:
  assumes "mid_eq s s'"
  shows "m_count s' = m_count s" "m_owner s' = m_owner s" "prio (thrs s' t) = prio (thrs s t)"
    "tid (thrs s' t) = tid (thrs s t)" "uptime s' = uptime s" "co_expire s' = co_expire s" "co_fn s' = co_fn s"
  using assms by (simp_all add: mid_eq_def)

lemma thr_queued_a_remove:
  assumes "links_ok h a" "p < RDQ_PRIORITY_MAX" "t \<in> set (a_rq a p)"
  shows "thr_queued (a_remove p t a) u \<longleftrightarrow> thr_queued a u \<and> u \<noteq> t"
proof -
  have d: "distinct (a_rq a p)" by (rule links_ok_distinct(1) [OF assms(1,2)])
  have "q = p" if "q < RDQ_PRIORITY_MAX" "t \<in> set (a_rq a q)" for q
    by (rule links_ok_apart(1) [OF assms(1) that(1) assms(2) that(2) assms(3)])
  moreover have "t \<notin> set (a_reap a)" by (rule links_ok_apart(2) [OF assms])
  moreover have "u \<in> set (a_rq (a_remove p t a) q) \<longleftrightarrow> u \<in> set (a_rq a q) \<and> (q = p \<longrightarrow> u \<noteq> t)" for q
    using d by (auto simp: a_remove_def)
  moreover have "a_reap (a_remove p t a) = a_reap a" by (simp add: a_remove_def)
  ultimately show ?thesis unfolding thr_queued_def by metis
qed

lemma a_remove_sel [simp]:
  "a_wq (a_remove p t a) = a_wq a" "a_reap (a_remove p t a) = a_reap a" "a_co (a_remove p t a) = a_co a"
  by (simp_all add: a_remove_def)

text \<open>The state in which the dispatcher is called by a thread that goes to sleep.\<close>

definition wait_pre :: "wqid \<Rightarrow> nat \<Rightarrow> kst \<Rightarrow> kst" where
  "wait_pre wq d s =
     (let t = current s;
          s = upd_lnk (\<lambda>h. init_list_node h (EntLink t d)) s
      in set_status t THR_TSTATE_WAIT
           (wque_add_thread wq (t, d) t (rdq_remove_thread t (s\<lparr>psw_if := False\<rparr>))))"

lemma wque_add_thread_sel [simp]:
  "lnk (wque_add_thread wq ep t s) =
     list_add (init_list_node (list_del (lnk s) (ThrLink t)) (ent_link ep)) (WqHead wq) (ent_link ep)"
  "bitmap (wque_add_thread wq ep t s) = bitmap s" "thrs (wque_add_thread wq ep t s) = thrs s"
  "live (wque_add_thread wq ep t s) = live s" "current (wque_add_thread wq ep t s) = current s"
  "psw_if (wque_add_thread wq ep t s) = psw_if s" "wq_reason (wque_add_thread wq ep t s) = wq_reason s"
  "ent_thr (wque_add_thread wq ep t s) = (ent_thr s)(ep := Some t)"
  "m_count (wque_add_thread wq ep t s) = m_count s" "m_owner (wque_add_thread wq ep t s) = m_owner s"
  "uptime (wque_add_thread wq ep t s) = uptime s" "co_expire (wque_add_thread wq ep t s) = co_expire s"
  "co_fn (wque_add_thread wq ep t s) = co_fn s"
  by (simp_all add: wque_add_thread_def Let_def psw_defs upd_lnk_def)

lemma wque_remove_entry_sel [simp]:
  "lnk (wque_remove_entry wq ep s) = init_list_node (list_del (lnk s) (ent_link ep)) (ent_link ep)"
  "bitmap (wque_remove_entry wq ep s) = bitmap s" "thrs (wque_remove_entry wq ep s) = thrs s"
  "live (wque_remove_entry wq ep s) = live s" "current (wque_remove_entry wq ep s) = current s"
  "psw_if (wque_remove_entry wq ep s) = psw_if s" "wq_reason (wque_remove_entry wq ep s) = wq_reason s"
  "ent_thr (wque_remove_entry wq ep s) = (ent_thr s)(ep := None)"
  "m_count (wque_remove_entry wq ep s) = m_count s" "m_owner (wque_remove_entry wq ep s) = m_owner s"
  "uptime (wque_remove_entry wq ep s) = uptime s" "co_expire (wque_remove_entry wq ep s) = co_expire s"
  "co_fn (wque_remove_entry wq ep s) = co_fn s"
  by (simp_all add: wque_remove_entry_def Let_def psw_defs upd_lnk_def)

lemma wque_wait_on_queue_unfold:
  "wque_wait_on_queue wq d s =
     obind (sched_schedule (wait_pre wq d s))
       (\<lambda>(r, s'). case r of
           Switched \<Rightarrow> Ok (Switched, push_frame (current s) (FWait wq d (psw_if s)) s')
         | Returned _ \<Rightarrow>
             (case wque_wait_resume wq d (psw_if s) s' of (reason, s'') \<Rightarrow> Ok (Returned (uint reason), s'')))"
  by (simp add: wque_wait_on_queue_def wait_pre_def Let_def psw_disable_and_save_interrupt_def
      cong: ret.case_cong)

lemma set_status_sel [simp]:
  "lnk (set_status t x s) = lnk s" "bitmap (set_status t x s) = bitmap s"
  "live (set_status t x s) = live s" "current (set_status t x s) = current s"
  "psw_if (set_status t x s) = psw_if s" "wq_reason (set_status t x s) = wq_reason s"
  "ent_thr (set_status t x s) = ent_thr s" "m_count (set_status t x s) = m_count s"
  "m_owner (set_status t x s) = m_owner s" "uptime (set_status t x s) = uptime s"
  "co_expire (set_status t x s) = co_expire s" "co_fn (set_status t x s) = co_fn s"
  "status (thrs (set_status t x s) u) = (if u = t then x else status (thrs s u))"
  "tid (thrs (set_status t x s) u) = tid (thrs s u)" "prio (thrs (set_status t x s) u) = prio (thrs s u)"
  "slice (thrs (set_status t x s) u) = slice (thrs s u)"
  "exit_code (thrs (set_status t x s) u) = exit_code (thrs s u)"
  "preempt (thrs (set_status t x s) u) = preempt (thrs s u)"
  "kstack (thrs (set_status t x s) u) = kstack (thrs s u)"
  by (simp_all add: set_status_def)

lemma wait_pre_kinv:
  assumes K: "kinv s a" and p: "p < RDQ_PRIORITY_MAX" and t: "current s \<in> set (a_rq a p)"
  shows "kinv (wait_pre wq d s) (a_wait p wq (current s, d) a)"
proof -
  let ?t = "current s" and ?a1 = "a_remove p (current s) a"
  let ?h1 = "list_del (lnk s) (ThrLink ?t)"
  have L: "links_ok (lnk s) a" using K by (simp add: kinv_def rdq_ok_def)
  have q: "thr_queued a ?t" using p t by (auto simp: thr_queued_def)
  have R1: "rdq_ok (rdq_remove_thread ?t s) ?a1" by (rule rdq_ok_remove [OF kinv_rdq [OF K] p t])
  then have L1: "links_ok ?h1 ?a1" and B1: "bitmap_ok (bitmap (rdq_remove_thread ?t s)) (a_rq ?a1)"
    and Y1: "ready_ok (thrs s) (a_rq ?a1)" by (simp_all add: rdq_ok_def)
  have nq: "\<not> thr_queued ?a1 ?t" using thr_queued_a_remove [OF L p t] by simp
  have w: "(?t, x) \<notin> set (a_wq a v)" for x v using K q by (auto simp: kinv_def wait_ok_def)
  have w1: "ent_link (?t, d) \<notin> used all_heads (a_lists a)" "ent_link (?t, d) \<notin> used all_heads (a_lists ?a1)"
    unfolding used_iff using w by (auto simp: a_remove_def)
  have n0: "init_list_node (lnk s) (EntLink ?t d) = lnk s"
    using w1(1) by (intro init_list_node_unlinked links_ok_unlinked [OF L]) simp_all
  have n1: "list_del ?h1 (ThrLink ?t) = ?h1"
    by (intro list_del_unlinked links_ok_unlinked [OF L1]) (simp_all add: used_iff nq)
  have n2: "init_list_node ?h1 (EntLink ?t d) = ?h1"
    using w1(2) by (intro init_list_node_unlinked links_ok_unlinked [OF L1]) simp_all
  have lnk: "lnk (wait_pre wq d s) = list_add ?h1 (WqHead wq) (ent_link (?t, d))"
    by (simp add: wait_pre_def Let_def n0 n1 n2)
  have bm: "bitmap (wait_pre wq d s) = bitmap (rdq_remove_thread ?t s)"
    by (simp add: wait_pre_def Let_def n0)
  have th: "thrs (wait_pre wq d s) = (thrs s)(?t := (thrs s ?t)\<lparr>status := THR_TSTATE_WAIT\<rparr>)"
    by (simp add: wait_pre_def Let_def set_status_def)
  have rq: "a_rq (a_wait p wq (?t, d) a) = a_rq ?a1" by (simp add: a_wait_def)
  have "links_ok (lnk (wait_pre wq d s)) (a_wait p wq (?t, d) a)"
    unfolding lnk by (rule links_ok_add [OF L1 _ w1(2)])
      (use a_lists_upd(2) [of ?a1 wq "a_wq a wq @ [(?t, d)]"] in \<open>simp_all add: a_wait_def\<close>)
  moreover have "ready_ok (thrs (wait_pre wq d s)) (a_rq (a_wait p wq (?t, d) a))"
    using Y1 nq unfolding rq th by (auto simp: ready_ok_def thr_queued_def)
  moreover have "wait_ok (wait_pre wq d s) (a_wait p wq (?t, d) a)"
  proof -
    have tq: "thr_queued (a_wait p wq (?t, d) a) u \<longleftrightarrow> thr_queued a u \<and> u \<noteq> ?t" for u
      using thr_queued_a_remove [OF L p t, of u] by (simp add: thr_queued_def a_wait_def a_remove_def)
    have en: "ent_thr (wait_pre wq d s) = (ent_thr s)((?t, d) := Some ?t)"
      by (simp add: wait_pre_def Let_def)
    have pt: "prio (thrs s ?t) = p" "?t \<noteq> idle_refer_idle_thread"
      using K p t by (auto simp: kinv_def rdq_ok_def ready_ok_def)
    have W: "ent_thr s (u, e) = Some u" "status (thrs s u) = THR_TSTATE_WAIT"
      "prio (thrs s u) < RDQ_PRIORITY_MAX" "u \<noteq> idle_refer_idle_thread" "\<not> thr_queued a u" "u \<noteq> ?t"
      "\<And>v' e'. (u, e') \<in> set (a_wq a v') \<Longrightarrow> e' = e"
      if "(u, e) \<in> set (a_wq a v)" for u e v
      using K that w [of e v] by (auto simp: kinv_def wait_ok_def)
    have mem: "(u, e) \<in> set (a_wq (a_wait p wq (?t, d) a) v) \<longleftrightarrow>
        (u, e) \<in> set (a_wq a v) \<or> v = wq \<and> u = ?t \<and> e = d" for u e v
      by (auto simp: a_wait_def)
    show ?thesis unfolding wait_ok_def mem tq en th
      using W w pt p by (auto simp: a_wait_def)
  qed
  ultimately show ?thesis using B1 by (simp add: kinv_def rdq_ok_def bm rq)
qed

lemma wait_pre_sel [simp]:
  "current (wait_pre wq d s) = current s" "psw_if (wait_pre wq d s) = False"
  "wq_reason (wait_pre wq d s) = wq_reason s"
  "kstack (thrs (wait_pre wq d s) t) = kstack (thrs s t)"
  "preempt (thrs (wait_pre wq d s) t) = preempt (thrs s t)"
  by (simp_all add: wait_pre_def Let_def)

lemma wait_pre_mid: "mid_eq s (wait_pre wq d s)"
  by (simp add: mid_eq_def wait_pre_def Let_def)

lemma a_next_waiting:
  assumes K: "kinv s a" and p: "p < RDQ_PRIORITY_MAX" and t: "t \<in> set (a_rq a p)"
  shows "a_next (a_wait p wq (t, d) a) \<noteq> t"
proof
  assume eq: "a_next (a_wait p wq (t, d) a) = t"
  have "t \<noteq> idle_refer_idle_thread" using K p t by (auto simp: kinv_def rdq_ok_def ready_ok_def)
  then have "rq_select (a_rq (a_remove p t a)) = Some t"
    using eq by (auto simp: a_next_def a_wait_def split: option.splits)
  then obtain q xs where "q < RDQ_PRIORITY_MAX" "a_rq (a_remove p t a) q = t # xs"
    using rq_select_someD by metis
  then have "thr_queued (a_remove p t a) t" by (force simp: thr_queued_def)
  moreover have "links_ok (lnk s) a" using K by (simp add: kinv_def rdq_ok_def)
  ultimately show False using thr_queued_a_remove [OF _ p t] by metis
qed

definition wait_switch :: "kabs \<Rightarrow> wqid \<Rightarrow> nat \<Rightarrow> kst \<Rightarrow> kst" where
  "wait_switch a wq d s =
     push_frame (current s) (FWait wq d (psw_if s)) (switch_to (a_next a) (wait_pre wq d s))"

lemma wque_wait_on_queue_ok:
  assumes K: "kinv s a" and p: "p < RDQ_PRIORITY_MAX" and t: "current s \<in> set (a_rq a p)"
    and nd: "\<not> dispatch_delayed (preempt (thrs s (current s)))"
  shows "wque_wait_on_queue wq d s =
      Ok (Switched, wait_switch (a_wait p wq (current s, d) a) wq d s)"
    "kinv (wait_switch (a_wait p wq (current s, d) a) wq d s) (a_wait p wq (current s, d) a)"
proof -
  let ?a = "a_wait p wq (current s, d) a"
  note K1 = wait_pre_kinv [OF K p t, of wq d]
  have "sched_schedule (wait_pre wq d s) = Ok (Switched, switch_to (a_next ?a) (wait_pre wq d s))"
    using sched_schedule_ok [OF kinv_rdq [OF K1]] nd a_next_waiting [OF K p t] by simp
  then show "wque_wait_on_queue wq d s = Ok (Switched, wait_switch ?a wq d s)"
    by (simp add: wque_wait_on_queue_unfold wait_switch_def)
  show "kinv (wait_switch ?a wq d s) ?a"
    unfolding wait_switch_def using K1 kinv_cong switch_to_eq sched_eq_upd(2) by metis
qed

lemma push_frame_sel [simp]:
  "current (push_frame t f s) = current s" "psw_if (push_frame t f s) = psw_if s"
  "kstack (thrs (push_frame t f s) u) = kstack (thrs s u) @ (if u = t then [f] else [])"
  "preempt (thrs (push_frame t f s) u) = preempt (thrs s u)"
  by (simp_all add: push_frame_def)

lemma wait_switch_sel [simp]:
  "current (wait_switch a wq d s) = a_next a" "psw_if (wait_switch a wq d s) = False"
  "kstack (thrs (wait_switch a wq d s) u) = kstack (thrs s u) @
     (if u = current s then [FSched False, FWait wq d (psw_if s)] else [])"
  by (simp_all add: wait_switch_def)

lemma wait_switch_mid: "mid_eq s (wait_switch a wq d s)" "wq_reason (wait_switch a wq d s) = wq_reason s"
proof -
  have e: "sched_eq (wait_pre wq d s) (wait_switch a wq d s)"
    unfolding wait_switch_def using switch_to_eq sched_eq_upd(2) sched_eq_trans by metis
  show "mid_eq s (wait_switch a wq d s)" using wait_pre_mid sched_eq_mid [OF e] mid_eq_trans by metis
  show "wq_reason (wait_switch a wq d s) = wq_reason s" using sched_eqD(3) [OF e] by simp
qed

text \<open>When the thread runs again its entry is unlinked already, or is unlinked now.\<close>

lemma kinv_unwait:
  assumes K: "kinv s a" and no: "\<And>v. ep \<in> set (a_wq a v) \<Longrightarrow> v = wq"
  shows "kinv (wque_remove_entry wq ep s) (a_unwait wq ep a)"
proof -
  have L: "links_ok (lnk s) a" using K by (simp add: kinv_def rdq_ok_def)
  have L': "links_ok (list_del (lnk s) (ent_link ep)) (a_unwait wq ep a)"
  proof (cases "ep \<in> set (a_wq a wq)")
    case True
    then show ?thesis
      by (intro links_ok_del [OF L, of "WqHead wq"])
        (simp_all add: a_unwait_def a_lists_upd map_remove1_inj)
  next
    case False
    then have "unlinked (lnk s) (ent_link ep)"
      using no by (intro links_ok_unlinked [OF L]) (auto simp: used_iff)
    moreover have "a_unwait wq ep a = a" using False by (simp add: a_unwait_def remove1_idem)
    ultimately show ?thesis using L by (simp add: list_del_unlinked)
  qed
  have "init_list_node (list_del (lnk s) (ent_link ep)) (ent_link ep) = list_del (lnk s) (ent_link ep)"
    by (rule init_list_node_unlinked) simp
  then have "rdq_ok (wque_remove_entry wq ep s) (a_unwait wq ep a)"
    using K L' by (simp add: kinv_def rdq_ok_def a_unwait_def)
  moreover have "wait_ok (wque_remove_entry wq ep s) (a_unwait wq ep a)"
  proof -
    have d: "distinct (a_wq a wq)" by (rule links_ok_distinct(2) [OF L])
    have "e \<in> set (a_wq (a_unwait wq ep a) v) \<longleftrightarrow> e \<in> set (a_wq a v) \<and> e \<noteq> ep" for e v
      using d no by (auto simp: a_unwait_def)
    moreover have "thr_queued (a_unwait wq ep a) u = thr_queued a u" for u
      by (simp add: thr_queued_def a_unwait_def)
    moreover have "wait_ok s a" using K by (simp add: kinv_def)
    ultimately show ?thesis by (elim wait_ok_mono) auto
  qed
  ultimately show ?thesis by (simp add: kinv_def)
qed

section \<open>Waking refines moving every entry to the ready queue\<close>

definition woken :: "thr \<Rightarrow> nat \<Rightarrow> kst \<Rightarrow> kst" where
  "woken t d s =
     (let s = set_status t THR_TSTATE_RUN (upd_lnk (\<lambda>h. list_del h (EntLink t d)) s);
          s = rdq_add_thread t s
      in s\<lparr>ent_thr := (ent_thr s)((t, d) := None)\<rparr>)"

lemma kinv_entry:
  assumes "kinv s a" "(t, d) \<in> set (a_wq a w)"
  shows "ent_thr s (t, d) = Some t" "status (thrs s t) = THR_TSTATE_WAIT" "prio (thrs s t) < RDQ_PRIORITY_MAX"
    "t \<noteq> idle_refer_idle_thread" "\<not> thr_queued a t" "(t, d') \<in> set (a_wq a w') \<Longrightarrow> d' = d"
  using assms unfolding kinv_def wait_ok_def by blast+

lemma wakeup_one_eq:
  assumes K: "kinv s a" and q: "a_wq a w = (t, d) # es"
  shows "wakeup_one w s = Ok (woken t d s)"
proof -
  have L: "links_ok (lnk s) a" using K by (simp add: kinv_def rdq_ok_def)
  have top: "list_ref_top (lnk s) (WqHead w) = EntLink t d"
    using lq.rep_pop(1) [OF links_ok_rings [OF L], of "WqHead w"] q by simp
  have "unlinked (list_del (lnk s) (EntLink t d)) (EntLink t d)" by simp
  then have n: "list_del (list_del (lnk s) (EntLink t d)) (EntLink t d) = list_del (lnk s) (EntLink t d)"
    "init_list_node (list_del (lnk s) (EntLink t d)) (EntLink t d) = list_del (lnk s) (EntLink t d)"
    by (simp_all only: list_del_unlinked init_list_node_unlinked)
  have e: "ent_thr s (t, d) = Some t" using kinv_entry(1) [OF K, of t d w] q by simp
  show ?thesis
    by (simp add: wakeup_one_def woken_def list_get_top_def top Let_def upd_lnk_def n e sched_set_ready_eq)
qed

lemma woken_kinv:
  assumes K: "kinv s a" and q: "a_wq a w = (t, d) # es"
  shows "kinv (woken t d s) (a_add (prio (thrs s t)) t (a\<lparr>a_wq := (a_wq a)(w := es)\<rparr>))"
proof -
  let ?a0 = "a\<lparr>a_wq := (a_wq a)(w := es)\<rparr>" and ?p = "prio (thrs s t)"
  let ?s1 = "set_status t THR_TSTATE_RUN (upd_lnk (\<lambda>h. list_del h (EntLink t d)) s)"
  have L: "links_ok (lnk s) a" using K by (simp add: kinv_def rdq_ok_def)
  have td: "(t, d) \<in> set (a_wq a w)" using q by simp
  note E = kinv_entry [OF K td]
  have tq: "thr_queued ?a0 u = thr_queued a u" for u by (simp add: thr_queued_def)
  have L0: "links_ok (list_del (lnk s) (EntLink t d)) ?a0"
    by (rule links_ok_del [OF L, of "WqHead w"]) (simp_all add: q a_lists_upd)
  have "rdq_ok ?s1 ?a0"
    using K L0 E(5) by (auto simp: kinv_def rdq_ok_def ready_ok_def thr_queued_def)
  then have "rdq_ok (rdq_add_thread t ?s1) (a_add ?p t ?a0)"
    by (rule rdq_ok_add) (use E tq in simp_all)
  then have "rdq_ok (woken t d s) (a_add ?p t ?a0)" by (simp add: woken_def Let_def rdq_ok_def)
  moreover have "wait_ok (woken t d s) (a_add ?p t ?a0)"
  proof (rule wait_ok_mono)
    show "wait_ok s a" using K by (simp add: kinv_def)
    fix v u e assume ue: "(u, e) \<in> set (a_wq (a_add ?p t ?a0) v)"
    have d: "distinct (a_wq a w)" by (rule links_ok_distinct(2) [OF L])
    have mem: "(u, e) \<in> set (a_wq a v)" using ue q by (auto simp: a_add_def split: if_splits)
    have "u \<noteq> t"
    proof
      assume "u = t"
      then have "(t, d) \<in> set (a_wq a v)" "e = d" using mem E(6) [of e v] by auto
      moreover have "v = w" using links_ok_apart(3) [OF L _ td] mem \<open>u = t\<close> \<open>e = d\<close> by blast
      ultimately show False using ue d q \<open>u = t\<close> by (simp add: a_add_def)
    qed
    moreover have "thr_queued (a_add ?p t ?a0) u \<Longrightarrow> u \<noteq> t \<Longrightarrow> thr_queued a u"
      using E(3) by (auto simp: thr_queued_def a_add_def split: if_splits)
    ultimately show "(u, e) \<in> set (a_wq a v) \<and> ent_thr (woken t d s) (u, e) = ent_thr s (u, e) \<and>
        status (thrs (woken t d s) u) = status (thrs s u) \<and> prio (thrs (woken t d s) u) = prio (thrs s u) \<and>
        (thr_queued (a_add ?p t ?a0) u \<longrightarrow> thr_queued a u)"
      using mem by (simp add: woken_def Let_def)
  qed
  ultimately show ?thesis by (simp add: kinv_def)
qed

lemma woken_core: "core_eq s (woken t d s)" "wq_reason (woken t d s) = wq_reason s"
  by (simp_all add: core_eq_def mid_eq_def woken_def Let_def)

lemma woken_status: "status (thrs (woken t d s) u) = (if u = t then THR_TSTATE_RUN else status (thrs s u))"
  by (simp add: woken_def Let_def)

lemma a_wake_step:
  "a_wq a w = (t, d) # es \<Longrightarrow>
     a_wake pr w (a_add (pr t) t (a\<lparr>a_wq := (a_wq a)(w := es)\<rparr>)) = a_wake pr w a"
  by (auto simp: a_wake_def a_add_def fun_eq_iff)

lemma wakeup_loop_unfold:
  "wakeup_loop w s =
     (if list_is_empty (lnk s) (WqHead w) then Ok s else obind (wakeup_one w s) (wakeup_loop w))"
proof (cases "wakeup_one w s")
  case (Ok s')
  then show ?thesis unfolding wakeup_loop_def by (subst while_option_unfold) simp
next
  case (Stop x)
  have "while_option (\<lambda>r. case r of Ok s \<Rightarrow> \<not> list_is_empty (lnk s) (WqHead w) | Stop _ \<Rightarrow> False)
      (\<lambda>r. obind r (wakeup_one w)) (Stop x) = Some (Stop x)" by (subst while_option_unfold) simp
  with Stop show ?thesis unfolding wakeup_loop_def by (subst while_option_unfold) simp
qed

lemma wakeup_loop_ok:
  assumes "kinv s a"
  shows "\<exists>s'. wakeup_loop w s = Ok s' \<and> kinv s' (a_wake (\<lambda>t. prio (thrs s t)) w a) \<and>
    core_eq s s' \<and> wq_reason s' = wq_reason s \<and>
    (\<forall>u. status (thrs s' u) = (if u \<in> fst ` set (a_wq a w) then THR_TSTATE_RUN else status (thrs s u)))"
  using assms
proof (induction "a_wq a w" arbitrary: s a)
  case Nil
  have L: "links_ok (lnk s) a" using Nil by (simp add: kinv_def rdq_ok_def)
  have "list_is_empty (lnk s) (WqHead w)"
    using lq.rep_empty [OF links_ok_rings [OF L], of "WqHead w"] Nil(1) by simp
  moreover have "a_wake (\<lambda>t. prio (thrs s t)) w a = a" using Nil(1) by (simp add: a_wake_def fun_upd_idem)
  ultimately show ?case using Nil by (simp add: wakeup_loop_unfold flip: Nil(1))
next
  case (Cons e es)
  obtain t d where e: "e = (t, d)" by (cases e)
  have q: "a_wq a w = (t, d) # es" using Cons(2) e by simp
  let ?a1 = "a_add (prio (thrs s t)) t (a\<lparr>a_wq := (a_wq a)(w := es)\<rparr>)" and ?s1 = "woken t d s"
  have L: "links_ok (lnk s) a" using Cons.prems by (simp add: kinv_def rdq_ok_def)
  have ne: "\<not> list_is_empty (lnk s) (WqHead w)"
    using lq.rep_empty [OF links_ok_rings [OF L], of "WqHead w"] q by simp
  have "es = a_wq ?a1 w" by (simp add: a_add_def)
  from Cons.hyps(1) [OF this woken_kinv [OF Cons.prems q]]
  obtain s' where s': "wakeup_loop w ?s1 = Ok s'" "kinv s' (a_wake (\<lambda>t. prio (thrs ?s1 t)) w ?a1)"
    "core_eq ?s1 s'" "wq_reason s' = wq_reason ?s1"
    "\<forall>u. status (thrs s' u) = (if u \<in> fst ` set (a_wq ?a1 w) then THR_TSTATE_RUN else status (thrs ?s1 u))"
    by blast
  have pr: "(\<lambda>t. prio (thrs ?s1 t)) = (\<lambda>t. prio (thrs s t))"
    using mid_eqD(3) [OF core_eq_mid [OF woken_core(1)]] by blast
  show ?case
  proof (intro exI conjI)
    show "wakeup_loop w s = Ok s'"
      by (subst wakeup_loop_unfold) (simp add: ne wakeup_one_eq [OF Cons.prems q] s'(1))
    show "kinv s' (a_wake (\<lambda>t. prio (thrs s t)) w a)" 
      using s'(2) a_wake_step [OF q, of "\<lambda>t. prio (thrs s t)"] unfolding pr by simp
    show "core_eq s s'" using core_eq_trans [OF woken_core(1) s'(3)] .
    show "wq_reason s' = wq_reason s" using s'(4) woken_core(2) by metis
    show "\<forall>u. status (thrs s' u) = (if u \<in> fst ` set (a_wq a w) then THR_TSTATE_RUN else status (thrs s u))"
      using s'(5) q by (simp add: woken_status a_add_def)
  qed
qed

text \<open>
  The call as a whole: nothing happens when nobody waits; otherwise the woken threads are ready,
  the reason is recorded and the dispatcher runs.
\<close>

definition wakeup_state :: "wqid \<Rightarrow> u32 \<Rightarrow> kst \<Rightarrow> kst" where
  "wakeup_state w reason s =
     (case wakeup_loop w (s\<lparr>psw_if := False\<rparr>) of
        Ok s \<Rightarrow> s\<lparr>wq_reason := (wq_reason s)(w := reason)\<rparr> | Stop _ \<Rightarrow> s)"

lemma wakeup_state_ok:
  assumes K: "kinv s a"
  shows "kinv (wakeup_state w r s) (a_wake (\<lambda>t. prio (thrs s t)) w a)"
    "mid_eq s (wakeup_state w r s)" "current (wakeup_state w r s) = current s"
    "\<not> psw_if (wakeup_state w r s)" "wq_reason (wakeup_state w r s) = (wq_reason s)(w := r)"
    "kstack (thrs (wakeup_state w r s) u) = kstack (thrs s u)"
    "preempt (thrs (wakeup_state w r s) u) = preempt (thrs s u)"
    "status (thrs (wakeup_state w r s) u) =
       (if u \<in> fst ` set (a_wq a w) then THR_TSTATE_RUN else status (thrs s u))"
    "wakeup_loop w (s\<lparr>psw_if := False\<rparr>) = Ok s1 \<Longrightarrow>
       wakeup_state w r s = s1\<lparr>wq_reason := (wq_reason s1)(w := r)\<rparr>"
proof -
  let ?s = "s\<lparr>psw_if := False\<rparr>"
  have K': "kinv ?s a" using K kinv_cong [OF sched_eq_upd(5)] by blast
  obtain s' where s': "wakeup_loop w ?s = Ok s'" "kinv s' (a_wake (\<lambda>t. prio (thrs ?s t)) w a)"
    "core_eq ?s s'" "wq_reason s' = wq_reason ?s"
    "\<And>u. status (thrs s' u) = (if u \<in> fst ` set (a_wq a w) then THR_TSTATE_RUN else status (thrs s u))"
    using wakeup_loop_ok [OF K', of w] by auto
  have eq: "wakeup_state w r s = s'\<lparr>wq_reason := (wq_reason s')(w := r)\<rparr>"
    by (simp add: wakeup_state_def s'(1))
  show "kinv (wakeup_state w r s) (a_wake (\<lambda>t. prio (thrs s t)) w a)"
    using s'(2) by (simp add: eq kinv_def rdq_ok_def wait_ok_def)
  show "mid_eq s (wakeup_state w r s)" "current (wakeup_state w r s) = current s"
    "\<not> psw_if (wakeup_state w r s)" "wq_reason (wakeup_state w r s) = (wq_reason s)(w := r)"
    "kstack (thrs (wakeup_state w r s) u) = kstack (thrs s u)"
    "preempt (thrs (wakeup_state w r s) u) = preempt (thrs s u)"
    using s'(3,4) by (simp_all add: eq core_eq_def mid_eq_def)
  show "status (thrs (wakeup_state w r s) u) =
      (if u \<in> fst ` set (a_wq a w) then THR_TSTATE_RUN else status (thrs s u))"
    using s'(5) by (simp add: eq)
  show "wakeup_state w r s = s1\<lparr>wq_reason := (wq_reason s1)(w := r)\<rparr>" if "wakeup_loop w ?s = Ok s1"
    using that s'(1) eq by simp
qed

lemma wque_wakeup_ok:
  assumes K: "kinv s a" and a'_def: "a' = a_wake (\<lambda>t. prio (thrs s t)) w a"
  shows "wque_wakeup w reason s =
    Ok (if a_wq a w = [] then (Returned 0, s)
        else if dispatch_delayed (preempt (thrs s (current s))) \<or> a_next a' = current s
        then (Returned 0, psw_restore_interrupt (psw_if s) (stay (wakeup_state w reason s)))
        else (Switched, push_frame (current s) (FWakeup (psw_if s))
                (switch_to (a_next a') (wakeup_state w reason s))))"
proof -
  have L: "links_ok (lnk s) a" using K by (simp add: kinv_def rdq_ok_def)
  have e: "list_is_empty (lnk s) (WqHead w) \<longleftrightarrow> a_wq a w = []"
    using lq.rep_empty [OF links_ok_rings [OF L], of "WqHead w"] by simp
  let ?s = "s\<lparr>psw_if := False\<rparr>"
  have K': "kinv ?s a" using K kinv_cong [OF sched_eq_upd(5)] by blast
  obtain s1 where s1: "wakeup_loop w ?s = Ok s1" using wakeup_loop_ok [OF K'] by blast
  note W = wakeup_state_ok [OF K, where w = w and r = reason]
  have "sched_schedule (wakeup_state w reason s) =
      Ok (if dispatch_delayed (preempt (thrs s (current s))) \<or> a_next a' = current s
          then (Returned 0, stay (wakeup_state w reason s))
          else (Switched, switch_to (a_next a') (wakeup_state w reason s)))"
    using sched_schedule_ok [OF kinv_rdq [OF W(1)]] by (simp add: W(3,7) a'_def)
  then show ?thesis
    by (simp add: wque_wakeup_def Let_def psw_disable_and_save_interrupt_def e s1 flip: W(9) [OF s1])
qed

end
