(* ===== verification/Kmutex.thy ===== *)
theory Kmutex
  imports Kwqueue
begin

text \<open>
  The kernel mutex of \<^verbatim>\<open>kern/mutex.c\<close> and \<^verbatim>\<open>wque_wait_on_event_with_mutex\<close> of \<^verbatim>\<open>kern/wqueue.c\<close>.
  \<^verbatim>\<open>mutex_hold\<close> loops as long as the mutex is taken; the loop is a \<open>while_option\<close>, and not ending
  is the outcome \<open>Kblocked\<close>.
\<close>

section \<open>Operations\<close>

definition mutex_init :: "mtx \<Rightarrow> kst \<Rightarrow> kst" where
  "mutex_init m s =
     (let (psw, s) = psw_disable_and_save_interrupt s;
          s = s\<lparr>m_count := (m_count s)(m := 0)\<rparr>;
          s = s\<lparr>m_owner := (m_owner s)(m := None)\<rparr>;
          s = wque_init_wait_queue (MtxWq m) s
      in psw_restore_interrupt psw s)"

definition destroy_resume :: "mtx \<Rightarrow> bool \<Rightarrow> kst \<Rightarrow> kst" where
  "destroy_resume m psw s =
     (let s = s\<lparr>m_count := (m_count s)(m := 0)\<rparr>;
          s = s\<lparr>m_owner := (m_owner s)(m := None)\<rparr>
      in psw_restore_interrupt psw s)"

definition mutex_destroy :: "mtx \<Rightarrow> kst \<Rightarrow> kres" where
  "mutex_destroy m s =
     (let t = current s;
          (psw, s) = psw_disable_and_save_interrupt s
      in obind (wque_wakeup (MtxWq m) WQUE_REASON_DESTROY s)
           (\<lambda>(r, s). case r of
               Switched \<Rightarrow> Ok (Switched, push_frame t (FDestroy m psw) s)
             | Returned _ \<Rightarrow> Ok (Returned 0, destroy_resume m psw s)))"

definition mutex_take :: "mtx \<Rightarrow> kst \<Rightarrow> kst" where
  "mutex_take m s =
     s\<lparr>m_count := (m_count s)(m := m_count s m + 1), m_owner := (m_owner s)(m := Some (current s))\<rparr>"

definition mutex_try_hold :: "mtx \<Rightarrow> kst \<Rightarrow> int \<times> kst" where
  "mutex_try_hold m s =
     (let (psw, s) = psw_disable_and_save_interrupt s
      in if 0 < m_count s m then (EAGAIN, psw_restore_interrupt psw s)
         else (0, psw_restore_interrupt psw (mutex_take m s)))"

text \<open>One turn of the loop of \<^verbatim>\<open>mutex_hold\<close>: go round again (\<open>Inl\<close>) or leave (\<open>Inr\<close>).\<close>

definition hold_turn :: "mtx \<Rightarrow> nat \<Rightarrow> bool \<Rightarrow> kst \<Rightarrow> kst + kres" where
  "hold_turn m d psw s =
     (if 0 < m_count s m
      then (case wque_wait_on_queue (MtxWq m) d s of
              Stop x \<Rightarrow> Inr (Stop x)
            | Ok (Switched, s') \<Rightarrow> Inr (Ok (Switched, push_frame (current s) (FHold m d psw) s'))
            | Ok (Returned reason, s') \<Rightarrow>
                if reason \<noteq> uint WQUE_REASON_WAKEUP
                then Inr (Ok (Returned ENODEV, psw_restore_interrupt psw s')) else Inl s')
      else Inr (Ok (Returned 0, psw_restore_interrupt psw (mutex_take m s))))"

definition hold_loop :: "mtx \<Rightarrow> nat \<Rightarrow> bool \<Rightarrow> kst \<Rightarrow> kres" where
  "hold_loop m d psw s =
     (case while_option isl (\<lambda>x. hold_turn m d psw (projl x)) (Inl s) of
        Some (Inr r) \<Rightarrow> r
      | _ \<Rightarrow> Stop Kblocked)"

definition hold_resume :: "mtx \<Rightarrow> nat \<Rightarrow> bool \<Rightarrow> int \<Rightarrow> kst \<Rightarrow> kres" where
  "hold_resume m d psw reason s =
     (if reason \<noteq> uint WQUE_REASON_WAKEUP then Ok (Returned ENODEV, psw_restore_interrupt psw s)
      else hold_loop m d psw s)"

definition mutex_hold :: "mtx \<Rightarrow> nat \<Rightarrow> kst \<Rightarrow> kres" where
  "mutex_hold m d s = (let (psw, s) = psw_disable_and_save_interrupt s in hold_loop m d psw s)"

definition release_resume :: "mtx \<Rightarrow> bool \<Rightarrow> kst \<Rightarrow> kst" where
  "release_resume m psw s = psw_restore_interrupt psw (s\<lparr>m_owner := (m_owner s)(m := None)\<rparr>)"

definition mutex_release :: "mtx \<Rightarrow> kst \<Rightarrow> kres" where
  "mutex_release m s =
     (let t = current s;
          (psw, s) = psw_disable_and_save_interrupt s;
          s = s\<lparr>m_count := (m_count s)(m := m_count s m - 1)\<rparr>
      in obind (wque_wakeup (MtxWq m) WQUE_REASON_WAKEUP s)
           (\<lambda>(r, s). case r of
               Switched \<Rightarrow> Ok (Switched, push_frame t (FRelease m psw) s)
             | Returned _ \<Rightarrow> Ok (Returned 0, release_resume m psw s)))"

section \<open>Waiting for an event with a mutex\<close>

text \<open>The three calls that can switch split the routine into four stages.\<close>

definition wait_ev_end :: "nat \<Rightarrow> wqid \<Rightarrow> mtx \<Rightarrow> bool \<Rightarrow> kst \<Rightarrow> kres" where
  "wait_ev_end d wq m psw s =
     (let s = wque_remove_entry wq (current s, d) s;
          reason = wq_reason s wq
      in Ok (Returned (uint reason), psw_restore_interrupt psw s))"

definition wait_ev_hold :: "nat \<Rightarrow> wqid \<Rightarrow> mtx \<Rightarrow> bool \<Rightarrow> kst \<Rightarrow> kres" where
  "wait_ev_hold d wq m psw s =
     obind (mutex_hold m (d + 1) s)
       (\<lambda>(r, s'). case r of
           Switched \<Rightarrow> Ok (Switched, push_frame (current s) (FWaitEvHold d wq m psw) s')
         | Returned _ \<Rightarrow> wait_ev_end d wq m psw s')"

definition wait_ev_sched :: "nat \<Rightarrow> wqid \<Rightarrow> mtx \<Rightarrow> bool \<Rightarrow> kst \<Rightarrow> kres" where
  "wait_ev_sched d wq m psw s =
     obind (sched_schedule s)
       (\<lambda>(r, s'). case r of
           Switched \<Rightarrow> Ok (Switched, push_frame (current s) (FWaitEvSched d wq m psw) s')
         | Returned _ \<Rightarrow> wait_ev_hold d wq m psw s')"

definition wque_wait_on_event_with_mutex :: "wqid \<Rightarrow> mtx \<Rightarrow> nat \<Rightarrow> kst \<Rightarrow> kres" where
  "wque_wait_on_event_with_mutex wq m d s =
     (let t = current s; ep = (t, d);
          s = upd_lnk (\<lambda>h. init_list_node h (ent_link ep)) s;
          (psw, s) = psw_disable_and_save_interrupt s;
          s = rdq_remove_thread t s;
          s = wque_add_thread wq ep t s
      in case ent_thr s ep of
           None \<Rightarrow> Stop Kfault
         | Some u \<Rightarrow>
             obind (mutex_release m (set_status u THR_TSTATE_WAIT s))
               (\<lambda>(r, s'). case r of
                   Switched \<Rightarrow> Ok (Switched, push_frame t (FWaitEvRelease d wq m psw) s')
                 | Returned _ \<Rightarrow> wait_ev_sched d wq m psw s'))"

section \<open>Holding\<close>

lemma hold_loop_unfold:
  "hold_loop m d psw s = (case hold_turn m d psw s of Inl s' \<Rightarrow> hold_loop m d psw s' | Inr r \<Rightarrow> r)"
proof (cases "hold_turn m d psw s")
  case (Inr r)
  then show ?thesis unfolding hold_loop_def
    by (subst while_option_unfold, simp, subst while_option_unfold, simp)
next
  case (Inl s')
  then show ?thesis unfolding hold_loop_def by (subst while_option_unfold) simp
qed

lemma hold_loop_free:
  "m_count s m = 0 \<Longrightarrow> hold_loop m d psw s = Ok (Returned 0, psw_restore_interrupt psw (mutex_take m s))"
  by (subst hold_loop_unfold) (simp add: hold_turn_def)

lemma hold_loop_busy:
  assumes K: "kinv s a" and p: "p < RDQ_PRIORITY_MAX" and t: "current s \<in> set (a_rq a p)"
    and nd: "\<not> dispatch_delayed (preempt (thrs s (current s)))" and b: "0 < m_count s m"
  shows "hold_loop m d psw s =
    Ok (Switched, push_frame (current s) (FHold m d psw)
         (wait_switch (a_wait p (MtxWq m) (current s, d) a) (MtxWq m) d s))"
  by (subst hold_loop_unfold) (simp add: hold_turn_def b wque_wait_on_queue_ok(1) [OF K p t nd])

end
