(* ===== verification/Kthread.thy ===== *)
theory Kthread
  imports Kmutex
begin

text \<open>
  Threads: \<^verbatim>\<open>kern/thread.c\<close>, \<^verbatim>\<open>kern/reaper.c\<close>, \<^verbatim>\<open>kern/idle.c\<close> and the stack set-up of
  \<^verbatim>\<open>hal/x64/thr_context.c\<close>.  The allocator is not part of this model: what \<^verbatim>\<open>kposix_memalign\<close> and
  \<^verbatim>\<open>kmalloc\<close> return is an argument, and the addresses given to \<^verbatim>\<open>kfree\<close> are part of the result.
  \<open>live\<close> is the set of allocated thread structures.  The loops over the file descriptors in
  \<^verbatim>\<open>thr_exit_thread\<close>, \<^verbatim>\<open>thr_thread_start\<close> and \<^verbatim>\<open>reaper\<close> belong to the file-system model.
\<close>

section \<open>Thread queues\<close>

definition thr_init_thread_queue :: "laddr \<Rightarrow> kst \<Rightarrow> kst" where
  "thr_init_thread_queue que s =
     (let (psw, s) = psw_disable_and_save_interrupt s;
          s = upd_lnk (\<lambda>h. init_list_head h que) s
      in psw_restore_interrupt psw s)"

definition thr_add_thread_queue :: "laddr \<Rightarrow> thr \<Rightarrow> kst \<Rightarrow> kst" where
  "thr_add_thread_queue que t s =
     (let (psw, s) = psw_disable_and_save_interrupt s;
          s = upd_lnk (\<lambda>h. list_add h que (ThrLink t)) s
      in psw_restore_interrupt psw s)"

definition thr_remove_thread_queue :: "laddr \<Rightarrow> thr \<Rightarrow> kst \<Rightarrow> kst" where
  "thr_remove_thread_queue que t s =
     (let (psw, s) = psw_disable_and_save_interrupt s;
          s = upd_lnk (\<lambda>h. list_del h (ThrLink t)) s
      in psw_restore_interrupt psw s)"

definition thr_thread_queue_empty :: "laddr \<Rightarrow> kst \<Rightarrow> bool" where
  "thr_thread_queue_empty que s = list_is_empty (lnk s) que"

definition thr_thread_queue_get_top :: "laddr \<Rightarrow> kst \<Rightarrow> (thr option \<times> kst) outcome" where
  "thr_thread_queue_get_top que s =
     (let (psw, s) = psw_disable_and_save_interrupt s
      in if list_is_empty (lnk s) que then Ok (None, psw_restore_interrupt psw s)
         else (case list_get_top (lnk s) que of
                 (ThrLink t, h) \<Rightarrow> Ok (Some t, psw_restore_interrupt psw (upd_lnk (\<lambda>_. h) s))
               | _ \<Rightarrow> Stop Kfault))"

section \<open>Creation\<close>

abbreviation (input) sizeof_thread_info :: u64 where "sizeof_thread_info \<equiv> 32"
abbreviation (input) STACK_ALIGN :: u64 where "STACK_ALIGN \<equiv> 16"
abbreviation (input) STACK_SIZE :: u64 where "STACK_SIZE \<equiv> 4096"

definition TRUNCATE_ALIGN :: "u64 \<Rightarrow> u64 \<Rightarrow> u64" where
  "TRUNCATE_ALIGN addr sz = addr AND NOT (sz - 1)"

record thread_attr =
  at_stack_top :: u64
  at_stack_size :: u64
  at_prio :: int

definition thr_refer_thread_info :: "thread \<Rightarrow> u64" where
  "thr_refer_thread_info r = stack_top r + stack_size r - sizeof_thread_info"

definition clr_thread_info :: "thread \<Rightarrow> thread" where
  "clr_thread_info r = r\<lparr>preempt := 0\<rparr>"

definition set_thread_stack :: "u64 \<Rightarrow> u64 \<Rightarrow> thread \<Rightarrow> thread" where
  "set_thread_stack tp sz r =
     (let r = r\<lparr>stack_top := tp, stack_size := sz\<rparr>;
          tinfo = thr_refer_thread_info r;
          r = r\<lparr>stack := TRUNCATE_ALIGN (tinfo - 1) STACK_ALIGN\<rparr>
      in clr_thread_info r)"

text \<open>
  Four words are stored below the thread information; the new thread first runs
  \<^verbatim>\<open>thr_thread_start\<close>, which is the frame \<open>FStart\<close>.
\<close>

definition hal_setup_thread_function :: "thread \<Rightarrow> thread" where
  "hal_setup_thread_function r =
     (let sp = thr_refer_thread_info r;
          sp = sp - 8;
          sp = sp - 8;
          sp = sp - 8;
          sp = sp - 8
      in r\<lparr>stack := sp, kstack := [FStart]\<rparr>)"

definition thr_zero :: thread where
  "thr_zero = \<lparr>status = THR_TSTATE_RUN, tid = 0, prio = 0, slice = 0, exit_code = 0, stack_top = 0,
     stack_size = 0, stack = 0, preempt = 0, kstack = []\<rparr>"

definition attr_stack :: "thread_attr option \<Rightarrow> (u64 \<times> u64) option" where
  "attr_stack attrp =
     (case attrp of
        None \<Rightarrow> None
      | Some at \<Rightarrow> if at_stack_top at = 0 \<or> at_stack_size at = 0 then None
                  else Some (at_stack_top at, at_stack_size at))"

definition attr_prio :: "thread_attr option \<Rightarrow> nat" where
  "attr_prio attrp =
     (case attrp of
        Some at \<Rightarrow> if at_prio at < int RDQ_PRIORITY_MAX \<and> at_prio at > int RDQ_USER_RR_PRIORITY
                  then nat (at_prio at) else RDQ_USER_RR_PRIORITY
      | None \<Rightarrow> RDQ_USER_RR_PRIORITY)"

text \<open>The result is the return code, the thread and the addresses freed on the error path.\<close>

definition thr_create_thread ::
  "u64 option \<Rightarrow> thr option \<Rightarrow> u64 \<Rightarrow> thread_attr option \<Rightarrow> kst \<Rightarrow> (int \<times> thr option \<times> u64 list) \<times> kst" where
  "thr_create_thread stk mem tid0 attrp s =
     (case (case attr_stack attrp of
              None \<Rightarrow> (case stk of None \<Rightarrow> None | Some st \<Rightarrow> Some (st, STACK_SIZE))
            | Some st \<Rightarrow> Some st) of
        None \<Rightarrow> ((ENOMEM, None, []), s)
      | Some (thread_stack, st_size) \<Rightarrow>
          (case mem of
             None \<Rightarrow> ((ENOMEM, None, [thread_stack]), s)
           | Some t \<Rightarrow>
               (let r = set_thread_stack thread_stack st_size thr_zero;
                    r = r\<lparr>tid := tid0\<rparr>;
                    r = r\<lparr>prio := attr_prio attrp\<rparr>;
                    r = hal_setup_thread_function r;
                    s = s\<lparr>live := insert t (live s)\<rparr>;
                    s = upd_lnk (\<lambda>h. init_list_node h (ThrLink t)) s;
                    r = r\<lparr>exit_code := 0\<rparr>;
                    r = r\<lparr>slice := CONFIG_TIMER_TIME_SLICE\<rparr>;
                    r = r\<lparr>status := THR_TSTATE_RUN\<rparr>;
                    s = upd_thr t (\<lambda>_. r) s;
                    s = sched_set_ready t s
                in ((0, Some t, []), s))))"

definition thr_destroy_thread :: "thr \<Rightarrow> kst \<Rightarrow> int \<times> kst" where
  "thr_destroy_thread t s =
     (let (psw, s) = psw_disable_and_save_interrupt s
      in if status (thrs s t) \<noteq> THR_TSTATE_DEAD then (EBUSY, psw_restore_interrupt psw s)
         else (0, psw_restore_interrupt psw (s\<lparr>live := live s - {t}\<rparr>)))"

definition thr_get_tid :: "thr \<Rightarrow> kst \<Rightarrow> u64" where
  "thr_get_tid t s = tid (thrs s t)"

definition thr_get_current_tid :: "kst \<Rightarrow> u64" where
  "thr_get_current_tid s = tid (thrs s (current s))"

definition thr_is_round_robin_thread :: "thr \<Rightarrow> kst \<Rightarrow> bool" where
  "thr_is_round_robin_thread t s = (prio (thrs s t) = RDQ_USER_RR_PRIORITY)"

section \<open>Termination and the reaper\<close>

definition reaper_add_exit_thread :: "thr \<Rightarrow> kst \<Rightarrow> kres" where
  "reaper_add_exit_thread t s =
     (let cur = current s;
          (psw, s) = psw_disable_and_save_interrupt s
      in if status (thrs s t) \<noteq> THR_TSTATE_EXIT then Ok (Returned 0, psw_restore_interrupt psw s)
         else (let s = set_status t THR_TSTATE_DEAD s;
                   s = thr_add_thread_queue ReapHead t s
               in obind (wque_wakeup ReaperWq WQUE_REASON_WAKEUP s)
                    (\<lambda>(r, s). case r of
                        Switched \<Rightarrow> Ok (Switched, push_frame cur (FReapAdd psw) s)
                      | Returned _ \<Rightarrow> Ok (Returned 0, psw_restore_interrupt psw s))))"

definition exit_resume :: "bool \<Rightarrow> kst \<Rightarrow> kres" where
  "exit_resume psw s = sched_schedule (psw_restore_interrupt psw s)"

definition thr_exit_thread :: "u64 \<Rightarrow> kst \<Rightarrow> kres" where
  "thr_exit_thread code s =
     (let t = current s;
          (psw, s) = psw_disable_and_save_interrupt s;
          s = rdq_remove_thread t s;
          s = upd_thr t (\<lambda>r. r\<lparr>exit_code := code\<rparr>) s;
          s = set_status t THR_TSTATE_EXIT s
      in obind (reaper_add_exit_thread t s)
           (\<lambda>(r, s). case r of
               Switched \<Rightarrow> Ok (Switched, push_frame t (FExit psw) s)
             | Returned _ \<Rightarrow> exit_resume psw s))"

text \<open>The loop of the reaper thread that destroys the terminated threads, and one turn of its main loop.\<close>

definition reap_one :: "kst \<Rightarrow> kst outcome" where
  "reap_one s =
     obind (thr_thread_queue_get_top ReapHead s)
       (\<lambda>(t, s). case t of None \<Rightarrow> Stop Kfault | Some t \<Rightarrow> Ok (snd (thr_destroy_thread t s)))"

definition reap_loop :: "kst \<Rightarrow> kst outcome" where
  "reap_loop s =
     (case while_option
             (\<lambda>r. case r of Ok s \<Rightarrow> \<not> thr_thread_queue_empty ReapHead s | Stop _ \<Rightarrow> False)
             (\<lambda>r. obind r reap_one) (Ok s) of
        None \<Rightarrow> Stop Kblocked
      | Some r \<Rightarrow> r)"

definition reaper_turn :: "kst \<Rightarrow> kres" where
  "reaper_turn s =
     (let t = current s;
          (psw, s) = psw_disable_and_save_interrupt s
      in obind (reap_loop s)
           (\<lambda>s. obind (wque_wait_on_queue ReaperWq 0 s)
             (\<lambda>(r, s). case r of
                 Switched \<Rightarrow> Ok (Switched, push_frame t (FReaper psw) s)
               | Returned _ \<Rightarrow> Ok (Returned 0, psw_restore_interrupt psw s))))"

abbreviation (input) REAPER_THREAD_TID :: u64 where "REAPER_THREAD_TID \<equiv> 1"
abbreviation (input) REAPER_THREAD_PRIO :: int where "REAPER_THREAD_PRIO \<equiv> 7"

definition reaper_init_thread :: "u64 option \<Rightarrow> thr option \<Rightarrow> kst \<Rightarrow> kst" where
  "reaper_init_thread stk mem s =
     (let s = thr_init_thread_queue ReapHead s;
          s = wque_init_wait_queue ReaperWq s;
          attr = \<lparr>at_stack_top = 0, at_stack_size = 0, at_prio = REAPER_THREAD_PRIO\<rparr>
      in snd (thr_create_thread stk mem REAPER_THREAD_TID (Some attr) s))"

section \<open>The idle thread\<close>

definition idle_init_idle :: "kst \<Rightarrow> kst" where
  "idle_init_idle s = upd_thr idle_refer_idle_thread (\<lambda>r. r\<lparr>tid := 0, slice := 0\<rparr>) s"

text \<open>
  The prologue of \<^verbatim>\<open>do_idle_loop\<close> and one turn of its loop; suspending the processor until the next
  interrupt has no effect on the kernel's state.
\<close>

definition idle_loop_init :: "kst \<Rightarrow> kst" where
  "idle_loop_init s = psw_enable_interrupt (upd_preempt (current s) ti_set_delay_dispatch s)"

definition idle_turn :: "kst \<Rightarrow> kres" where
  "idle_turn s =
     (let t = current s;
          (psw, s) = psw_disable_and_save_interrupt s
      in obind (sched_schedule s)
           (\<lambda>(r, s). case r of
               Switched \<Rightarrow> Ok (Switched, push_frame t (FIdle psw) s)
             | Returned _ \<Rightarrow> Ok (Returned 0, psw_restore_interrupt psw s)))"

end
