(* ===== verification/Ktimer.thy ===== *)
theory Ktimer
  imports Kthread
begin

text \<open>
  Time: the call-outs and the time slices of \<^verbatim>\<open>kern/timer.c\<close> and \<^verbatim>\<open>thr_delay\<close> of \<^verbatim>\<open>kern/thread.c\<close>.
  The only call-out function of the kernel is \<^verbatim>\<open>thr_delay_callout\<close>; the call-out entry and the wait
  queue of \<^verbatim>\<open>thr_delay\<close> live on the stack of the calling thread and are named by it.
\<close>

section \<open>Call-outs\<close>

definition callout_ent_init :: "nat \<Rightarrow> callout_fn option \<Rightarrow> kst \<Rightarrow> kst" where
  "callout_ent_init c fn s =
     (let s = upd_lnk (\<lambda>h. init_list_node h (CoLink c)) s;
          s = s\<lparr>co_fn := (co_fn s)(c := fn)\<rparr>
      in s\<lparr>co_expire := (co_expire s)(c := 0)\<rparr>)"

text \<open>The search for the insert position: the first entry that expires no earlier.\<close>

definition callout_pos :: "u64 \<Rightarrow> kst \<Rightarrow> laddr option" where
  "callout_pos abs_expire s =
     while_option (\<lambda>lp. case lp of CoLink c \<Rightarrow> \<not> abs_expire \<le> co_expire s c | _ \<Rightarrow> False)
       (\<lambda>lp. l_next (lnk s lp)) (list_ref_top (lnk s) CoHead)"

definition callout_add :: "nat \<Rightarrow> u64 \<Rightarrow> kst \<Rightarrow> (int \<times> kst) outcome" where
  "callout_add c rel_expire s =
     (if co_fn s c = None \<or> list_is_linked (lnk s) (CoLink c) then Ok (EINVAL, s)
      else
        (let (psw, s) = psw_disable_and_save_interrupt s;
             abs_expire = uptime s + rel_expire;
             s = s\<lparr>co_expire := (co_expire s)(c := abs_expire)\<rparr>;
             s = upd_lnk (\<lambda>h. init_list_node h (CoLink c)) s
         in case callout_pos abs_expire s of
              None \<Rightarrow> Stop Kblocked
            | Some CoHead \<Rightarrow>
                Ok (0, psw_restore_interrupt psw (upd_lnk (\<lambda>h. list_add h CoHead (CoLink c)) s))
            | Some (CoLink e) \<Rightarrow>
                Ok (0, psw_restore_interrupt psw (upd_lnk (\<lambda>h. list_insert_at h (CoLink e) (CoLink c)) s))
            | Some _ \<Rightarrow> Stop Kfault))"

definition thr_delay_callout :: "wqid \<Rightarrow> kst \<Rightarrow> kres" where
  "thr_delay_callout que s =
     (if \<not> is_wque_empty que s then wque_wakeup que WQUE_REASON_WAKEUP s else Ok (Returned 0, s))"

text \<open>
  \<^verbatim>\<open>handle_callouts\<close> first moves the expired entries to a list on its own stack.
\<close>

definition move_turn :: "thr \<Rightarrow> laddr \<times> kst \<Rightarrow> laddr \<times> kst" where
  "move_turn t x =
     (case x of (lp, s) \<Rightarrow>
        (let next_ent = l_next (lnk s lp)
         in case lp of
              CoLink c \<Rightarrow>
                if co_expire s c \<le> uptime s
                then (next_ent, upd_lnk (\<lambda>h. list_add (list_del h lp) (CalledHead t) lp) s)
                else (next_ent, s)
            | _ \<Rightarrow> (next_ent, s)))"

definition move_expired :: "thr \<Rightarrow> kst \<Rightarrow> kst outcome" where
  "move_expired t s =
     (case while_option (\<lambda>(lp, s). lp \<noteq> CoHead) (move_turn t) (list_ref_top (lnk s) CoHead, s) of
        None \<Rightarrow> Stop Kblocked
      | Some (_, s) \<Rightarrow> Ok s)"

text \<open>Then it calls them one by one, with interrupts enabled.\<close>

definition call_turn :: "thr \<Rightarrow> bool \<Rightarrow> kst \<Rightarrow> kst + kres" where
  "call_turn t psw s =
     (if list_is_empty (lnk s) (CalledHead t) then Inr (Ok (Returned 0, psw_restore_interrupt psw s))
      else (case list_get_top (lnk s) (CalledHead t) of
              (CoLink c, h) \<Rightarrow>
                (case co_fn s c of
                   None \<Rightarrow> Inr (Stop Kfault)
                 | Some (Thr_delay_callout que) \<Rightarrow>
                     (case thr_delay_callout que (psw_enable_interrupt (upd_lnk (\<lambda>_. h) s)) of
                        Stop x \<Rightarrow> Inr (Stop x)
                      | Ok (Switched, s') \<Rightarrow> Inr (Ok (Switched, push_frame t (FCallouts psw) s'))
                      | Ok (Returned _, s') \<Rightarrow> Inl (psw_disable_interrupt s')))
            | _ \<Rightarrow> Inr (Stop Kfault)))"

definition call_expired :: "thr \<Rightarrow> bool \<Rightarrow> kst \<Rightarrow> kres" where
  "call_expired t psw s =
     (case while_option isl (\<lambda>x. call_turn t psw (projl x)) (Inl s) of
        Some (Inr r) \<Rightarrow> r
      | _ \<Rightarrow> Stop Kblocked)"

definition handle_callouts :: "kst \<Rightarrow> kres" where
  "handle_callouts s =
     (let t = current s;
          s = upd_lnk (\<lambda>h. init_list_head h (CalledHead t)) s;
          (psw, s) = psw_disable_and_save_interrupt s
      in obind (move_expired t s)
           (\<lambda>s. let s = psw_restore_interrupt psw s;
                    (psw, s) = psw_disable_and_save_interrupt s
                in call_expired t psw s))"

definition timer_update_uptime :: "kst \<Rightarrow> kres" where
  "timer_update_uptime s =
     (let (psw, s) = psw_disable_and_save_interrupt s;
          s = s\<lparr>uptime := uptime s + 1\<rparr>;
          s = psw_restore_interrupt psw s
      in handle_callouts s)"

section \<open>Time slices\<close>

definition timer_update_thread_time :: "kst \<Rightarrow> kres" where
  "timer_update_thread_time s =
     (let t = current s;
          (psw, s) = psw_disable_and_save_interrupt s
      in if t = idle_refer_idle_thread then Ok (Returned 0, psw_restore_interrupt psw s)
         else if \<not> thr_is_round_robin_thread t s then Ok (Returned 0, psw_restore_interrupt psw s)
         else
           (let s = (if 0 < slice (thrs s t) then upd_thr t (\<lambda>r. r\<lparr>slice := slice r - 1\<rparr>) s else s)
            in if slice (thrs s t) = 0
               then
                 (let s = upd_thr t (\<lambda>r. r\<lparr>slice := CONFIG_TIMER_TIME_SLICE\<rparr>) s;
                      s = sched_rotate_queue s
                  in obind (sched_schedule s)
                       (\<lambda>(r, s). case r of
                           Switched \<Rightarrow> Ok (Switched, push_frame t (FThreadTime psw) s)
                         | Returned _ \<Rightarrow> Ok (Returned 0, psw_restore_interrupt psw s)))
               else Ok (Returned 0, psw_restore_interrupt psw s)))"

section \<open>Delays\<close>

definition delay_resume :: "bool \<Rightarrow> int \<Rightarrow> kst \<Rightarrow> kres" where
  "delay_resume psw reason s =
     (let s = psw_restore_interrupt psw s
      in obind (kassert (reason = uint WQUE_REASON_WAKEUP))
           (\<lambda>_. obind (kassert (\<not> list_is_linked (lnk s) (CoLink (current s))))
             (\<lambda>_. Ok (Returned 0, s))))"

definition thr_delay :: "u32 \<Rightarrow> kst \<Rightarrow> kres" where
  "thr_delay expire_ms s =
     (let t = current s;
          s = wque_init_wait_queue (DlyWq t) s;
          rel_expire = (ucast (expire_ms div CONFIG_TIMER_INTERVAL_MS) :: u64)
      in if rel_expire = 0 then Ok (Returned 0, s)
         else
           (let s = callout_ent_init t (Some (Thr_delay_callout (DlyWq t))) s;
                (psw, s) = psw_disable_and_save_interrupt s
            in obind (callout_add t rel_expire s)
                 (\<lambda>(_, s). obind (wque_wait_on_queue (DlyWq t) 0 s)
                   (\<lambda>(r, s). case r of
                       Switched \<Rightarrow> Ok (Switched, push_frame t (FDelay psw) s)
                     | Returned reason \<Rightarrow> delay_resume psw reason s))))"

definition thr_handle_task_exception_handler :: "kst \<Rightarrow> kres" where
  "thr_handle_task_exception_handler s = sched_delay_disptach s"

end
