(* ===== verification/Ksystem.thy ===== *)
theory Ksystem
  imports Ktimer
begin

text \<open>
  The kernel as a whole: resuming a dispatched thread, the operations a thread can perform, the step
  relation and its invariant.  A step either runs an operation for the current thread or, when the
  current thread was suspended inside the kernel, the rest of what it was doing.
\<close>

section \<open>Resuming a suspended thread\<close>

text \<open>
  What each frame does once the call it made returned \<open>v\<close>.
\<close>

fun frame_tail :: "frame \<Rightarrow> int \<Rightarrow> kst \<Rightarrow> kres" where
  "frame_tail (FSched psw) v s = Ok (Returned 0, sched_resume psw s)"
| "frame_tail (FWait wq d psw) v s =
     (case wque_wait_resume wq d psw s of (reason, s) \<Rightarrow> Ok (Returned (uint reason), s))"
| "frame_tail (FWakeup psw) v s = Ok (Returned 0, psw_restore_interrupt psw s)"
| "frame_tail (FHold m d psw) v s = hold_resume m d psw v s"
| "frame_tail (FRelease m psw) v s = Ok (Returned 0, release_resume m psw s)"
| "frame_tail (FDestroy m psw) v s = Ok (Returned 0, destroy_resume m psw s)"
| "frame_tail (FWaitEvRelease d wq m psw) v s = wait_ev_sched d wq m psw s"
| "frame_tail (FWaitEvSched d wq m psw) v s = wait_ev_hold d wq m psw s"
| "frame_tail (FWaitEvHold d wq m psw) v s = wait_ev_end d wq m psw s"
| "frame_tail (FReapAdd psw) v s = Ok (Returned 0, psw_restore_interrupt psw s)"
| "frame_tail (FExit psw) v s = exit_resume psw s"
| "frame_tail (FThreadTime psw) v s = Ok (Returned 0, psw_restore_interrupt psw s)"
| "frame_tail (FCallouts psw) v s = call_expired (current s) psw (psw_disable_interrupt s)"
| "frame_tail (FDelay psw) v s = delay_resume psw v s"
| "frame_tail (FReaper psw) v s = Ok (Returned 0, psw_restore_interrupt psw s)"
| "frame_tail (FIdle psw) v s = Ok (Returned 0, psw_restore_interrupt psw s)"
| "frame_tail FStart v s = Ok (Returned 0, psw_enable_interrupt s)"

definition append_frames :: "thr \<Rightarrow> frame list \<Rightarrow> kst \<Rightarrow> kst" where
  "append_frames t fs = upd_thr t (\<lambda>r. r\<lparr>kstack := kstack r @ fs\<rparr>)"

fun resume_frames :: "frame list \<Rightarrow> int \<Rightarrow> kst \<Rightarrow> kres" where
  "resume_frames [] v s = Ok (Returned v, s)"
| "resume_frames (f # fs) v s =
     obind (frame_tail f v s)
       (\<lambda>(r, s'). case r of
           Returned v' \<Rightarrow> resume_frames fs v' s'
         | Switched \<Rightarrow> Ok (Switched, append_frames (current s) fs s'))"

definition resume_current :: "kst \<Rightarrow> kres" where
  "resume_current s =
     (let t = current s; fs = kstack (thrs s t)
      in resume_frames fs 0 (upd_thr t (\<lambda>r. r\<lparr>kstack := []\<rparr>) s))"

section \<open>Operations and steps\<close>

datatype kop =
    Hold mtx | TryHold mtx | Release mtx | WaitOn nat | WaitEvent nat mtx | Wakeup nat
  | Exit u64 | Create thr u64 u64 "thread_attr option" | Reap | IdleTurn | Yield | RotateQ | Slice

fun kop_call :: "kop \<Rightarrow> kst \<Rightarrow> kres" where
  "kop_call (Hold m) s = mutex_hold m 0 s"
| "kop_call (TryHold m) s = (case mutex_try_hold m s of (rc, s) \<Rightarrow> Ok (Returned rc, s))"
| "kop_call (Release m) s = mutex_release m s"
| "kop_call (WaitOn n) s = wque_wait_on_queue (Wq n) 0 s"
| "kop_call (WaitEvent n m) s = wque_wait_on_event_with_mutex (Wq n) m 0 s"
| "kop_call (Wakeup n) s = wque_wakeup (Wq n) WQUE_REASON_WAKEUP s"
| "kop_call (Exit code) s = thr_exit_thread code s"
| "kop_call (Create t stk i at) s =
     (case thr_create_thread (Some stk) (Some t) i at s of ((rc, _), s) \<Rightarrow> Ok (Returned rc, s))"
| "kop_call Reap s = reaper_turn s"
| "kop_call IdleTurn s = idle_turn s"
| "kop_call Yield s = sched_schedule s"
| "kop_call RotateQ s = Ok (Returned 0, sched_rotate_queue s)"
| "kop_call Slice s = timer_update_thread_time s"

text \<open>
  Which operations a thread may call: the idle thread does not block or exit, and the allocator
  hands out a structure that is not in use.
\<close>

fun kop_allowed :: "kop \<Rightarrow> kst \<Rightarrow> bool" where
  "kop_allowed (Create t stk i at) s = (t \<notin> live s)"
| "kop_allowed (TryHold m) s = True"
| "kop_allowed (Release m) s = True"
| "kop_allowed (Wakeup n) s = True"
| "kop_allowed IdleTurn s = True"
| "kop_allowed Yield s = True"
| "kop_allowed RotateQ s = True"
| "kop_allowed Slice s = True"
| "kop_allowed _ s = (current s \<noteq> idle_refer_idle_thread)"

inductive kstep :: "kst \<Rightarrow> kst \<Rightarrow> bool" where
  call: "kstack (thrs s (current s)) = [] \<Longrightarrow> kop_allowed c s \<Longrightarrow> kop_call c s = Ok (r, s') \<Longrightarrow> kstep s s'"
| resume: "kstack (thrs s (current s)) \<noteq> [] \<Longrightarrow> resume_current s = Ok (r, s') \<Longrightarrow> kstep s s'"

section \<open>Boot\<close>

text \<open>The static data before \<^verbatim>\<open>kern_init\<close>: list heads and nodes linked to themselves, no thread but idle.\<close>

definition kst0 :: kst where
  "kst0 = \<lparr>lnk = (\<lambda>x. \<lparr>l_prev = x, l_next = x\<rparr>), bitmap = 0, thrs = (\<lambda>_. thr_zero),
     live = {idle_refer_idle_thread}, current = idle_refer_idle_thread, psw_if = False,
     wq_reason = (\<lambda>_. 0), ent_thr = (\<lambda>_. None), m_count = (\<lambda>_. 0), m_owner = (\<lambda>_. None), uptime = 0,
     co_expire = (\<lambda>_. 0), co_fn = (\<lambda>_. None)\<rparr>"

definition kern_init :: "u64 option \<Rightarrow> thr option \<Rightarrow> kst \<Rightarrow> kst" where
  "kern_init stk mem s =
     (let s = idle_init_idle s;
          s = sched_init s;
          s = reaper_init_thread stk mem s
      in idle_loop_init s)"

text \<open>The states the kernel reaches after boot; the allocator never hands out the idle thread.\<close>

definition boots :: "thr option \<Rightarrow> bool" where
  "boots mem = (mem \<noteq> Some idle_refer_idle_thread)"

definition kreach :: "kst \<Rightarrow> bool" where
  "kreach s = (\<exists>stk mem. boots mem \<and> kstep\<^sup>*\<^sup>* (kern_init stk mem kst0) s)"

section \<open>The system invariant\<close>

fun ok_frame :: "thr \<Rightarrow> frame \<Rightarrow> bool" where
  "ok_frame t (FHold _ _ _) = (t \<noteq> idle_refer_idle_thread)"
| "ok_frame t (FWaitEvRelease _ _ _ _) = (t \<noteq> idle_refer_idle_thread)"
| "ok_frame t (FWaitEvSched _ _ _ _) = (t \<noteq> idle_refer_idle_thread)"
| "ok_frame t (FWaitEvHold _ _ _ _) = (t \<noteq> idle_refer_idle_thread)"
| "ok_frame t (FDestroy _ _) = False"
| "ok_frame t (FCallouts _) = False"
| "ok_frame t (FDelay _) = False"
| "ok_frame t _ = True"

text \<open>A thread may sleep on a mutex only while it is taken, and the reaper only with nothing to reap.\<close>

fun sleep_cond :: "kst \<Rightarrow> kabs \<Rightarrow> wqid \<Rightarrow> bool" where
  "sleep_cond s a (MtxWq m) = (0 < m_count s m)"
| "sleep_cond s a ReaperWq = (a_reap a = [])"
| "sleep_cond s a _ = True"

definition live_ok :: "kst \<Rightarrow> kabs \<Rightarrow> bool" where
  "live_ok s a =
     ((\<forall>t. thr_queued a t \<longrightarrow> t \<in> live s) \<and> (\<forall>w. fst ` set (a_wq a w) \<subseteq> live s) \<and>
      idle_refer_idle_thread \<in> live s)"

definition stack_ok :: "kst \<Rightarrow> bool" where
  "stack_ok s =
     (\<forall>t. \<not> dispatch_delayed (preempt (thrs s t)) \<and> (\<forall>f \<in> set (kstack (thrs s t)). ok_frame t f))"

definition reap_ok :: "kst \<Rightarrow> kabs \<Rightarrow> bool" where
  "reap_ok s a =
     (\<forall>t \<in> set (a_reap a). status (thrs s t) = THR_TSTATE_DEAD \<and> t \<noteq> idle_refer_idle_thread)"

definition qinv :: "wqid set \<Rightarrow> kst \<Rightarrow> kabs \<Rightarrow> bool" where
  "qinv X s a =
     (kinv s a \<and> stack_ok s \<and> live_ok s a \<and> reap_ok s a \<and>
      (\<forall>w. w \<notin> X \<and> a_wq a w \<noteq> [] \<longrightarrow> sleep_cond s a w))"

definition run_ok :: "kst \<Rightarrow> kabs \<Rightarrow> bool" where
  "run_ok s a =
     (current s = idle_refer_idle_thread \<or> (\<exists>p < RDQ_PRIORITY_MAX. current s \<in> set (a_rq a p)))"

definition sysinv :: "kst \<Rightarrow> kabs \<Rightarrow> bool" where
  "sysinv s a = (qinv {} s a \<and> run_ok s a)"

definition good :: "kst \<Rightarrow> bool" where
  "good s = (\<exists>a. sysinv s a)"

text \<open>A call that returns, in a state that satisfies the predicate.\<close>

definition post :: "(ret \<Rightarrow> kst \<Rightarrow> bool) \<Rightarrow> kres \<Rightarrow> bool" where
  "post Q c = (\<exists>r s. c = Ok (r, s) \<and> Q r s)"

lemma postI: "c = Ok (r, s) \<Longrightarrow> Q r s \<Longrightarrow> post Q c"
  by (simp add: post_def)

lemma post_Ok [simp]: "post Q (Ok (r, s)) = Q r s"
  by (simp add: post_def)

lemma post_is_ok: "post Q c \<Longrightarrow> is_ok c"
  by (auto simp: post_def)

lemma post_if: "(b \<Longrightarrow> post Q c) \<Longrightarrow> (\<not> b \<Longrightarrow> post Q c') \<Longrightarrow> post Q (if b then c else c')"
  by simp

lemma post_obind:
  assumes "post Q c" "\<And>r s. Q r s \<Longrightarrow> post R (f (r, s))"
  shows "post R (obind c f)"
  using assms by (auto simp: post_def)

lemma post_mono: "post Q c \<Longrightarrow> (\<And>r s. Q r s \<Longrightarrow> R r s) \<Longrightarrow> post R c"
  by (auto simp: post_def)

end
