(* ===== verification/Ksafety.thy ===== *)
theory Ksafety
  imports Ksystem
begin

text \<open>
  Every operation and every resumed frame keeps the system invariant and returns: no assertion of the
  kernel fails, no list is corrupted, and no call gets stuck.
\<close>

section \<open>Elementary updates\<close>

lemma run_okI: "a_next a = current s \<Longrightarrow> rdq_ok s a \<Longrightarrow> run_ok s a"
proof -
  assume n: "a_next a = current s" and ok: "rdq_ok s a"
  show "run_ok s a"
  proof (cases "rq_select (a_rq a)")
    case None
    then show ?thesis using n by (simp add: a_next_def run_ok_def)
  next
    case (Some t)
    then obtain p xs where "p < RDQ_PRIORITY_MAX" "a_rq a p = t # xs" using rq_select_someD by metis
    then show ?thesis using n Some by (auto simp: a_next_def run_ok_def)
  qed
qed

lemma qinv_sched_eq:
  assumes q: "qinv X s a" and e: "sched_eq s s'" and st: "stack_ok s'"
  shows "qinv X s' a"
proof -
  have "live s' = live s" using e by (simp add: sched_eq_def)
  moreover have "sleep_cond s' a w = sleep_cond s a w" for w
    using sched_eqD(5) [OF e] by (cases w) simp_all
  ultimately show ?thesis
    using q st kinv_cong [OF e] sched_eqD(7) [OF e] by (simp add: qinv_def live_ok_def reap_ok_def)
qed

lemma stack_ok_upd:
  assumes "stack_ok s"
  shows "stack_ok (psw_restore_interrupt b s)" "stack_ok (s\<lparr>current := n\<rparr>)" "stack_ok (s\<lparr>psw_if := b\<rparr>)"
    "stack_ok (stay s)" "stack_ok (switch_to n s)" "stack_ok (set_status t x s)"
    "ok_frame t f \<Longrightarrow> stack_ok (push_frame t f s)"
proof -
  show "stack_ok (stay s)" using assms by (simp add: stack_ok_def stay_preempt_delayed)
  show "stack_ok (switch_to n s)"
    using assms by (auto simp: stack_ok_def switch_to_def Let_def push_frame_def upd_preempt_def)
qed (use assms in \<open>auto simp: stack_ok_def split: if_splits\<close>)

lemma qinv_upd:
  assumes "qinv X s a"
  shows "qinv X (psw_restore_interrupt b s) a" "qinv X (s\<lparr>psw_if := b\<rparr>) a"
    "qinv X (stay s) a" "qinv X (switch_to n s) a" "ok_frame t f \<Longrightarrow> qinv X (push_frame t f s) a"
proof -
  have st: "stack_ok s" using assms by (simp add: qinv_def)
  show "qinv X (psw_restore_interrupt b s) a" "qinv X (s\<lparr>psw_if := b\<rparr>) a"
    "qinv X (stay s) a" "qinv X (switch_to n s) a"
    using stack_ok_upd [OF st] by (auto intro!: qinv_sched_eq [OF assms])
  show "qinv X (push_frame t f s) a" if "ok_frame t f"
    using stack_ok_upd(7) [OF st that] by (auto intro!: qinv_sched_eq [OF assms])
qed

lemma qinv_mono: "qinv X s a \<Longrightarrow> X \<subseteq> Y \<Longrightarrow> qinv Y s a"
  by (auto simp: qinv_def)

lemma qinv_kinv: "qinv X s a \<Longrightarrow> kinv s a"
  by (simp add: qinv_def)

lemma qinv_nodelay: "qinv X s a \<Longrightarrow> \<not> dispatch_delayed (preempt (thrs s t))"
  by (simp add: qinv_def stack_ok_def)

lemma sysinv_upd:
  assumes "sysinv s a"
  shows "sysinv (psw_restore_interrupt b s) a" "sysinv (s\<lparr>psw_if := b\<rparr>) a"
    "ok_frame t f \<Longrightarrow> sysinv (push_frame t f s) a"
  using assms qinv_upd [of "{}" s a] by (simp_all add: sysinv_def run_ok_def)

lemma good_upd:
  assumes "good s"
  shows "good (psw_restore_interrupt b s)" "good (s\<lparr>psw_if := b\<rparr>)" "ok_frame t f \<Longrightarrow> good (push_frame t f s)"
    "good (psw_enable_interrupt s)" "good (psw_disable_interrupt s)"
  using assms sysinv_upd unfolding good_def psw_enable_interrupt_def psw_disable_interrupt_def by blast+

text \<open>Fields the invariant does not read.\<close>

lemma good_owner: "good s \<Longrightarrow> good (s\<lparr>m_owner := f\<rparr>)"
proof -
  assume "good s"
  then obtain a where a: "sysinv s a" by (auto simp: good_def)
  have "sleep_cond (s\<lparr>m_owner := f\<rparr>) a w = sleep_cond s a w" for w by (cases w) simp_all
  then have "sysinv (s\<lparr>m_owner := f\<rparr>) a"
    using a by (simp add: sysinv_def qinv_def run_ok_def kinv_def rdq_ok_def wait_ok_def stack_ok_def
        live_ok_def reap_ok_def)
  then show ?thesis by (auto simp: good_def)
qed

text \<open>The result every kernel call has: the invariant, and the same thread unless it was switched.\<close>

definition fine :: "thr \<Rightarrow> ret \<Rightarrow> kst \<Rightarrow> bool" where
  "fine t r s = (good s \<and> (r \<noteq> Switched \<longrightarrow> current s = t))"

lemma fineI: "sysinv s a \<Longrightarrow> (r \<noteq> Switched \<Longrightarrow> current s = t) \<Longrightarrow> fine t r s"
  by (auto simp: fine_def good_def)

lemma fine_returned: "good s \<Longrightarrow> fine (current s) (Returned v) s"
  by (simp add: fine_def)

section \<open>Dispatching\<close>

lemma sched_post:
  assumes q: "qinv {} s a"
  shows "post (\<lambda>r s'. sysinv s' a \<and> m_count s' = m_count s \<and>
      (r = Returned 0 \<and> current s' = current s \<or> r = Switched) \<and>
      current s' = a_next a) (sched_schedule s)"
proof -
  have ok: "rdq_ok s a" using q by (simp add: qinv_def kinv_def)
  have d: "\<not> dispatch_delayed (preempt (thrs s (current s)))" by (rule qinv_nodelay [OF q])
  show ?thesis
  proof (cases "a_next a = current s")
    case True
    have "sysinv (stay s) a"
      using qinv_upd(3) [OF q] True run_okI [of a "stay s"] rdq_ok_cong [OF stay_eq] ok
      by (simp add: sysinv_def)
    then show ?thesis using True sched_eqD(5) [OF stay_eq [of s]]
      by (intro postI [of _ "Returned 0" "stay s"]) (simp_all add: sched_schedule_ok [OF ok])
  next
    case False
    have "sysinv (switch_to (a_next a) s) a"
      using qinv_upd(4) [OF q] run_okI [of a "switch_to (a_next a) s"] rdq_ok_cong [OF switch_to_eq] ok
      by (simp add: sysinv_def)
    then show ?thesis using False d sched_eqD(5) [OF switch_to_eq [of s]]
      by (intro postI [of _ Switched "switch_to (a_next a) s"]) (simp_all add: sched_schedule_ok [OF ok])
  qed
qed

lemma sched_qinv_good: "qinv {} s a \<Longrightarrow> post (fine (current s)) (sched_schedule s)"
  by (erule post_mono [OF sched_post]) (auto simp: fine_def good_def)

lemma sched_good: "good s \<Longrightarrow> post (fine (current s)) (sched_schedule s)"
  using sched_qinv_good unfolding good_def sysinv_def by blast

section \<open>Wake-ups\<close>

lemma thr_queued_wake:
  assumes K: "kinv s a"
  shows "thr_queued (a_wake (\<lambda>t. prio (thrs s t)) w a) t \<longleftrightarrow> thr_queued a t \<or> t \<in> fst ` set (a_wq a w)"
proof -
  have "prio (thrs s u) < RDQ_PRIORITY_MAX" if "u \<in> fst ` set (a_wq a w)" for u
    using that kinv_entry(3) [OF K] by auto
  then show ?thesis unfolding thr_queued_def a_wake_def by (auto simp: image_iff)
qed

lemma sleep_cond_wake:
  "m_count s' = m_count s \<Longrightarrow> sleep_cond s' (a_wake pr w a) v = sleep_cond s a v"
  by (cases v) (simp_all add: a_wake_def)

lemma qinv_wakeup_state:
  assumes q: "qinv X s a"
  shows "qinv (X - {w}) (wakeup_state w r s) (a_wake (\<lambda>t. prio (thrs s t)) w a)"
proof -
  let ?a = "a_wake (\<lambda>t. prio (thrs s t)) w a" and ?s = "wakeup_state w r s"
  note K = qinv_kinv [OF q]
  note W = wakeup_state_ok [OF K, where w = w and r = r]
  have st: "stack_ok ?s" using q by (simp add: qinv_def stack_ok_def W)
  have lv: "live ?s = live s" and mc: "m_count ?s = m_count s" using W(2) by (simp_all add: mid_eq_def)
  have wq: "a_wq ?a v = (if v = w then [] else a_wq a v)" for v by (simp add: a_wake_def)
  have "live_ok ?s ?a"
    using q thr_queued_wake [OF K, of w] unfolding qinv_def live_ok_def lv wq by (simp; blast)
  moreover have "reap_ok ?s ?a"
  proof -
    have "t \<notin> fst ` set (a_wq a w)" if "t \<in> set (a_reap a)" for t
      using that kinv_entry(5) [OF K] by (auto simp: thr_queued_def)
    then show ?thesis using q by (auto simp: qinv_def reap_ok_def W(8) a_wake_def)
  qed
  moreover have "sleep_cond ?s ?a v" if "v \<notin> X - {w}" "a_wq ?a v \<noteq> []" for v
    using that q sleep_cond_wake [OF mc] by (auto simp: qinv_def wq split: if_splits)
  ultimately show ?thesis using W(1) st by (simp add: qinv_def)
qed

lemma run_ok_wake: "run_ok s a \<Longrightarrow> current s' = current s \<Longrightarrow> run_ok s' (a_wake pr w a)"
  by (auto simp: run_ok_def a_wake_def)

text \<open>
  The wake-up call, from a state in which only the queue to be woken may hold threads that should
  not sleep.
\<close>

definition may_sleep :: "wqid \<Rightarrow> kst \<Rightarrow> kabs \<Rightarrow> bool" where
  "may_sleep w s a = (a_wq a w \<noteq> [] \<longrightarrow> sleep_cond s a w)"

lemma wakeup_post:
  assumes q: "qinv {w} s a"
  shows "post (\<lambda>r s'. m_count s' = m_count s \<and>
      (if a_wq a w = [] then r = Returned 0 \<and> s' = s \<and> qinv {} s a
       else sysinv s' (a_wake (\<lambda>t. prio (thrs s t)) w a) \<and>
            (r = Returned 0 \<and> current s' = current s \<or> r = Switched) \<and>
            current s' = a_next (a_wake (\<lambda>t. prio (thrs s t)) w a))) (wque_wakeup w reason s)"
proof (cases "a_wq a w = []")
  case True
  then have "qinv {} s a" using q by (auto simp: qinv_def)
  then show ?thesis using True wque_wakeup_ok [OF qinv_kinv [OF q] refl, of w reason]
    by (intro postI [of _ "Returned 0" s]) simp_all
next
  case False
  let ?a = "a_wake (\<lambda>t. prio (thrs s t)) w a" and ?s = "wakeup_state w reason s"
  note K = qinv_kinv [OF q]
  note W = wakeup_state_ok [OF K, where w = w and r = reason]
  have q1: "qinv {} ?s ?a" using qinv_wakeup_state [OF q, of w reason] by simp
  have ok: "rdq_ok ?s ?a" using q1 by (simp add: qinv_def kinv_def)
  have d: "\<not> dispatch_delayed (preempt (thrs s (current s)))" by (rule qinv_nodelay [OF q])
  have mc: "m_count ?s = m_count s" using W(2) by (simp add: mid_eq_def)
  note U = wque_wakeup_ok [OF K refl, of w reason]
  show ?thesis
  proof (cases "a_next ?a = current s")
    case True
    have "sysinv (stay ?s) ?a"
      using qinv_upd(3) [OF q1] True run_okI [of ?a "stay ?s"] rdq_ok_cong [OF stay_eq] ok
      by (simp add: sysinv_def W(3))
    then have "sysinv (psw_restore_interrupt (psw_if s) (stay ?s)) ?a" by (rule sysinv_upd)
    then show ?thesis using False True d U mc sched_eqD(5) [OF stay_eq [of ?s]]
      by (intro postI [of _ "Returned 0" "psw_restore_interrupt (psw_if s) (stay ?s)"]) (simp_all add: W(3))
  next
    case nxt: False
    have "sysinv (switch_to (a_next ?a) ?s) ?a"
      using qinv_upd(4) [OF q1] run_okI [of ?a "switch_to (a_next ?a) ?s"] rdq_ok_cong [OF switch_to_eq] ok
      by (simp add: sysinv_def)
    then have "sysinv (push_frame (current s) (FWakeup (psw_if s)) (switch_to (a_next ?a) ?s)) ?a"
      by (rule sysinv_upd) simp
    then show ?thesis using False nxt d U mc sched_eqD(5) [OF switch_to_eq [of ?s]]
      by (intro postI [of _ Switched "push_frame (current s) (FWakeup (psw_if s)) (switch_to (a_next ?a) ?s)"])
        (simp_all add: push_frame_def)
  qed
qed

section \<open>Going to sleep\<close>

lemma sysinv_ready:
  assumes "sysinv s a" "current s \<noteq> idle_refer_idle_thread"
  obtains p where "p < RDQ_PRIORITY_MAX" "current s \<in> set (a_rq a p)"
  using assms by (auto simp: sysinv_def run_ok_def)

lemma qinv_wait_pre:
  assumes q: "qinv X s a" and p: "p < RDQ_PRIORITY_MAX" and t: "current s \<in> set (a_rq a p)"
    and sl: "sleep_cond s a w"
  shows "qinv X (wait_pre w d s) (a_wait p w (current s, d) a)"
proof -
  let ?a = "a_wait p w (current s, d) a" and ?s = "wait_pre w d s"
  note K = qinv_kinv [OF q]
  have L: "links_ok (lnk s) a" using K by (simp add: kinv_def rdq_ok_def)
  have lv: "live ?s = live s" and mc: "m_count ?s = m_count s"
    using wait_pre_mid [of s w d] by (simp_all add: mid_eq_def)
  have cq: "thr_queued a (current s)" using p t by (auto simp: thr_queued_def)
  have tq: "thr_queued ?a u \<Longrightarrow> thr_queued a u" for u
    using thr_queued_a_remove [OF L p t, of u] by (simp add: thr_queued_def a_wait_def a_remove_def)
  have "live_ok ?s ?a" using q tq cq by (auto simp: qinv_def live_ok_def lv a_wait_def)
  moreover have "reap_ok ?s ?a"
  proof -
    have "current s \<notin> set (a_reap a)" by (rule links_ok_apart(2) [OF L p t])
    then show ?thesis using q by (auto simp: qinv_def reap_ok_def a_wait_def wait_pre_def Let_def)
  qed
  moreover have "sleep_cond ?s ?a v = sleep_cond s a v" for v
    by (cases v) (simp_all add: mc a_wait_def)
  ultimately show ?thesis
    using q sl wait_pre_kinv [OF K p t, of w d] by (auto simp: qinv_def stack_ok_def a_wait_def)
qed

lemma wait_post:
  assumes S: "sysinv s a" and ni: "current s \<noteq> idle_refer_idle_thread" and sl: "sleep_cond s a w"
  shows "post (\<lambda>r s'. r = Switched \<and> good s' \<and> m_count s' = m_count s) (wque_wait_on_queue w d s)"
proof -
  obtain p where p: "p < RDQ_PRIORITY_MAX" "current s \<in> set (a_rq a p)" by (rule sysinv_ready [OF S ni])
  have q: "qinv {} s a" using S by (simp add: sysinv_def)
  let ?a = "a_wait p w (current s, d) a"
  note W = wque_wait_on_queue_ok [OF qinv_kinv [OF q] p qinv_nodelay [OF q], of w d]
  have "qinv {} (wait_switch ?a w d s) ?a"
    unfolding wait_switch_def by (rule qinv_upd(5) [OF qinv_upd(4) [OF qinv_wait_pre [OF q p sl]]]) simp
  moreover have "run_ok (wait_switch ?a w d s) ?a" by (rule run_okI) (use W(2) in \<open>simp_all add: kinv_def\<close>)
  ultimately have "good (wait_switch ?a w d s)" by (auto simp: good_def sysinv_def)
  then show ?thesis using mid_eqD(1) [OF wait_switch_mid(1), of ?a w d s] by (simp add: W(1))
qed

lemma unwait_good:
  assumes "good s"
  shows "good (wque_remove_entry w (current s, d) s)"
proof -
  obtain a where S: "sysinv s a" using assms by (auto simp: good_def)
  then have q: "qinv {} s a" by (simp add: sysinv_def)
  note K = qinv_kinv [OF q]
  have no: "(current s, d) \<notin> set (a_wq a v)" for v
  proof
    assume e: "(current s, d) \<in> set (a_wq a v)"
    then have "current s \<noteq> idle_refer_idle_thread" "\<not> thr_queued a (current s)"
      using kinv_entry(4,5) [OF K] by blast+
    then show False using S by (auto simp: sysinv_def run_ok_def thr_queued_def)
  qed
  have e: "a_unwait w (current s, d) a = a" using no by (simp add: a_unwait_def remove1_idem)
  have "kinv (wque_remove_entry w (current s, d) s) a"
    using kinv_unwait [OF K, of "(current s, d)" w] no by (simp add: e)
  moreover have "sleep_cond (wque_remove_entry w (current s, d) s) a v = sleep_cond s a v" for v
    by (cases v) simp_all
  ultimately have "sysinv (wque_remove_entry w (current s, d) s) a"
    using S by (simp add: sysinv_def qinv_def run_ok_def stack_ok_def live_ok_def reap_ok_def)
  then show ?thesis by (auto simp: good_def)
qed

lemma wait_resume_good:
  "good s \<Longrightarrow> wque_wait_resume w d psw s = (r, s') \<Longrightarrow> good s' \<and> current s' = current s"
  using unwait_good [of s w d] good_upd(1) by (auto simp: wque_wait_resume_def Let_def)

section \<open>Mutexes\<close>

lemma qinv_count:
  assumes q: "qinv X s a" and c: "MtxWq m \<notin> X \<Longrightarrow> a_wq a (MtxWq m) \<noteq> [] \<Longrightarrow> 0 < c"
  shows "qinv X (s\<lparr>m_count := (m_count s)(m := c)\<rparr>) a"
proof -
  have "sleep_cond (s\<lparr>m_count := (m_count s)(m := c)\<rparr>) a w =
      (if w = MtxWq m then 0 < c else sleep_cond s a w)" for w by (cases w) simp_all
  then show ?thesis
    using q c by (auto simp: qinv_def kinv_def rdq_ok_def wait_ok_def stack_ok_def live_ok_def reap_ok_def)
qed

lemma take_good:
  assumes "good s" "m_count s m = 0"
  shows "good (mutex_take m s)"
proof -
  obtain a where S: "sysinv s a" using assms(1) by (auto simp: good_def)
  have "qinv {} (s\<lparr>m_count := (m_count s)(m := m_count s m + 1)\<rparr>) a"
    by (rule qinv_count) (use S assms(2) in \<open>simp_all add: sysinv_def\<close>)
  then have "sysinv (s\<lparr>m_count := (m_count s)(m := m_count s m + 1)\<rparr>) a"
    using S by (simp add: sysinv_def run_ok_def)
  then have "good (s\<lparr>m_count := (m_count s)(m := m_count s m + 1)\<rparr>)" by (auto simp: good_def)
  from good_owner [OF this, of "(m_owner s)(m := Some (current s))"] show ?thesis
    by (simp add: mutex_take_def)
qed

lemma hold_loop_post:
  assumes g: "good s" and ni: "current s \<noteq> idle_refer_idle_thread"
  shows "post (fine (current s)) (hold_loop m d psw s)"
proof (cases "m_count s m = 0")
  case True
  then show ?thesis using take_good [OF g True] good_upd(1)
    by (intro postI [OF hold_loop_free [OF True]]) (simp add: fine_def mutex_take_def)
next
  case False
  obtain a where S: "sysinv s a" using g by (auto simp: good_def)
  obtain p where p: "p < RDQ_PRIORITY_MAX" "current s \<in> set (a_rq a p)" by (rule sysinv_ready [OF S ni])
  have q: "qinv {} s a" using S by (simp add: sysinv_def)
  have c: "0 < m_count s m" using False by (simp add: word_gt_0)
  obtain s' where s': "wque_wait_on_queue (MtxWq m) d s = Ok (Switched, s')" "good s'"
    using wait_post [OF S ni, of "MtxWq m" d] c by (auto simp: post_def)
  have "hold_loop m d psw s = Ok (Switched, push_frame (current s) (FHold m d psw) s')"
    by (subst hold_loop_unfold) (simp add: hold_turn_def c s'(1))
  then show ?thesis using good_upd(3) [OF s'(2), of "current s" "FHold m d psw"] ni
    by (simp add: fine_def)
qed

lemma hold_post:
  assumes "good s" "current s \<noteq> idle_refer_idle_thread"
  shows "post (fine (current s)) (mutex_hold m d s)"
  using hold_loop_post [OF good_upd(2) [OF assms(1)], of False m d "psw_if s"] assms(2)
  by (simp add: mutex_hold_def psw_disable_and_save_interrupt_def)

lemma post_sw:
  assumes c: "post Q c" and ret: "\<And>v s. Q (Returned v) s \<Longrightarrow> post (fine t) (g v s)"
    and sw: "\<And>s. Q Switched s \<Longrightarrow> good s" and f: "ok_frame t f"
  shows "post (fine t) (obind c (\<lambda>(r, s). case r of
      Switched \<Rightarrow> Ok (Switched, push_frame t f s) | Returned v \<Rightarrow> g v s))"
proof (rule post_obind [OF c], simp split: ret.split, intro conjI allI impI)
  fix r s assume Q: "Q r s"
  show "post (fine t) (g v s)" if "r = Returned v" for v using ret Q that by simp
  show "fine t Switched (push_frame t f s)" if "r = Switched"
    using good_upd(3) [OF sw f] Q that by (simp add: fine_def)
qed

lemma release_resume_good: "good s \<Longrightarrow> good (release_resume m psw s)"
  unfolding release_resume_def by (intro good_upd(1) good_owner)

lemma qinv_owner: "qinv X s a \<Longrightarrow> qinv X (s\<lparr>m_owner := f\<rparr>) a"
proof -
  have "sleep_cond (s\<lparr>m_owner := f\<rparr>) a w = sleep_cond s a w" for w by (cases w) simp_all
  then show "qinv X s a \<Longrightarrow> qinv X (s\<lparr>m_owner := f\<rparr>) a"
    by (simp add: qinv_def kinv_def rdq_ok_def wait_ok_def stack_ok_def live_ok_def reap_ok_def)
qed

text \<open>
  Releasing from a state in which the running thread need not be ready: this is how
  \<^verbatim>\<open>wque_wait_on_event_with_mutex\<close> calls it.
\<close>

lemma release_qinv:
  assumes q: "qinv {} s a"
  shows "post (\<lambda>r s'. case r of
      Returned _ \<Rightarrow> current s' = current s \<and> (\<exists>a'. qinv {} s' a' \<and> (run_ok s a \<longrightarrow> run_ok s' a'))
    | Switched \<Rightarrow> good s') (mutex_release m s)"
proof -
  let ?s1 = "s\<lparr>psw_if := False, m_count := (m_count s)(m := m_count s m - 1)\<rparr>"
  have q1: "qinv {MtxWq m} ?s1 a"
    using qinv_count [OF qinv_mono [OF qinv_upd(2) [OF q, of False], of "{MtxWq m}"], of m] by simp
  note W = wakeup_post [OF q1, of WQUE_REASON_WAKEUP]
  let ?Q = "\<lambda>r s'. (r = Returned 0 \<and> current s' = current s \<and> (\<exists>a'. qinv {} s' a' \<and> (run_ok s a \<longrightarrow> run_ok s' a'))
       \<or> r = Switched \<and> good s')"
  have w: "post ?Q (wque_wakeup (MtxWq m) WQUE_REASON_WAKEUP ?s1)"
  proof (rule post_mono [OF W], goal_cases)
    case (1 r s')
    then show ?case
    proof (cases "a_wq a (MtxWq m) = []")
      case True
      then have "r = Returned 0" "current s' = current s" "qinv {} s' a" "run_ok s a \<longrightarrow> run_ok s' a"
        using 1 by (auto simp: run_ok_def)
      then show ?thesis by blast
    next
      case False
      then have "sysinv s' (a_wake (\<lambda>t. prio (thrs ?s1 t)) (MtxWq m) a)"
        "r = Returned 0 \<and> current s' = current s \<or> r = Switched" using 1 by auto
      then show ?thesis unfolding good_def sysinv_def by blast
    qed
  qed
  have "mutex_release m s = obind (wque_wakeup (MtxWq m) WQUE_REASON_WAKEUP ?s1)
      (\<lambda>(r, s'). case r of Switched \<Rightarrow> Ok (Switched, push_frame (current s) (FRelease m (psw_if s)) s')
         | Returned _ \<Rightarrow> Ok (Returned 0, release_resume m (psw_if s) s'))"
    by (simp add: mutex_release_def psw_disable_and_save_interrupt_def)
  moreover have "qinv {} (release_resume m b s') a' \<and> (run_ok s' a' \<longrightarrow> run_ok (release_resume m b s') a') \<and>
      current (release_resume m b s') = current s'" if "qinv {} s' a'" for s' a' b
    using qinv_upd(1) [OF qinv_owner [OF that]] by (simp add: release_resume_def run_ok_def)
  ultimately show ?thesis
    using w good_upd(3) [of _ "current s" "FRelease m (psw_if s)"] by (fastforce simp: post_def)
qed

lemma release_post:
  assumes "good s"
  shows "post (fine (current s)) (mutex_release m s)"
proof -
  obtain a where "sysinv s a" using assms by (auto simp: good_def)
  then have q: "qinv {} s a" "run_ok s a" by (simp_all add: sysinv_def)
  show ?thesis
  proof (rule post_mono [OF release_qinv [OF q(1), of m]])
    fix r s'
    show "(case r of
        Returned _ \<Rightarrow> current s' = current s \<and> (\<exists>a'. qinv {} s' a' \<and> (run_ok s a \<longrightarrow> run_ok s' a'))
      | Switched \<Rightarrow> good s') \<Longrightarrow> fine (current s) r s'"
      using q(2) by (cases r) (auto simp: fine_def good_def sysinv_def)
  qed
qed

lemma try_hold_good:
  assumes "good s"
  shows "good (snd (mutex_try_hold m s))" "current (snd (mutex_try_hold m s)) = current s"
proof -
  have "good (mutex_take m (s\<lparr>psw_if := False\<rparr>))" if "m_count s m = 0"
    by (rule take_good [OF good_upd(2) [OF assms]]) (simp add: that)
  then show "good (snd (mutex_try_hold m s))"
    using assms good_upd(1,2) by (simp add: mutex_try_hold_def Let_def psw_disable_and_save_interrupt_def word_gt_0)
  show "current (snd (mutex_try_hold m s)) = current s"
    by (simp add: mutex_try_hold_def Let_def psw_disable_and_save_interrupt_def mutex_take_def)
qed

section \<open>Waiting for an event\<close>

lemma wait_ev_end_post: "good s \<Longrightarrow> post (fine (current s)) (wait_ev_end d w m psw s)"
  using good_upd(1) [OF unwait_good] by (simp add: wait_ev_end_def Let_def fine_def)

lemma wait_ev_hold_post:
  assumes "good s" "current s \<noteq> idle_refer_idle_thread"
  shows "post (fine (current s)) (wait_ev_hold d w m psw s)"
  unfolding wait_ev_hold_def
proof (rule post_sw [OF hold_post [OF assms]])
  fix v s' assume "fine (current s) (Returned v) s'"
  then have "good s'" "current s' = current s" by (auto simp: fine_def)
  then show "post (fine (current s)) (wait_ev_end d w m psw s')" using wait_ev_end_post by metis
qed (use assms(2) in \<open>auto simp: fine_def\<close>)

lemma wait_ev_sched_post:
  assumes q: "qinv {} s a" and ni: "current s \<noteq> idle_refer_idle_thread"
  shows "post (fine (current s)) (wait_ev_sched d w m psw s)"
  unfolding wait_ev_sched_def
proof (rule post_sw [OF sched_post [OF q]])
  fix v s' assume "sysinv s' a \<and> m_count s' = m_count s \<and>
    (Returned v = Returned 0 \<and> current s' = current s \<or> Returned v = Switched) \<and> current s' = a_next a"
  then have "good s'" "current s' = current s" by (auto simp: good_def)
  then show "post (fine (current s)) (wait_ev_hold d w m psw s')" using wait_ev_hold_post ni by metis
qed (use ni in \<open>auto simp: good_def\<close>)

lemma wait_event_unfold:
  "wque_wait_on_event_with_mutex w m d s =
     obind (mutex_release m (wait_pre w d s))
       (\<lambda>(r, s'). case r of
           Switched \<Rightarrow> Ok (Switched, push_frame (current s) (FWaitEvRelease d w m (psw_if s)) s')
         | Returned _ \<Rightarrow> wait_ev_sched d w m (psw_if s) s')"
  by (simp add: wque_wait_on_event_with_mutex_def wait_pre_def Let_def psw_disable_and_save_interrupt_def
      cong: ret.case_cong)

lemma wait_event_post:
  assumes g: "good s" and ni: "current s \<noteq> idle_refer_idle_thread" and w: "\<And>a. sleep_cond s a w"
  shows "post (fine (current s)) (wque_wait_on_event_with_mutex w m d s)"
proof -
  obtain a where S: "sysinv s a" using g by (auto simp: good_def)
  obtain p where p: "p < RDQ_PRIORITY_MAX" "current s \<in> set (a_rq a p)" by (rule sysinv_ready [OF S ni])
  have q: "qinv {} (wait_pre w d s) (a_wait p w (current s, d) a)"
    by (rule qinv_wait_pre [OF _ p w]) (use S in \<open>simp add: sysinv_def\<close>)
  show ?thesis unfolding wait_event_unfold
  proof (rule post_sw [OF release_qinv [OF q, of m]], goal_cases)
    case (1 v s')
    then obtain a' where "qinv {} s' a'" "current s' = current s" by auto
    then show ?case using wait_ev_sched_post [of s' a'] ni by metis
  qed (use ni in auto)
qed

section \<open>Termination of a thread\<close>

lemma wakeup_good:
  assumes "good s"
  shows "post (fine (current s)) (wque_wakeup w reason s)"
proof -
  obtain a where S: "sysinv s a" using assms by (auto simp: good_def)
  then have q: "qinv {w} s a" using qinv_mono [of "{}" s a "{w}"] by (simp add: sysinv_def)
  show ?thesis
    by (rule post_mono [OF wakeup_post [OF q]]) (use S in \<open>auto simp: fine_def good_def split: if_splits\<close>)
qed

definition a_exit :: "nat \<Rightarrow> thr \<Rightarrow> kabs \<Rightarrow> kabs" where
  "a_exit p t a = (a_remove p t a)\<lparr>a_reap := a_reap a @ [t]\<rparr>"

text \<open>The state in which the reaper is woken.\<close>

definition exit_pre :: "u64 \<Rightarrow> kst \<Rightarrow> kst" where
  "exit_pre code s =
     (let t = current s;
          s = upd_thr t (\<lambda>r. r\<lparr>exit_code := code\<rparr>) (rdq_remove_thread t (s\<lparr>psw_if := False\<rparr>))
      in thr_add_thread_queue ReapHead t (set_status t THR_TSTATE_DEAD s))"

lemma psw_disable_id: "\<not> psw_if s \<Longrightarrow> psw_disable_and_save_interrupt s = (False, s)"
  by (simp add: psw_disable_and_save_interrupt_def)

lemma set_status_twice: "set_status t x (set_status t y s) = set_status t x s"
  by (simp add: set_status_def upd_thr_def)

lemma exit_unfold:
  "thr_exit_thread code s =
     obind (obind (wque_wakeup ReaperWq WQUE_REASON_WAKEUP (exit_pre code s))
       (\<lambda>(r, s'). case r of
           Switched \<Rightarrow> Ok (Switched, push_frame (current s) (FReapAdd False) s')
         | Returned _ \<Rightarrow> Ok (Returned 0, psw_restore_interrupt False s')))
       (\<lambda>(r, s'). case r of
           Switched \<Rightarrow> Ok (Switched, push_frame (current s) (FExit (psw_if s)) s')
         | Returned _ \<Rightarrow> exit_resume (psw_if s) s')"
proof -
  have "reaper_add_exit_thread (current s)
      (set_status (current s) THR_TSTATE_EXIT
        (upd_thr (current s) (\<lambda>r. r\<lparr>exit_code := code\<rparr>) (rdq_remove_thread (current s) (s\<lparr>psw_if := False\<rparr>)))) =
    obind (wque_wakeup ReaperWq WQUE_REASON_WAKEUP (exit_pre code s))
       (\<lambda>(r, s'). case r of
           Switched \<Rightarrow> Ok (Switched, push_frame (current s) (FReapAdd False) s')
         | Returned _ \<Rightarrow> Ok (Returned 0, psw_restore_interrupt False s'))"
    by (simp add: reaper_add_exit_thread_def exit_pre_def Let_def psw_disable_id set_status_twice)
  then show ?thesis
    by (simp add: thr_exit_thread_def Let_def psw_disable_and_save_interrupt_def)
qed

lemma qinv_exit_pre:
  assumes S: "sysinv s a" and p: "p < RDQ_PRIORITY_MAX" and t: "current s \<in> set (a_rq a p)"
  shows "qinv {ReaperWq} (exit_pre code s) (a_exit p (current s) a)"
proof -
  let ?t = "current s" and ?a1 = "a_remove p (current s) a" and ?a = "a_exit p (current s) a"
  let ?s = "exit_pre code s" and ?h = "list_del (lnk s) (ThrLink (current s))"
  have q: "qinv {} s a" using S by (simp add: sysinv_def)
  note K = qinv_kinv [OF q]
  have L: "links_ok (lnk s) a" using K by (simp add: kinv_def rdq_ok_def)
  have R1: "rdq_ok (rdq_remove_thread ?t s) ?a1" by (rule rdq_ok_remove [OF kinv_rdq [OF K] p t])
  have nq: "\<not> thr_queued ?a1 ?t" and tq: "thr_queued ?a u \<longleftrightarrow> thr_queued a u" for u
    using thr_queued_a_remove [OF L p t] p t by (auto simp: thr_queued_def a_exit_def)
  have lnk: "lnk ?s = list_add ?h ReapHead (ThrLink ?t)"
    by (simp add: exit_pre_def Let_def thr_add_thread_queue_def psw_disable_and_save_interrupt_def)
  have bm: "bitmap ?s = bitmap (rdq_remove_thread ?t s)"
    by (simp add: exit_pre_def Let_def thr_add_thread_queue_def psw_disable_and_save_interrupt_def)
  have th: "thrs ?s = (thrs s)(?t := (thrs s ?t)\<lparr>exit_code := code, status := THR_TSTATE_DEAD\<rparr>)"
    by (simp add: exit_pre_def Let_def thr_add_thread_queue_def psw_disable_and_save_interrupt_def set_status_def)
  have oth: "live ?s = live s" "ent_thr ?s = ent_thr s" "m_count ?s = m_count s"
    by (simp_all add: exit_pre_def Let_def thr_add_thread_queue_def psw_disable_and_save_interrupt_def)
  have wq: "a_wq ?a = a_wq a" "a_rq ?a = a_rq ?a1" "a_reap ?a = a_reap a @ [?t]" by (simp_all add: a_exit_def)
  have "links_ok (lnk ?s) ?a"
    unfolding lnk by (rule links_ok_add [of _ ?a1])
      (use R1 nq a_lists_upd(3) [where a = ?a1 and ys = "a_reap a @ [?t]"] in \<open>simp_all add: rdq_ok_def used_iff a_exit_def\<close>)
  moreover have "ready_ok (thrs ?s) (a_rq ?a)"
    using R1 nq unfolding th wq by (auto simp: rdq_ok_def ready_ok_def thr_queued_def)
  ultimately have "rdq_ok ?s ?a" using R1 by (simp add: rdq_ok_def bm wq)
  moreover have "wait_ok ?s ?a"
  proof (rule wait_ok_mono)
    show "wait_ok s a" using K by (simp add: kinv_def)
    fix w u d assume "(u, d) \<in> set (a_wq ?a w)"
    then have "(u, d) \<in> set (a_wq a w)" "u \<noteq> ?t"
      using kinv_entry(5) [OF K] p t by (auto simp: wq thr_queued_def)
    then show "(u, d) \<in> set (a_wq a w) \<and> ent_thr ?s (u, d) = ent_thr s (u, d) \<and>
        status (thrs ?s u) = status (thrs s u) \<and> prio (thrs ?s u) = prio (thrs s u) \<and>
        (thr_queued ?a u \<longrightarrow> thr_queued a u)" by (simp add: th oth tq)
  qed
  ultimately have "kinv ?s ?a" by (simp add: kinv_def)
  moreover have "?t \<noteq> idle_refer_idle_thread"
    using K p t by (auto simp: kinv_def rdq_ok_def ready_ok_def)
  then have "stack_ok ?s" "live_ok ?s ?a" "reap_ok ?s ?a"
    using q by (auto simp: qinv_def stack_ok_def live_ok_def reap_ok_def th oth tq wq)
  moreover have "sleep_cond ?s ?a w" if "w \<noteq> ReaperWq" "a_wq ?a w \<noteq> []" for w
    using that q by (cases w) (auto simp: qinv_def oth wq)
  ultimately show ?thesis by (simp add: qinv_def)
qed

lemma exit_post:
  assumes g: "good s" and ni: "current s \<noteq> idle_refer_idle_thread"
  shows "post (\<lambda>_. good) (thr_exit_thread code s)"
proof -
  obtain a where S: "sysinv s a" using g by (auto simp: good_def)
  obtain p where p: "p < RDQ_PRIORITY_MAX" "current s \<in> set (a_rq a p)" by (rule sysinv_ready [OF S ni])
  note q = qinv_exit_pre [OF S p, of code]
  let ?t = "current s"
  show ?thesis unfolding exit_unfold
  proof (rule post_obind, rule post_obind [OF wakeup_post [OF q]])
    fix r s'
    let ?Q = "\<lambda>r s'. case r of Returned _ \<Rightarrow> \<exists>a'. qinv {} s' a' | Switched \<Rightarrow> good s'"
    assume 1: "m_count s' = m_count (exit_pre code s) \<and>
      (if a_wq (a_exit p ?t a) ReaperWq = [] then r = Returned 0 \<and> s' = exit_pre code s \<and> qinv {} (exit_pre code s) (a_exit p ?t a)
       else sysinv s' (a_wake (\<lambda>t. prio (thrs (exit_pre code s) t)) ReaperWq (a_exit p ?t a)) \<and>
            (r = Returned 0 \<and> current s' = current (exit_pre code s) \<or> r = Switched) \<and>
            current s' = a_next (a_wake (\<lambda>t. prio (thrs (exit_pre code s) t)) ReaperWq (a_exit p ?t a)))"
    have "(\<exists>a'. qinv {} s' a') \<and> (r = Switched \<longrightarrow> good s')"
      using 1 by (auto simp: good_def sysinv_def split: if_splits)
    then show "post ?Q (case (r, s') of (r, s') \<Rightarrow> case r of
        Switched \<Rightarrow> Ok (Switched, push_frame ?t (FReapAdd False) s')
      | Returned _ \<Rightarrow> Ok (Returned 0, psw_restore_interrupt False s'))"
      using good_upd(3) [of s' ?t "FReapAdd False"] qinv_upd(1) [of "{}" s' _ False]
      by (auto split: ret.split)
  next
    fix r s'
    assume 2: "case r of Returned _ \<Rightarrow> \<exists>a'. qinv {} s' a' | Switched \<Rightarrow> good s'"
    show "post (\<lambda>_. good) (case (r, s') of (r, s') \<Rightarrow> case r of
        Switched \<Rightarrow> Ok (Switched, push_frame ?t (FExit (psw_if s)) s')
      | Returned _ \<Rightarrow> exit_resume (psw_if s) s')"
    proof (cases r)
      case (Returned v)
      then obtain a' where "qinv {} s' a'" using 2 by auto
      then have "qinv {} (psw_restore_interrupt (psw_if s) s') a'" by (rule qinv_upd(1))
      from sched_qinv_good [OF this]
      have "post (\<lambda>_. good) (sched_schedule (psw_restore_interrupt (psw_if s) s'))"
        by (rule post_mono) (simp add: fine_def)
      then show ?thesis using Returned by (simp add: exit_resume_def)
    qed (use 2 good_upd(3) [of s' ?t "FExit (psw_if s)"] in simp)
  qed
qed

section \<open>Creation, reaping, time slices\<close>

lemma sysinv_upd_thr:
  assumes S: "sysinv s a"
    and f: "status (f (thrs s t)) = status (thrs s t)" "prio (f (thrs s t)) = prio (thrs s t)"
      "\<not> dispatch_delayed (preempt (f (thrs s t)))" "\<forall>x \<in> set (kstack (f (thrs s t))). ok_frame t x"
  shows "sysinv (upd_thr t f s) a"
proof -
  have "sleep_cond (upd_thr t f s) a w = sleep_cond s a w" for w by (cases w) simp_all
  moreover have e: "status (thrs (upd_thr t f s) u) = status (thrs s u)"
    "prio (thrs (upd_thr t f s) u) = prio (thrs s u)" for u using f(1,2) by simp_all
  have "wait_ok (upd_thr t f s) a"
    by (rule wait_ok_mono [of s a]) (use S e in \<open>simp_all add: sysinv_def qinv_def kinv_def\<close>)
  moreover have "rdq_ok (upd_thr t f s) a"
    using S unfolding sysinv_def qinv_def kinv_def rdq_ok_def ready_ok_def e by simp
  moreover have "reap_ok (upd_thr t f s) a" using S unfolding sysinv_def qinv_def reap_ok_def e by simp
  ultimately show ?thesis
    using S f(3,4) by (simp add: sysinv_def qinv_def kinv_def stack_ok_def live_ok_def run_ok_def)
qed

lemma good_upd_thr:
  assumes "good s" and "status (f (thrs s t)) = status (thrs s t)" "prio (f (thrs s t)) = prio (thrs s t)"
      "\<not> dispatch_delayed (preempt (f (thrs s t)))" "\<forall>x \<in> set (kstack (f (thrs s t))). ok_frame t x"
  shows "good (upd_thr t f s)"
  using assms sysinv_upd_thr unfolding good_def by metis

lemma good_stack: "good s \<Longrightarrow> \<not> dispatch_delayed (preempt (thrs s t))"
  "good s \<Longrightarrow> x \<in> set (kstack (thrs s t)) \<Longrightarrow> ok_frame t x"
  by (auto simp: good_def sysinv_def qinv_def stack_ok_def)

lemma sysinv_rotate:
  assumes S: "sysinv s a"
  shows "sysinv (rdq_rotate_queue s) (a\<lparr>a_rq := (a_rq a)(0 := rotate1 (a_rq a 0))\<rparr>)"
proof -
  let ?a = "a\<lparr>a_rq := (a_rq a)(0 := rotate1 (a_rq a 0))\<rparr>"
  have m: "x \<in> set (a_rq ?a p) \<longleftrightarrow> x \<in> set (a_rq a p)" for x p by simp
  have tq: "thr_queued ?a u = thr_queued a u" for u unfolding thr_queued_def m by simp
  have q: "qinv {} s a" using S by (simp add: sysinv_def)
  have "wait_ok (rdq_rotate_queue s) ?a"
    by (rule wait_ok_mono [of s a]) (use q tq in \<open>simp_all add: qinv_def kinv_def\<close>)
  moreover have "rdq_ok (rdq_rotate_queue s) ?a"
    by (rule rdq_ok_rotate) (use q in \<open>simp add: qinv_def kinv_def\<close>)
  moreover have "sleep_cond (rdq_rotate_queue s) ?a w = sleep_cond s a w" for w by (cases w) simp_all
  moreover have "run_ok (rdq_rotate_queue s) ?a" using S unfolding sysinv_def run_ok_def m by simp
  ultimately show ?thesis
    using q tq by (simp add: sysinv_def qinv_def kinv_def stack_ok_def live_ok_def reap_ok_def)
qed

lemma rotate_good: "good s \<Longrightarrow> good (sched_rotate_queue s)" "current (sched_rotate_queue s) = current s"
proof -
  have eq: "sched_rotate_queue s = psw_restore_interrupt (psw_if s) (rdq_rotate_queue (s\<lparr>psw_if := False\<rparr>))"
    by (simp add: sched_rotate_queue_def Let_def psw_disable_and_save_interrupt_def)
  have r: "good (rdq_rotate_queue u)" if "good u" for u using that sysinv_rotate unfolding good_def by blast
  show "good s \<Longrightarrow> good (sched_rotate_queue s)" unfolding eq by (intro good_upd(1) r good_upd(2))
  show "current (sched_rotate_queue s) = current s" by (simp add: eq)
qed

lemma slice_post:
  assumes g: "good s"
  shows "post (fine (current s)) (timer_update_thread_time s)"
proof -
  let ?t = "current s" and ?s = "s\<lparr>psw_if := False\<rparr>"
  have g0: "good ?s" by (rule good_upd(2) [OF g])
  let ?s1 = "if 0 < slice (thrs ?s ?t) then upd_thr ?t (\<lambda>r. r\<lparr>slice := slice r - 1\<rparr>) ?s else ?s"
  have g1: "good ?s1" using g0 good_stack [OF g0] by (auto intro!: good_upd_thr)
  let ?s2 = "sched_rotate_queue (upd_thr ?t (\<lambda>r. r\<lparr>slice := CONFIG_TIMER_TIME_SLICE\<rparr>) ?s1)"
  have c2: "current ?s2 = ?t" by (simp add: rotate_good(2))
  have g2: "good ?s2" using good_stack [OF g1] by (intro rotate_good good_upd_thr [OF g1]) simp_all
  have ret: "post (fine ?t) (Ok (Returned 0, psw_restore_interrupt (psw_if s) u))" if "good u" "current u = ?t" for u
    using good_upd(1) [OF that(1)] that(2) by (simp add: fine_def)
  have sw: "post (fine ?t) (obind (sched_schedule ?s2)
      (\<lambda>(r, s'). case r of Switched \<Rightarrow> Ok (Switched, push_frame ?t (FThreadTime (psw_if s)) s')
         | Returned _ \<Rightarrow> Ok (Returned 0, psw_restore_interrupt (psw_if s) s')))"
    using sched_good [OF g2] ret unfolding c2 by (elim post_sw) (auto simp: fine_def)
  have c1: "current ?s1 = ?t" by simp
  show ?thesis
    unfolding timer_update_thread_time_def psw_disable_and_save_interrupt_def Let_def prod.case
    by (intro post_if ret g0 g1 c1 sw) simp_all
qed

lemma idle_turn_post:
  assumes g: "good s"
  shows "post (fine (current s)) (idle_turn s)"
proof -
  have "post (fine (current s)) (sched_schedule (s\<lparr>psw_if := False\<rparr>))"
    using sched_good [OF good_upd(2) [OF g]] by simp
  then show ?thesis unfolding idle_turn_def psw_disable_and_save_interrupt_def Let_def prod.case
    by (rule post_sw) (auto simp: fine_def good_upd)
qed

text \<open>Creating a thread in an unused structure.\<close>

definition create_state :: "thr \<Rightarrow> thread \<Rightarrow> kst \<Rightarrow> kst" where
  "create_state t r s =
     rdq_add_thread t (upd_thr t (\<lambda>_. r)
       (upd_lnk (\<lambda>h. init_list_node h (ThrLink t)) (s\<lparr>live := insert t (live s)\<rparr>)))"

lemma create_good:
  assumes g: "good s" and t: "t \<notin> live s"
    and r: "prio r < RDQ_PRIORITY_MAX" "status r = THR_TSTATE_RUN" "\<not> dispatch_delayed (preempt r)" "kstack r = [FStart]"
  shows "good (create_state t r s)" "current (create_state t r s) = current s"
proof -
  obtain a where S: "sysinv s a" using g by (auto simp: good_def)
  let ?a = "a_add (prio r) t a" and ?s = "create_state t r s"
  let ?s1 = "upd_thr t (\<lambda>_. r) (upd_lnk (\<lambda>h. init_list_node h (ThrLink t)) (s\<lparr>live := insert t (live s)\<rparr>))"
  have q: "qinv {} s a" using S by (simp add: sysinv_def)
  note K = qinv_kinv [OF q]
  have L: "links_ok (lnk s) a" using K by (simp add: kinv_def rdq_ok_def)
  have nq: "\<not> thr_queued a t" and nw: "(t, d) \<notin> set (a_wq a w)" and ni: "t \<noteq> idle_refer_idle_thread" for d w
    using q t unfolding qinv_def live_ok_def by (auto, force)
  have m: "u \<in> set (a_rq ?a p) \<longleftrightarrow> u \<in> set (a_rq a p) \<or> p = prio r \<and> u = t" for u p by (auto simp: a_add_def)
  have tq: "thr_queued ?a u \<longleftrightarrow> thr_queued a u \<or> u = t" for u
    unfolding thr_queued_def m using r(1) by (auto simp: a_add_def)
  have n: "init_list_node (lnk s) (ThrLink t) = lnk s"
    by (intro init_list_node_unlinked links_ok_unlinked [OF L]) (simp_all add: used_iff nq)
  have "ready_ok (thrs ?s1) (a_rq a)"
    using K nq by (auto simp: kinv_def rdq_ok_def ready_ok_def thr_queued_def)
  then have "rdq_ok ?s1 a" using K by (simp add: kinv_def rdq_ok_def n)
  from rdq_ok_add [OF this nq] have ok: "rdq_ok ?s ?a" using r ni by (simp add: create_state_def)
  have th: "thrs ?s = (thrs s)(t := r)" and oth: "live ?s = insert t (live s)" "ent_thr ?s = ent_thr s"
    "m_count ?s = m_count s" "current ?s = current s" by (simp_all add: create_state_def)
  have wq: "a_wq ?a = a_wq a" "a_reap ?a = a_reap a" by (simp_all add: a_add_def)
  have "wait_ok ?s ?a"
  proof (rule wait_ok_mono)
    show "wait_ok s a" using K by (simp add: kinv_def)
    fix w u d assume "(u, d) \<in> set (a_wq ?a w)"
    moreover from this have "u \<noteq> t" using nw by (auto simp: wq)
    ultimately show "(u, d) \<in> set (a_wq a w) \<and> ent_thr ?s (u, d) = ent_thr s (u, d) \<and>
        status (thrs ?s u) = status (thrs s u) \<and> prio (thrs ?s u) = prio (thrs s u) \<and>
        (thr_queued ?a u \<longrightarrow> thr_queued a u)" by (simp add: th oth wq tq)
  qed
  moreover have "stack_ok ?s" using q r by (simp add: qinv_def stack_ok_def th)
  moreover have "live_ok ?s ?a" using q by (auto simp: qinv_def live_ok_def oth wq tq)
  moreover have "reap_ok ?s ?a" using q nq by (auto simp: qinv_def reap_ok_def wq th thr_queued_def)
  moreover have "sleep_cond ?s ?a w = sleep_cond s a w" for w by (cases w) (simp_all add: oth wq)
  moreover have "run_ok ?s ?a" using S unfolding sysinv_def run_ok_def m oth by blast
  ultimately have "sysinv ?s ?a" using q ok by (simp add: sysinv_def qinv_def kinv_def wq)
  then show "good ?s" by (auto simp: good_def)
  show "current ?s = current s" by (simp add: oth)
qed

lemma attr_prio_bound: "attr_prio at < RDQ_PRIORITY_MAX"
  by (auto simp: attr_prio_def split: option.splits)

lemma create_unfold:
  obtains r where "prio r < RDQ_PRIORITY_MAX" "status r = THR_TSTATE_RUN" "preempt r = 0" "kstack r = [FStart]"
    "thr_create_thread (Some stk) (Some t) i at s = ((0, Some t, []), create_state t r s)"
  using attr_prio_bound [of at]
  by (cases "attr_stack at")
    (force simp: thr_create_thread_def create_state_def Let_def sched_set_ready_eq set_thread_stack_def
      clr_thread_info_def hal_setup_thread_function_def thr_zero_def)+

lemma not_delayed_0 [simp]: "\<not> dispatch_delayed 0"
  by (simp add: dispatch_delayed_def ti_refer_preempt_count_def ti_refer_irq_count_def ti_refer_pre_count_def)

lemma create_post:
  assumes "good s" "t \<notin> live s"
  shows "post (fine (current s)) (kop_call (Create t stk i at) s)"
proof -
  obtain r where r: "prio r < RDQ_PRIORITY_MAX" "status r = THR_TSTATE_RUN" "preempt r = 0" "kstack r = [FStart]"
    "thr_create_thread (Some stk) (Some t) i at s = ((0, Some t, []), create_state t r s)"
    by (rule create_unfold)
  then show ?thesis using create_good [OF assms, of r] by (simp add: fine_def)
qed

text \<open>The reaper takes the terminated threads off its queue and frees them.\<close>

definition reaped :: "thr \<Rightarrow> kst \<Rightarrow> kst" where
  "reaped t s = s\<lparr>lnk := list_del (lnk s) (ThrLink t), live := live s - {t}\<rparr>"

lemma reap_one_eq:
  assumes S: "sysinv s a" and q: "a_reap a = t # ts"
  shows "reap_one s = Ok (reaped t s)" "sysinv (reaped t s) (a\<lparr>a_reap := ts\<rparr>)"
proof -
  let ?a = "a\<lparr>a_reap := ts\<rparr>"
  have Q: "qinv {} s a" using S by (simp add: sysinv_def)
  note K = qinv_kinv [OF Q]
  have L: "links_ok (lnk s) a" using K by (simp add: kinv_def rdq_ok_def)
  note P = lq.rep_pop(1) [OF links_ok_rings [OF L], of ReapHead "ThrLink t" "map ThrLink ts"]
  have e: "\<not> list_is_empty (lnk s) ReapHead"
    using lq.rep_empty [OF links_ok_rings [OF L], of ReapHead] q by simp
  have dead: "status (thrs s t) = THR_TSTATE_DEAD" using Q q by (simp add: qinv_def reap_ok_def)
  show "reap_one s = Ok (reaped t s)"
    using P q e dead by (simp add: reap_one_def thr_thread_queue_get_top_def thr_destroy_thread_def Let_def
        list_get_top_def psw_defs upd_lnk_def reaped_def)
  have d: "distinct (a_reap a)" by (rule links_ok_distinct(3) [OF L])
  have nr: "p < RDQ_PRIORITY_MAX \<Longrightarrow> t \<notin> set (a_rq a p)" for p using links_ok_apart(2) [OF L, of p t] q by auto
  have tq: "thr_queued ?a u \<longleftrightarrow> thr_queued a u \<and> u \<noteq> t" for u
    using d q nr by (auto simp: thr_queued_def)
  have nw: "(t, d) \<notin> set (a_wq a w)" for d w
    using kinv_entry(5) [OF K, of t d w] q by (auto simp: thr_queued_def)
  have L': "links_ok (list_del (lnk s) (ThrLink t)) ?a"
    by (rule links_ok_del [OF L, of ReapHead]) (simp_all add: q a_lists_upd)
  have "rdq_ok (reaped t s) ?a" using K L' by (simp add: kinv_def rdq_ok_def reaped_def)
  moreover have "wait_ok (reaped t s) ?a"
    by (rule wait_ok_mono [of s a]) (use K tq in \<open>simp_all add: kinv_def reaped_def\<close>)
  moreover have ti: "t \<noteq> idle_refer_idle_thread" using Q q by (simp add: qinv_def reap_ok_def)
  have "live_ok (reaped t s) ?a"
    using Q nw tq ti by (force simp: qinv_def live_ok_def reaped_def)
  moreover have "reap_ok (reaped t s) ?a" "stack_ok (reaped t s)"
    using Q q by (simp_all add: qinv_def reap_ok_def reaped_def stack_ok_def)
  moreover have "sleep_cond (reaped t s) ?a w" if "sleep_cond s a w" for w
    using that q by (cases w) (simp_all add: reaped_def)
  ultimately show "sysinv (reaped t s) ?a"
    using S by (simp add: sysinv_def qinv_def kinv_def run_ok_def) (simp add: reaped_def)
qed

lemma reap_loop_unfold:
  "reap_loop s = (if thr_thread_queue_empty ReapHead s then Ok s else obind (reap_one s) reap_loop)"
proof (cases "reap_one s")
  case (Ok s')
  then show ?thesis unfolding reap_loop_def by (subst while_option_unfold) simp
next
  case (Stop x)
  have "while_option (\<lambda>r. case r of Ok s \<Rightarrow> \<not> thr_thread_queue_empty ReapHead s | Stop _ \<Rightarrow> False)
      (\<lambda>r. obind r reap_one) (Stop x) = Some (Stop x)" by (subst while_option_unfold) simp
  with Stop show ?thesis unfolding reap_loop_def by (subst while_option_unfold) simp
qed

lemma reap_loop_ok:
  assumes "sysinv s a"
  shows "\<exists>s'. reap_loop s = Ok s' \<and> sysinv s' (a\<lparr>a_reap := []\<rparr>) \<and> current s' = current s \<and>
    live s' = live s - set (a_reap a)"
  using assms
proof (induction "a_reap a" arbitrary: s a)
  case Nil
  have L: "links_ok (lnk s) a" using Nil by (simp add: sysinv_def qinv_def kinv_def rdq_ok_def)
  have "thr_thread_queue_empty ReapHead s"
    using lq.rep_empty [OF links_ok_rings [OF L], of ReapHead] Nil(1) by (simp add: thr_thread_queue_empty_def)
  moreover have eq: "a\<lparr>a_reap := []\<rparr> = a" using Nil(1) by (cases a) simp
  ultimately show ?case unfolding eq using Nil(2) by (subst reap_loop_unfold) (simp add: Nil(1) [symmetric])
next
  case (Cons t ts)
  have q: "a_reap a = t # ts" using Cons(2) by simp
  have L: "links_ok (lnk s) a" using Cons.prems by (simp add: sysinv_def qinv_def kinv_def rdq_ok_def)
  have ne: "\<not> thr_thread_queue_empty ReapHead s"
    using lq.rep_empty [OF links_ok_rings [OF L], of ReapHead] q by (simp add: thr_thread_queue_empty_def)
  note R = reap_one_eq [OF Cons.prems q]
  obtain s' where s': "reap_loop (reaped t s) = Ok s'" "sysinv s' (a\<lparr>a_reap := []\<rparr>)"
    "current s' = current (reaped t s)" "live s' = live (reaped t s) - set ts"
    using Cons.hyps(1) [OF _ R(2)] by auto
  then have "live s' = live s - set (a_reap a)" by (auto simp: reaped_def q)
  then show ?case using s' by (subst reap_loop_unfold) (auto simp: ne R(1) reaped_def)
qed

lemma reaper_post:
  assumes g: "good s" and ni: "current s \<noteq> idle_refer_idle_thread"
  shows "post (fine (current s)) (reaper_turn s)"
proof -
  obtain a where "sysinv (s\<lparr>psw_if := False\<rparr>) a" using good_upd(2) [OF g] by (auto simp: good_def)
  from reap_loop_ok [OF this] obtain s1 where s1: "reap_loop (s\<lparr>psw_if := False\<rparr>) = Ok s1"
    "sysinv s1 (a\<lparr>a_reap := []\<rparr>)" "current s1 = current s" by auto
  have W: "post (\<lambda>r s'. r = Switched \<and> good s' \<and> m_count s' = m_count s1) (wque_wait_on_queue ReaperWq 0 s1)"
    by (rule wait_post [OF s1(2)]) (simp_all add: s1(3) ni)
  have "post (fine (current s)) (obind (wque_wait_on_queue ReaperWq 0 s1)
      (\<lambda>(r, s'). case r of Switched \<Rightarrow> Ok (Switched, push_frame (current s) (FReaper (psw_if s)) s')
         | Returned _ \<Rightarrow> Ok (Returned 0, psw_restore_interrupt (psw_if s) s')))"
    by (rule post_sw [OF W]) simp_all
  then show ?thesis
    by (simp add: reaper_turn_def psw_disable_and_save_interrupt_def s1(1))
qed

section \<open>All operations and all frames\<close>

lemma op_post:
  assumes g: "good s" and al: "kop_allowed c s"
  shows "post (\<lambda>_. good) (kop_call c s)"
proof -
  have F: "post (\<lambda>_. good) x" if "post (fine t) x" for t x
    using that by (rule post_mono) (simp add: fine_def)
  show ?thesis
  proof (cases c)
    case (Hold m) then show ?thesis using F [OF hold_post [OF g]] al by simp
  next
    case (TryHold m) then show ?thesis using try_hold_good(1) [OF g, of m]
      by (simp add: case_prod_unfold)
  next
    case (Release m) then show ?thesis using F [OF release_post [OF g]] by simp
  next
    case (WaitOn n)
    obtain a where S: "sysinv s a" using g by (auto simp: good_def)
    have "post (\<lambda>_. good) (wque_wait_on_queue (Wq n) 0 s)"
      by (rule post_mono [OF wait_post [OF S]]) (use al WaitOn in auto)
    then show ?thesis using WaitOn by simp
  next
    case (WaitEvent n m) then show ?thesis using F [OF wait_event_post [OF g, of "Wq n" m 0]] al by simp
  next
    case (Wakeup n) then show ?thesis using F [OF wakeup_good [OF g]] by simp
  next
    case (Exit code) then show ?thesis using exit_post [OF g, of code] al by simp
  next
    case (Create t stk i at)
    then show ?thesis using F [OF create_post [OF g, of t stk i at]] al by simp
  next
    case Reap then show ?thesis using F [OF reaper_post [OF g]] al by simp
  next
    case IdleTurn then show ?thesis using F [OF idle_turn_post [OF g]] by simp
  next
    case Yield then show ?thesis using F [OF sched_good [OF g]] by simp
  next
    case RotateQ then show ?thesis using rotate_good(1) [OF g] by simp
  next
    case Slice then show ?thesis using F [OF slice_post [OF g]] by simp
  qed
qed

text \<open>A thread that is dispatched again marks itself running, which it is already.\<close>

lemma sched_resume_good:
  assumes g: "good s"
  shows "good (sched_resume psw s)" "current (sched_resume psw s) = current s"
proof -
  obtain a where S: "sysinv s a" using g by (auto simp: good_def)
  then have K: "kinv s a" by (simp add: sysinv_def qinv_def)
  let ?s1 = "set_status (current s) THR_TSTATE_RUN s"
  have L: "links_ok (lnk s) a" using K by (simp add: kinv_def rdq_ok_def)
  have nw: "(current s, d) \<notin> set (a_wq a w)" for d w
    using kinv_entry(4,5) [OF K, of "current s" d w] S by (auto simp: sysinv_def run_ok_def thr_queued_def)
  have nr: "current s \<notin> set (a_reap a)"
    using S links_ok_apart(2) [OF L] by (auto simp: sysinv_def run_ok_def qinv_def reap_ok_def)
  have "wait_ok ?s1 a"
    by (rule wait_ok_mono [of s a]) (use K nw in \<open>auto simp: kinv_def\<close>)
  moreover have "rdq_ok ?s1 a" using K by (simp add: kinv_def rdq_ok_def ready_ok_def)
  moreover have "sleep_cond ?s1 a w = sleep_cond s a w" for w by (cases w) simp_all
  ultimately have "sysinv ?s1 a"
    using S nr by (auto simp: sysinv_def qinv_def kinv_def stack_ok_def live_ok_def reap_ok_def run_ok_def)
  then have g1: "good (psw_restore_interrupt psw ?s1)" using good_upd(1) by (auto simp: good_def)
  show "good (sched_resume psw s)"
    unfolding sched_resume_def sched_out_def upd_preempt_def
    by (rule good_upd_thr [OF g1]) (use good_stack [OF g1] in simp_all)
  show "current (sched_resume psw s) = current s" by (simp add: sched_resume_def)
qed

lemma frame_tail_post:
  assumes g: "good s" and f: "ok_frame (current s) f"
  shows "post (fine (current s)) (frame_tail f v s)"
proof (cases f)
  case (FSched b) then show ?thesis using sched_resume_good [OF g] by (simp add: fine_def)
next
  case (FWait w d b)
  obtain r s' where e: "wque_wait_resume w d b s = (r, s')" by fastforce
  then show ?thesis using FWait wait_resume_good [OF g e] by (simp add: fine_def)
next
  case (FHold m d b)
  then show ?thesis using f hold_loop_post [OF g, of m d b] good_upd(1) [OF g]
    by (simp add: hold_resume_def fine_def)
next
  case (FRelease m b)
  then show ?thesis using release_resume_good [OF g] by (simp add: fine_def release_resume_def)
next
  case (FWaitEvRelease d w m b)
  obtain a where "qinv {} s a" using g by (auto simp: good_def sysinv_def)
  then show ?thesis using FWaitEvRelease f wait_ev_sched_post by simp
next
  case (FWaitEvSched d w m b) then show ?thesis using f wait_ev_hold_post [OF g] by simp
next
  case (FWaitEvHold d w m b) then show ?thesis using wait_ev_end_post [OF g] by simp
next
  case (FExit b) then show ?thesis using sched_good [OF good_upd(1) [OF g]] by (simp add: exit_resume_def)
qed (use g f good_upd(1,4) in \<open>simp_all add: fine_def psw_enable_interrupt_def\<close>)

lemma append_frames_good:
  assumes "good s" "\<forall>f \<in> set fs. ok_frame t f"
  shows "good (append_frames t fs s)" "current (append_frames t fs s) = current s"
  unfolding append_frames_def
  by (rule good_upd_thr [OF assms(1)]) (use assms good_stack [OF assms(1)] in auto)

lemma resume_frames_post:
  assumes "good s" "\<forall>f \<in> set fs. ok_frame (current s) f"
  shows "post (\<lambda>_. good) (resume_frames fs v s)"
  using assms
proof (induction fs arbitrary: v s)
  case (Cons f fs)
  have "post (fine (current s)) (frame_tail f v s)" using Cons.prems by (intro frame_tail_post) simp_all
  then obtain r s' where r: "frame_tail f v s = Ok (r, s')" "fine (current s) r s'" by (auto simp: post_def)
  show ?case
  proof (cases r)
    case (Returned v')
    then show ?thesis using r Cons.IH [of s' v'] Cons.prems by (simp add: fine_def)
  next
    case Switched
    then show ?thesis using r append_frames_good(1) [of s' fs "current s"] Cons.prems by (simp add: fine_def)
  qed
qed simp

lemma resume_post:
  assumes g: "good s"
  shows "post (\<lambda>_. good) (resume_current s)"
  unfolding resume_current_def Let_def
proof (rule resume_frames_post)
  show "good (upd_thr (current s) (\<lambda>r. r\<lparr>kstack := []\<rparr>) s)"
    by (rule good_upd_thr [OF g]) (use good_stack [OF g] in auto)
  show "\<forall>f \<in> set (kstack (thrs s (current s))).
      ok_frame (current (upd_thr (current s) (\<lambda>r. r\<lparr>kstack := []\<rparr>) s)) f"
    using good_stack(2) [OF g] by simp
qed

lemma kstep_good: "kstep s s' \<Longrightarrow> good s \<Longrightarrow> good s'"
proof (induction rule: kstep.induct)
  case (call s c r s')
  then show ?case using op_post [of s c] by simp
next
  case (resume s r s')
  then show ?case using resume_post [of s] by simp
qed

section \<open>Boot\<close>

definition a0 :: kabs where
  "a0 = \<lparr>a_rq = (\<lambda>_. []), a_wq = (\<lambda>_. []), a_reap = [], a_co = []\<rparr>"

lemma a_lists_a0 [simp]: "a_lists a0 x = []"
  by (cases x) (simp_all add: a0_def)

lemma kst0_links: "links_ok (lnk kst0) a0"
  by (auto simp: links_ok_def rings_def is_list_def kst0_def unlinked_def)

lemma kst0_good: "good kst0"
proof -
  have "sleep_cond kst0 a0 w" if "a_wq a0 w \<noteq> []" for w using that by (simp add: a0_def)
  with kst0_links have "sysinv kst0 a0"
    by (simp add: sysinv_def qinv_def kinv_def rdq_ok_def bitmap_ok_def ready_ok_def wait_ok_def stack_ok_def
        live_ok_def reap_ok_def run_ok_def thr_queued_def a0_def)
      (simp add: kst0_def thr_zero_def)
  then show ?thesis by (auto simp: good_def)
qed

lemma init_self:
  assumes "lnk s = (\<lambda>x. \<lparr>l_prev = x, l_next = x\<rparr>)"
  shows "upd_lnk (\<lambda>h. init_list_head h y) s = s"
proof -
  have "init_list_head (lnk s) y = lnk s"
    unfolding assms by (rule ext) (simp add: init_list_head_def set_next_def set_prev_def)
  then show ?thesis by (simp add: upd_lnk_def)
qed

lemma fold_fixed: "(\<And>i. f i s = s) \<Longrightarrow> fold f is s = s"
  by (induction "is") simp_all

lemma reaper_init_good:
  assumes g: "good s" and l: "lnk s = (\<lambda>x. \<lparr>l_prev = x, l_next = x\<rparr>)" "wq_reason s = (\<lambda>_. 0)"
    and t: "\<And>t. mem = Some t \<Longrightarrow> t \<notin> live s"
  shows "good (reaper_init_thread stk mem s)"
proof -
  let ?at = "Some \<lparr>at_stack_top = 0, at_stack_size = 0, at_prio = REAPER_THREAD_PRIO\<rparr>"
  have l': "lnk (s\<lparr>psw_if := b\<rparr>) = (\<lambda>x. \<lparr>l_prev = x, l_next = x\<rparr>)" for b using l by simp
  have r: "s\<lparr>wq_reason := (wq_reason s)(w := 0)\<rparr> = s" for w using l(2) by (simp add: fun_upd_idem)
  have e: "thr_init_thread_queue ReapHead s = s" "wque_init_wait_queue ReaperWq s = s"
    unfolding thr_init_thread_queue_def wque_init_wait_queue_def Let_def psw_defs prod.case init_self [OF l']
    using r by simp_all
  show ?thesis
  proof (cases "stk = None \<or> mem = None")
    case True
    then have "snd (thr_create_thread stk mem REAPER_THREAD_TID ?at s) = s"
      by (auto simp: thr_create_thread_def attr_stack_def split: option.split)
    then show ?thesis using g by (simp add: reaper_init_thread_def e)
  next
    case False
    then obtain st t' where m: "stk = Some st" "mem = Some t'" by auto
    obtain r where r: "prio r < RDQ_PRIORITY_MAX" "status r = THR_TSTATE_RUN" "preempt r = 0" "kstack r = [FStart]"
      "thr_create_thread (Some st) (Some t') REAPER_THREAD_TID ?at s = ((0, Some t', []), create_state t' r s)"
      by (rule create_unfold)
    have "t' \<notin> live s" using t m by simp
    then have "good (create_state t' r s)" using create_good(1) [OF g, of t' r] r by simp
    then show ?thesis by (simp add: reaper_init_thread_def e m r(5))
  qed
qed

lemma kern_init_good:
  assumes "boots mem"
  shows "good (kern_init stk mem kst0)"
proof -
  let ?s1 = "idle_init_idle kst0"
  have g1: "good ?s1" unfolding idle_init_idle_def
    by (rule good_upd_thr [OF kst0_good]) (use good_stack [OF kst0_good] in auto)
  have l1: "lnk ?s1 = (\<lambda>x. \<lparr>l_prev = x, l_next = x\<rparr>)" "wq_reason ?s1 = (\<lambda>_. 0)" "?s1\<lparr>bitmap := 0\<rparr> = ?s1"
    "live ?s1 = {idle_refer_idle_thread}"
    by (simp_all add: idle_init_idle_def kst0_def upd_thr_def)
  have s2: "sched_init ?s1 = ?s1"
    unfolding sched_init_def rdq_init_ready_queue_def Let_def l1(3) by (intro fold_fixed init_self l1(1))
  have g3: "good (reaper_init_thread stk mem ?s1)"
    by (rule reaper_init_good [OF g1 l1(1,2)]) (use assms l1(4) in \<open>auto simp: boots_def\<close>)
  have "good (upd_preempt t ti_set_delay_dispatch (reaper_init_thread stk mem ?s1))" for t
    unfolding upd_preempt_def by (rule good_upd_thr [OF g3]) (use good_stack [OF g3] in auto)
  then show ?thesis
    unfolding kern_init_def Let_def s2 idle_loop_init_def by (intro good_upd(4))
qed

lemma kreach_good:
  assumes "kreach s"
  shows "good s"
proof -
  obtain stk mem where "boots mem" and r: "kstep\<^sup>*\<^sup>* (kern_init stk mem kst0) s"
    using assms by (auto simp: kreach_def)
  then have "good (kern_init stk mem kst0)" by (intro kern_init_good)
  with r show ?thesis by (induction rule: rtranclp_induct) (auto intro: kstep_good)
qed

lemma kreach_boot: "kreach (kern_init (Some 0x100000) (Some 1) kst0)"
  unfolding kreach_def by (intro exI [of _ "Some 0x100000"] exI [of _ "Some 1"])
    (simp add: boots_def idle_refer_idle_thread_def)

lemma good_empty_iff:
  assumes "good s"
  shows "\<exists>a. sysinv s a \<and> (\<forall>w. list_is_empty (lnk s) (WqHead w) \<longleftrightarrow> a_wq a w = []) \<and>
    (list_is_empty (lnk s) ReapHead \<longleftrightarrow> a_reap a = [])"
proof -
  obtain a where S: "sysinv s a" using assms by (auto simp: good_def)
  then have L: "links_ok (lnk s) a" by (simp add: sysinv_def qinv_def kinv_def rdq_ok_def)
  note E = lq.rep_empty [OF links_ok_rings [OF L]]
  show ?thesis using S E [of "WqHead _"] E [of ReapHead] by (intro exI [of _ a]) simp
qed

end
