(* ===== verification/Kexclusion.thy ===== *)
theory Kexclusion
  imports Ksafety
begin

text \<open>
  Mutual exclusion.  The count of a mutex only changes when a thread takes it, from 0 to 1, or
  releases it.  Steps are extended with the set of threads inside each critical section; a
  thread calls \<^verbatim>\<open>mutex_release\<close> and \<^verbatim>\<open>wque_wait_on_event_with_mutex\<close> only with a mutex it holds.
\<close>

section \<open>How the counts change\<close>

definition takes :: "(mtx \<Rightarrow> u32) \<Rightarrow> (mtx \<Rightarrow> u32) \<Rightarrow> bool" where
  "takes c c' = (\<forall>m. c' m = c m \<or> c m = 0 \<and> c' m = 1)"

lemma takes_refl [simp]: "takes c c"
  by (simp add: takes_def)

lemma takes_trans: "takes c c' \<Longrightarrow> takes c' c'' \<Longrightarrow> takes c c''"
  unfolding takes_def by (metis zero_neq_one)

lemma count_sched: "sched_schedule s = Ok (r, s') \<Longrightarrow> m_count s' = m_count s"
  by (auto simp: sched_schedule_def Let_def psw_defs upd_defs sched_out_def obind_eq_Ok split: if_splits)

lemma count_push [simp]: "m_count (push_frame t f s) = m_count s"
  by (simp add: push_frame_def)

lemma count_woken: "wakeup_one w s = Ok s' \<Longrightarrow> m_count s' = m_count s"
  by (auto simp: wakeup_one_def Let_def sched_set_ready_eq split: prod.splits laddr.splits option.splits)

lemma count_wakeup_loop:
  assumes "wakeup_loop w s = Ok s'"
  shows "m_count s' = m_count s"
proof -
  let ?b = "\<lambda>r. case r of Ok s \<Rightarrow> \<not> list_is_empty (lnk s) (WqHead w) | Stop _ \<Rightarrow> False"
  have "while_option ?b (\<lambda>r. obind r (wakeup_one w)) (Ok s) = Some (Ok s')"
    using assms by (simp add: wakeup_loop_def split: option.splits)
  then have "case Ok s' of Ok u \<Rightarrow> m_count u = m_count s | Stop _ \<Rightarrow> True"
    by (rule while_option_rule [rotated])
      (auto split: outcome.splits dest: count_woken simp: obind_eq_Ok)
  then show ?thesis by simp
qed

lemma count_wakeup: "wque_wakeup w reason s = Ok (r, s') \<Longrightarrow> m_count s' = m_count s"
  by (auto simp: wque_wakeup_def Let_def psw_defs obind_eq_Ok split: if_splits ret.splits
      dest!: count_wakeup_loop count_sched)

lemma count_wait: "wque_wait_on_queue w d s = Ok (r, s') \<Longrightarrow> m_count s' = m_count s"
  using mid_eqD(1) [OF wait_pre_mid]
  by (auto simp: wque_wait_on_queue_unfold obind_eq_Ok wque_wait_resume_def Let_def split: ret.splits
      dest!: count_sched)

lemma count_hold_turn:
  "hold_turn m d psw s = Inl s' \<Longrightarrow> m_count s' = m_count s"
  "hold_turn m d psw s = Inr (Ok (r, s')) \<Longrightarrow> takes (m_count s) (m_count s')"
  by (auto simp: hold_turn_def takes_def mutex_take_def word_gt_0 split: if_splits outcome.splits ret.splits
      dest!: count_wait)

lemma count_hold_loop:
  assumes "hold_loop m d psw s = Ok (r, s')"
  shows "takes (m_count s) (m_count s')"
proof -
  let ?P = "\<lambda>x :: kst + kres. case x of Inl u \<Rightarrow> m_count u = m_count s
    | Inr (Ok (r, u)) \<Rightarrow> takes (m_count s) (m_count u) | Inr (Stop _) \<Rightarrow> True"
  have "while_option isl (\<lambda>x. hold_turn m d psw (projl x)) (Inl s) = Some (Inr (Ok (r, s')))"
    using assms by (auto simp: hold_loop_def split: option.splits sum.splits)
  then have "?P (Inr (Ok (r, s')))"
  proof (rule while_option_rule [rotated])
    fix x assume x: "?P x" "isl x"
    then obtain u where u: "x = Inl u" "m_count u = m_count s" by (auto simp: isl_def)
    show "?P (hold_turn m d psw (projl x))"
      using u count_hold_turn [of m d psw u]
      by (auto split: sum.splits outcome.splits prod.splits)
  qed simp
  then show ?thesis by simp
qed

lemma count_hold: "mutex_hold m d s = Ok (r, s') \<Longrightarrow> takes (m_count s) (m_count s')"
  using count_hold_loop [of m d "psw_if s" "s\<lparr>psw_if := False\<rparr>" r s']
  by (simp add: mutex_hold_def psw_disable_and_save_interrupt_def)

lemma count_release:
  "mutex_release m s = Ok (r, s') \<Longrightarrow> m_count s' = (m_count s)(m := m_count s m - 1)"
  by (auto simp: mutex_release_def Let_def psw_defs obind_eq_Ok release_resume_def split: ret.splits
      dest!: count_wakeup)

lemma count_ev_hold: "wait_ev_hold d w m psw s = Ok (r, s') \<Longrightarrow> takes (m_count s) (m_count s')"
  by (auto simp: wait_ev_hold_def wait_ev_end_def Let_def obind_eq_Ok split: ret.splits dest!: count_hold)

lemma count_ev_sched: "wait_ev_sched d w m psw s = Ok (r, s') \<Longrightarrow> takes (m_count s) (m_count s')"
  by (auto simp: wait_ev_sched_def obind_eq_Ok split: ret.splits dest!: count_sched count_ev_hold)

lemma count_event:
  "wque_wait_on_event_with_mutex w m d s = Ok (r, s') \<Longrightarrow>
     takes ((m_count s)(m := m_count s m - 1)) (m_count s')"
  using mid_eqD(1) [OF wait_pre_mid [of s w d]]
  by (auto simp: wait_event_unfold obind_eq_Ok split: ret.splits dest!: count_release count_ev_sched)

lemma count_frame:
  "frame_tail f v s = Ok (r, s') \<Longrightarrow> ok_frame t f \<Longrightarrow> takes (m_count s) (m_count s')"
proof (cases f)
  case (FExit b)
  then show "frame_tail f v s = Ok (r, s') \<Longrightarrow> takes (m_count s) (m_count s')"
    by (auto simp: exit_resume_def dest!: count_sched)
qed (auto simp: sched_resume_def sched_out_def upd_preempt_def wque_wait_resume_def Let_def hold_resume_def
      release_resume_def wait_ev_end_def psw_enable_interrupt_def split: if_splits
      dest!: count_hold_loop count_ev_sched count_ev_hold)

lemma count_resume_frames:
  "resume_frames fs v s = Ok (r, s') \<Longrightarrow> \<forall>f \<in> set fs. ok_frame t f \<Longrightarrow> takes (m_count s) (m_count s')"
proof (induction fs arbitrary: v s)
  case (Cons f fs)
  from Cons.prems(1) obtain r1 s1 where 1: "frame_tail f v s = Ok (r1, s1)"
    "(case r1 of Returned v' \<Rightarrow> resume_frames fs v' s1
      | Switched \<Rightarrow> Ok (Switched, append_frames (current s) fs s1)) = Ok (r, s')"
    by (auto simp: obind_eq_Ok)
  have T: "takes (m_count s) (m_count s1)" using count_frame [OF 1(1), of t] Cons.prems(2) by simp
  show ?case
  proof (cases r1)
    case (Returned v')
    then have "takes (m_count s1) (m_count s')" using 1(2) Cons.IH [of v' s1] Cons.prems(2) by simp
    then show ?thesis by (rule takes_trans [OF T])
  next
    case Switched
    then show ?thesis using 1(2) T by (auto simp: append_frames_def)
  qed
qed simp

lemma count_resume:
  assumes "good s" "resume_current s = Ok (r, s')"
  shows "takes (m_count s) (m_count s')"
proof -
  have "\<forall>f \<in> set (kstack (thrs s (current s))). ok_frame (current s) f" using good_stack(2) [OF assms(1)] by blast
  from count_resume_frames [OF _ this] assms(2) show ?thesis
    by (fastforce simp: resume_current_def Let_def)
qed

section \<open>Critical sections\<close>

fun releases :: "kop \<Rightarrow> mtx option" where
  "releases (Release m) = Some m"
| "releases (WaitEvent n m) = Some m"
| "releases _ = None"

definition released :: "kop \<Rightarrow> (mtx \<Rightarrow> u32) \<Rightarrow> mtx \<Rightarrow> u32" where
  "released c f = (case releases c of None \<Rightarrow> f | Some m \<Rightarrow> f(m := f m - 1))"

lemma count_exit: "thr_exit_thread code s = Ok (r, s') \<Longrightarrow> m_count s' = m_count s"
  by (auto simp: thr_exit_thread_def reaper_add_exit_thread_def exit_resume_def thr_add_thread_queue_def Let_def
      psw_defs upd_defs obind_eq_Ok split: ret.splits if_splits dest!: count_sched count_wakeup)

lemma count_queue_top:
  assumes "thr_thread_queue_get_top q s = Ok (t, s')"
  shows "m_count s' = m_count s"
proof -
  obtain n h where g: "list_get_top (lnk s) q = (n, h)" by fastforce
  show ?thesis using assms
    by (cases n) (auto simp: thr_thread_queue_get_top_def Let_def psw_disable_and_save_interrupt_def g split: if_splits)
qed

lemma count_reap_one:
  assumes "reap_one s = Ok s'"
  shows "m_count s' = m_count s"
proof -
  obtain t s1 where 1: "thr_thread_queue_get_top ReapHead s = Ok (Some t, s1)"
    "s' = snd (thr_destroy_thread t s1)"
    using assms by (auto simp: reap_one_def obind_eq_Ok split: option.splits)
  have "m_count (snd (thr_destroy_thread t s1)) = m_count s1"
    by (simp add: thr_destroy_thread_def Let_def psw_disable_and_save_interrupt_def)
  then show ?thesis using 1(2) count_queue_top [OF 1(1)] by simp
qed

lemma count_reap_loop:
  assumes "reap_loop s = Ok s'"
  shows "m_count s' = m_count s"
proof -
  let ?b = "\<lambda>r. case r of Ok s \<Rightarrow> \<not> thr_thread_queue_empty ReapHead s | Stop _ \<Rightarrow> False"
  have "while_option ?b (\<lambda>r. obind r reap_one) (Ok s) = Some (Ok s')"
    using assms by (simp add: reap_loop_def split: option.splits)
  then have "case Ok s' of Ok u \<Rightarrow> m_count u = m_count s | Stop _ \<Rightarrow> True"
    by (rule while_option_rule [rotated])
      (auto split: outcome.splits dest: count_reap_one simp: obind_eq_Ok)
  then show ?thesis by simp
qed

lemma count_op: "kop_call c s = Ok (r, s') \<Longrightarrow> takes (released c (m_count s)) (m_count s')"
proof (cases c)
  case (TryHold m)
  then show "kop_call c s = Ok (r, s') \<Longrightarrow> takes (released c (m_count s)) (m_count s')"
    by (auto simp: mutex_try_hold_def Let_def psw_defs released_def mutex_take_def takes_def word_gt_0
        split: if_splits)
next
  case (Create t stk i at)
  then show "kop_call c s = Ok (r, s') \<Longrightarrow> takes (released c (m_count s)) (m_count s')"
    by (cases rule: create_unfold [of stk t i at s]) (auto simp: released_def create_state_def)
next
  case Slice
  then show "kop_call c s = Ok (r, s') \<Longrightarrow> takes (released c (m_count s)) (m_count s')"
    by (auto simp: released_def timer_update_thread_time_def Let_def psw_defs sched_rotate_queue_def
        obind_eq_Ok split: if_splits ret.splits dest!: count_sched)
qed (auto simp: released_def obind_eq_Ok reaper_turn_def idle_turn_def sched_rotate_queue_def Let_def psw_defs
      split: ret.splits
      dest!: count_hold count_release count_wait count_event count_wakeup count_exit count_reap_loop count_sched)

definition holders_upd :: "kst \<Rightarrow> kst \<Rightarrow> (mtx \<Rightarrow> thr set) \<Rightarrow> mtx \<Rightarrow> thr set" where
  "holders_upd s s' H m =
     (if m_count s m < m_count s' m then insert (current s) (H m)
      else if m_count s' m < m_count s m then H m - {current s} else H m)"

inductive hstep :: "kst \<times> (mtx \<Rightarrow> thr set) \<Rightarrow> kst \<times> (mtx \<Rightarrow> thr set) \<Rightarrow> bool" where
  hcall: "kstack (thrs s (current s)) = [] \<Longrightarrow> kop_allowed c s \<Longrightarrow>
    (case releases c of None \<Rightarrow> True | Some m \<Rightarrow> current s \<in> H m) \<Longrightarrow> kop_call c s = Ok (r, s') \<Longrightarrow>
    hstep (s, H) (s', holders_upd s s' H)"
| hresume: "kstack (thrs s (current s)) \<noteq> [] \<Longrightarrow> resume_current s = Ok (r, s') \<Longrightarrow>
    hstep (s, H) (s', holders_upd s s' H)"

text \<open>Either the mutex is free and nobody is inside, or it is taken once and one thread is inside.\<close>

definition excl :: "kst \<Rightarrow> (mtx \<Rightarrow> thr set) \<Rightarrow> bool" where
  "excl s H = (\<forall>m. m_count s m = 0 \<and> H m = {} \<or> m_count s m = 1 \<and> (\<exists>t. H m = {t}))"

lemma excl_takes:
  assumes E: "excl s H" and T: "takes (m_count s) (m_count s')"
  shows "excl s' (holders_upd s s' H)"
  unfolding excl_def
proof
  fix m
  have "m_count s' m = m_count s m \<or> m_count s m = 0 \<and> m_count s' m = 1" using T by (simp add: takes_def)
  then show "m_count s' m = 0 \<and> holders_upd s s' H m = {} \<or>
      m_count s' m = 1 \<and> (\<exists>t. holders_upd s s' H m = {t})"
    using E unfolding excl_def holders_upd_def by (elim disjE) (auto dest: spec [of _ m])
qed

lemma excl_released:
  assumes E: "excl s H" and m0: "current s \<in> H m" and T: "takes ((m_count s)(m := m_count s m - 1)) (m_count s')"
  shows "excl s' (holders_upd s s' H)"
  unfolding excl_def
proof
  fix k
  have Em: "m_count s m = 1" "H m = {current s}" using E m0 unfolding excl_def by (auto dest!: spec [of _ m])
  show "m_count s' k = 0 \<and> holders_upd s s' H k = {} \<or>
      m_count s' k = 1 \<and> (\<exists>t. holders_upd s s' H k = {t})"
  proof (cases "k = m")
    case True
    then have "m_count s' m = 0 \<or> m_count s' m = 1" using T Em by (auto simp: takes_def dest: spec [of _ m])
    then show ?thesis using True Em by (auto simp: holders_upd_def)
  next
    case False
    then have "m_count s' k = m_count s k \<or> m_count s k = 0 \<and> m_count s' k = 1"
      using T by (auto simp: takes_def dest: spec [of _ k])
    then show ?thesis
      using E unfolding excl_def holders_upd_def by (elim disjE) (auto dest: spec [of _ k])
  qed
qed

lemma hstep_excl:
  assumes "hstep x y" "good (fst x)" "excl (fst x) (snd x)"
  shows "good (fst y) \<and> excl (fst y) (snd y)"
  using assms
proof (induction rule: hstep.induct)
  case (hcall s c H r s')
  have g: "good s'" using hcall op_post [of s c] by simp
  note T = count_op [OF hcall(4)]
  show ?case
  proof (cases "releases c")
    case None
    then show ?thesis using excl_takes [of s H s'] T hcall g by (simp add: released_def)
  next
    case (Some m)
    then show ?thesis using excl_released [of s H m s'] T hcall g by (simp add: released_def)
  qed
next
  case (hresume s r s' H)
  then show ?case using resume_post [of s] excl_takes [of s H s'] count_resume [of s r s'] by simp
qed

lemma hstep_run:
  assumes "hstep\<^sup>*\<^sup>* (s0, H0) (s, H)" "good s0" "excl s0 H0"
  shows "excl s H"
proof -
  have "good (fst (s, H)) \<and> excl (fst (s, H)) (snd (s, H))"
    using assms(1) by (induction rule: rtranclp_induct) (use assms hstep_excl in auto)
  then show ?thesis by simp
qed

lemma kern_init_count: "m_count (kern_init stk mem kst0) = (\<lambda>_. 0)"
proof -
  have f: "m_count (fold (\<lambda>i s. upd_lnk (\<lambda>h. init_list_head h (RdqHead i)) s) is s) = m_count s" for "is" s
    by (induction "is" arbitrary: s) simp_all
  have c: "m_count (snd (thr_create_thread stk mem i at s)) = m_count s" for i at s
    by (simp add: thr_create_thread_def Let_def sched_set_ready_eq split: option.split prod.split)
  show ?thesis
    by (simp add: kern_init_def idle_loop_init_def psw_defs upd_preempt_def reaper_init_thread_def c
        thr_init_thread_queue_def wque_init_wait_queue_def sched_init_def rdq_init_ready_queue_def f
        idle_init_idle_def Let_def del: upt_rec_numeral)
      (simp add: kst0_def)
qed

end
