(* ===== verification/Kfair.thy ===== *)
theory Kfair
  imports Ksafety
begin

text \<open>
  Fairness of the round-robin class.  When time passes and nothing else happens, each thread of the
  class gets the processor in turn: the timer interrupt charges the running thread
  (\<^verbatim>\<open>timer_update_thread_time\<close>), and a thread that was suspended runs the rest of the routine it was
  suspended in.
\<close>

section \<open>The passing of time\<close>

inductive tick :: "kst \<Rightarrow> kst \<Rightarrow> bool" where
  slice: "kstack (thrs s (current s)) = [] \<Longrightarrow> timer_update_thread_time s = Ok (r, s') \<Longrightarrow> tick s s'"
| rest: "kstack (thrs s (current s)) \<noteq> [] \<Longrightarrow> resume_current s = Ok (r, s') \<Longrightarrow> tick s s'"

inductive_cases tickE: "tick s s'"

lemma tick_kstep: "tick s s' \<Longrightarrow> kstep s s'"
  by (erule tickE) (auto intro: kstep.intros(2) kstep.intros(1) [where c = Slice])

lemma tick_det: "tick s s' \<Longrightarrow> tick s s'' \<Longrightarrow> s' = s''"
  by (auto elim!: tickE)

text \<open>The suspended routines that only return to their callers.\<close>

fun returns_only :: "frame \<Rightarrow> bool" where
  "returns_only (FSched _) = True"
| "returns_only (FWakeup _) = True"
| "returns_only (FReapAdd _) = True"
| "returns_only (FThreadTime _) = True"
| "returns_only (FReaper _) = True"
| "returns_only (FIdle _) = True"
| "returns_only FStart = True"
| "returns_only _ = False"

definition rr_thread :: "kst \<Rightarrow> thr \<Rightarrow> bool" where
  "rr_thread s t = (list_all returns_only (kstack (thrs s t)) \<and> \<not> dispatch_delayed (preempt (thrs s t)) \<and>
     slice (thrs s t) \<le> CONFIG_TIMER_TIME_SLICE)"

text \<open>The threads \<open>ts\<close> of the round-robin class are ready, no thread of a higher priority is, and the first runs.\<close>

definition rr_run :: "kst \<Rightarrow> thr list \<Rightarrow> bool" where
  "rr_run s ts =
     ((\<exists>a. rdq_ok s a \<and> a_rq a RDQ_USER_RR_PRIORITY = ts \<and>
           (\<forall>p. RDQ_USER_RR_PRIORITY < p \<and> p < RDQ_PRIORITY_MAX \<longrightarrow> a_rq a p = [])) \<and>
      ts \<noteq> [] \<and> current s = hd ts \<and> (\<forall>t \<in> set ts. rr_thread s t))"

section \<open>Steps\<close>

lemma rdq_ok_thrs:
  assumes "rdq_ok s a" "lnk s' = lnk s" "bitmap s' = bitmap s"
    "\<And>t. prio (thrs s' t) = prio (thrs s t)" "\<And>t. status (thrs s t) = THR_TSTATE_RUN \<Longrightarrow> status (thrs s' t) = THR_TSTATE_RUN"
  shows "rdq_ok s' a"
  using assms by (auto simp: rdq_ok_def ready_ok_def)

lemma rr_ready:
  assumes "rdq_ok s a" "t \<in> set (a_rq a 0)"
  shows "t \<noteq> idle_refer_idle_thread" "prio (thrs s t) = 0"
proof -
  have "ready_ok (thrs s) (a_rq a)" using assms(1) by (simp add: rdq_ok_def)
  from this [unfolded ready_ok_def, rule_format, of 0 t] assms(2)
  show "t \<noteq> idle_refer_idle_thread" "prio (thrs s t) = 0" by simp_all
qed

text \<open>What a step may change without touching the queues.\<close>

definition quiet :: "kst \<Rightarrow> kst \<Rightarrow> bool" where
  "quiet s s' = (lnk s' = lnk s \<and> bitmap s' = bitmap s \<and> current s' = current s \<and>
     (\<forall>t. prio (thrs s' t) = prio (thrs s t) \<and> slice (thrs s' t) = slice (thrs s t) \<and> kstack (thrs s' t) = kstack (thrs s t) \<and>
          dispatch_delayed (preempt (thrs s' t)) = dispatch_delayed (preempt (thrs s t)) \<and>
          (status (thrs s t) = THR_TSTATE_RUN \<longrightarrow> status (thrs s' t) = THR_TSTATE_RUN)))"

lemma quiet_refl [simp]: "quiet s s"
  by (simp add: quiet_def)

lemma quiet_trans: "quiet s s' \<Longrightarrow> quiet s' s'' \<Longrightarrow> quiet s s''"
  by (simp add: quiet_def)

lemma quiet_psw [simp]: "quiet s (psw_restore_interrupt b s)" "quiet s (s\<lparr>psw_if := b\<rparr>)"
  by (simp_all add: quiet_def psw_restore_interrupt_def)

lemma quiet_frame:
  assumes "returns_only f"
  shows "\<exists>s'. frame_tail f v s = Ok (Returned 0, s') \<and> quiet s s'"
  using assms
  by (cases f) (simp_all add: quiet_def psw_defs sched_resume_def sched_out_def upd_defs psw_enable_interrupt_def)

lemma quiet_resume:
  "list_all returns_only fs \<Longrightarrow> \<exists>v' s'. resume_frames fs v s = Ok (Returned v', s') \<and> quiet s s'"
proof (induction fs arbitrary: v s)
  case (Cons f fs)
  then obtain s1 where 1: "frame_tail f v s = Ok (Returned 0, s1)" "quiet s s1" using quiet_frame by fastforce
  obtain v' s' where 2: "resume_frames fs 0 s1 = Ok (Returned v', s')" "quiet s1 s'" using Cons by fastforce
  show ?case using 1 2 quiet_trans by auto
qed simp

lemma rr_quiet:
  assumes "rr_run s ts" "quiet s s'"
  shows "rr_run s' ts"
proof -
  have "rdq_ok s' a" if "rdq_ok s a" for a
    by (rule rdq_ok_thrs [OF that]) (use assms(2) in \<open>auto simp: quiet_def\<close>)
  then show ?thesis using assms unfolding rr_run_def rr_thread_def quiet_def by metis
qed

text \<open>The rest of a suspended routine.\<close>

lemma tick_rest:
  assumes rr: "rr_run s ts" and st: "kstack (thrs s (current s)) \<noteq> []"
  shows "\<exists>s'. tick s s' \<and> rr_run s' ts \<and> kstack (thrs s' (current s')) = [] \<and> slice (thrs s' (current s')) = slice (thrs s (current s))"
proof -
  let ?t = "current s" and ?s = "upd_thr (current s) (\<lambda>r. r\<lparr>kstack := []\<rparr>) s"
  have c: "?t \<in> set ts" using rr by (auto simp: rr_run_def)
  then have "list_all returns_only (kstack (thrs s ?t))" using rr by (auto simp: rr_run_def rr_thread_def)
  then obtain v s' where r: "resume_frames (kstack (thrs s ?t)) 0 ?s = Ok (Returned v, s')" "quiet ?s s'"
    using quiet_resume by blast
  have "rdq_ok ?s a" if "rdq_ok s a" for a by (rule rdq_ok_thrs [OF that]) (auto simp: upd_thr_def)
  then have "rr_run ?s ts" using rr unfolding rr_run_def rr_thread_def by (auto simp: upd_thr_def)
  then have "rr_run s' ts" using rr_quiet r(2) by blast
  moreover have "tick s s'" using r(1) st by (auto simp: resume_current_def Let_def intro: tick.rest)
  moreover have "kstack (thrs s' (current s')) = []" "slice (thrs s' (current s')) = slice (thrs s ?t)"
    using r(2) by (simp_all add: quiet_def upd_thr_def)
  ultimately show ?thesis by blast
qed

text \<open>A tick within the time slice.\<close>

lemma tick_within:
  assumes rr: "rr_run s ts" and st: "kstack (thrs s (current s)) = []" and sl: "1 < slice (thrs s (current s))"
  shows "\<exists>s'. tick s s' \<and> rr_run s' ts \<and> kstack (thrs s' (current s')) = [] \<and> slice (thrs s' (current s')) = slice (thrs s (current s)) - 1"
proof -
  let ?t = "current s"
  let ?s = "upd_thr ?t (\<lambda>r. r\<lparr>slice := slice r - 1\<rparr>) (s\<lparr>psw_if := False\<rparr>)"
  let ?s' = "psw_restore_interrupt (psw_if s) ?s"
  obtain a where a: "rdq_ok s a" "a_rq a 0 = ts" "\<forall>p. 0 < p \<and> p < RDQ_PRIORITY_MAX \<longrightarrow> a_rq a p = []"
    using rr by (auto simp: rr_run_def)
  have c: "?t \<in> set ts" using rr by (auto simp: rr_run_def)
  have t: "?t \<noteq> idle_refer_idle_thread" "prio (thrs s ?t) = 0" using rr_ready [OF a(1)] a(2) c by blast+
  have nz: "0 < slice (thrs s ?t)" "slice (thrs s ?t) - 1 \<noteq> 0" using sl by (auto simp: word_less_nat_alt)
  have "timer_update_thread_time s = Ok (Returned 0, ?s')"
    using t nz by (simp add: timer_update_thread_time_def Let_def psw_disable_and_save_interrupt_def
        thr_is_round_robin_thread_def upd_thr_def)
  then have "tick s ?s'" using st by (rule tick.slice [rotated])
  moreover have "rdq_ok ?s' a" by (rule rdq_ok_thrs [OF a(1)]) (auto simp: upd_thr_def psw_restore_interrupt_def)
  moreover have "slice (thrs s ?t) - 1 \<le> CONFIG_TIMER_TIME_SLICE"
  proof -
    have "rr_thread s ?t" using rr c by (simp add: rr_run_def)
    moreover have "1 \<le> slice (thrs s ?t)" using sl by simp
    ultimately show ?thesis by (simp add: rr_thread_def word_le_nat_alt unat_sub) linarith
  qed
  ultimately show ?thesis using rr st a(2,3)
    by (intro exI [of _ ?s']) (auto simp: rr_run_def rr_thread_def upd_thr_def psw_restore_interrupt_def)
qed

text \<open>The tick that ends the time slice: the next thread runs.\<close>

lemma tick_last:
  assumes rr: "rr_run s ts" and st: "kstack (thrs s (current s)) = []" and sl: "slice (thrs s (current s)) \<le> 1"
  shows "\<exists>s'. tick s s' \<and> rr_run s' (rotate1 ts)"
proof -
  let ?t = "current s" and ?s0 = "s\<lparr>psw_if := False\<rparr>"
  define s1 where "s1 = upd_thr ?t (\<lambda>r. r\<lparr>slice := CONFIG_TIMER_TIME_SLICE\<rparr>)
    (if 0 < slice (thrs s ?t) then upd_thr ?t (\<lambda>r. r\<lparr>slice := slice r - 1\<rparr>) ?s0 else ?s0)"
  define s2 where "s2 = sched_rotate_queue s1"
  obtain a where a: "rdq_ok s a" "a_rq a 0 = ts" "\<forall>p. 0 < p \<and> p < RDQ_PRIORITY_MAX \<longrightarrow> a_rq a p = []"
    using rr by (auto simp: rr_run_def)
  have c: "?t \<in> set ts" "?t = hd ts" "ts \<noteq> []" using rr by (auto simp: rr_run_def)
  note t = rr_ready [OF a(1), of ?t, unfolded a(2), OF c(1)]
  let ?a = "a\<lparr>a_rq := (a_rq a)(0 := rotate1 ts)\<rparr>"
  have ok1: "rdq_ok s1 a" by (rule rdq_ok_thrs [OF a(1)]) (auto simp: s1_def upd_thr_def)
  have ok2: "rdq_ok s2 ?a"
    using rdq_ok_rotate [of "s1\<lparr>psw_if := False\<rparr>" a] ok1 a(2)
    by (simp add: s2_def sched_rotate_queue_def Let_def psw_disable_and_save_interrupt_def psw_restore_interrupt_def rdq_ok_def)
  have th2: "thrs s2 = thrs s1" "current s2 = ?t"
    by (simp_all add: s2_def sched_rotate_queue_def Let_def psw_defs upd_defs) (simp_all add: s1_def upd_thr_def)
  have nx: "a_next ?a = hd (rotate1 ts)"
    using rq_select_highest [of 0 "a_rq ?a"] a(3) c(3) by (simp add: a_next_def)
  have th: "rr_thread s2 u \<and> (u = ?t \<longrightarrow> kstack (thrs s2 u) = [])" if "u \<in> set ts" for u
    using that rr st by (auto simp: th2 s1_def upd_thr_def rr_run_def rr_thread_def)
  have z: "slice (thrs (if 0 < slice (thrs s ?t) then upd_thr ?t (\<lambda>r. r\<lparr>slice := slice r - 1\<rparr>) ?s0 else ?s0) ?t) = 0"
    using sl by (auto simp: upd_thr_def word_le_nat_alt word_less_nat_alt word_unat_eq_iff unat_sub le_Suc_eq)
  have run: "timer_update_thread_time s = obind (sched_schedule s2)
      (\<lambda>(r, s'). case r of Switched \<Rightarrow> Ok (Switched, push_frame ?t (FThreadTime (psw_if s)) s')
         | Returned _ \<Rightarrow> Ok (Returned 0, psw_restore_interrupt (psw_if s) s'))"
    unfolding timer_update_thread_time_def Let_def psw_disable_and_save_interrupt_def prod.case s2_def s1_def
    by (subst if_not_P, use t in simp, subst if_not_P, use t in \<open>simp add: thr_is_round_robin_thread_def\<close>, subst if_P)
      (use z in simp_all)
  have nd: "\<not> dispatch_delayed (preempt (thrs s2 (current s2)))" using th [OF c(1)] by (simp add: th2 rr_thread_def)
  note sch = sched_schedule_ok [OF ok2, unfolded nx th2(2)]
  have fin: "tick s s' \<Longrightarrow> rdq_ok s' ?a \<Longrightarrow> current s' = hd (rotate1 ts) \<Longrightarrow> (\<And>u. u \<in> set ts \<Longrightarrow> rr_thread s' u) \<Longrightarrow> ?thesis" for s'
    using a(3) c(3) by (intro exI [of _ s']) (auto simp: rr_run_def intro!: exI [of _ ?a])
  show ?thesis
  proof (cases "hd (rotate1 ts) = ?t")
    case True
    let ?s' = "psw_restore_interrupt (psw_if s) (stay s2)"
    have e: "sched_eq s2 ?s'" by (rule sched_eq_trans [OF stay_eq sched_eq_upd(3)])
    show ?thesis
    proof (rule fin)
      show "tick s ?s'" by (rule tick.slice [OF st]) (use run sch True nd th2(2) in simp)
      show "rdq_ok ?s' ?a" using rdq_ok_cong [OF e] ok2 by simp
      show "current ?s' = hd (rotate1 ts)" using True th2(2) by (simp add: psw_restore_interrupt_def)
      show "rr_thread ?s' u" if "u \<in> set ts" for u
        using th [OF that] e by (simp add: rr_thread_def psw_restore_interrupt_def stay_preempt_delayed sched_eq_def)
    qed
  next
    case False
    let ?s' = "push_frame ?t (FThreadTime (psw_if s)) (switch_to (hd (rotate1 ts)) s2)"
    have e: "sched_eq s2 ?s'" by (rule sched_eq_trans [OF switch_to_eq sched_eq_upd(2)])
    have d: "dispatch_delayed (preempt (thrs ?s' u)) = dispatch_delayed (preempt (thrs s2 u))" for u
      by (simp add: switch_to_def Let_def upd_preempt_def push_frame_def upd_thr_def)
    show ?thesis
    proof (rule fin)
      show "tick s ?s'" by (rule tick.slice [OF st]) (use run sch False nd th2(2) in simp)
      show "rdq_ok ?s' ?a" using rdq_ok_cong [OF e] ok2 by simp
      show "current ?s' = hd (rotate1 ts)" by (simp add: push_frame_def upd_thr_def)
      show "rr_thread ?s' u" if "u \<in> set ts" for u
      proof -
        have "list_all returns_only (kstack (thrs ?s' u))"
          using th [OF that] th2(2) by (simp add: rr_thread_def push_frame_def upd_thr_def)
        then show ?thesis using th [OF that] e d [of u] unfolding rr_thread_def by (simp add: sched_eq_def)
      qed
    qed
  qed
qed

section \<open>Progress\<close>

text \<open>Within one time slice and one step the next thread of the class runs.\<close>

lemma ticks_Suc: "tick s s1 \<Longrightarrow> (tick ^^ n) s1 s' \<Longrightarrow> (tick ^^ Suc n) s s'"
  by (rule relpowp_Suc_I2)

lemma rr_slice:
  "rr_run s ts \<Longrightarrow> kstack (thrs s (current s)) = [] \<Longrightarrow> unat (slice (thrs s (current s))) \<le> Suc k \<Longrightarrow>
     \<exists>n s'. n \<le> Suc k \<and> (tick ^^ n) s s' \<and> rr_run s' (rotate1 ts)"
proof (induction k arbitrary: s)
  case 0
  then have "slice (thrs s (current s)) \<le> 1" by (simp add: word_le_nat_alt)
  then show ?case using tick_last [OF 0(1,2)] by (metis relpowp_1 One_nat_def order_refl)
next
  case (Suc k)
  show ?case
  proof (cases "slice (thrs s (current s)) \<le> 1")
    case True
    then show ?thesis using tick_last [OF Suc.prems(1,2)] by (metis One_nat_def Suc_le_mono le0 relpowp_1)
  next
    case False
    then have lt: "1 < slice (thrs s (current s))" by simp
    obtain s1 where 1: "tick s s1" "rr_run s1 ts" "kstack (thrs s1 (current s1)) = []"
      "slice (thrs s1 (current s1)) = slice (thrs s (current s)) - 1" using tick_within [OF Suc.prems(1,2) lt] by blast
    have "unat (slice (thrs s1 (current s1))) \<le> Suc k"
      using 1(4) Suc.prems(3) lt by (simp add: unat_sub word_le_nat_alt word_less_nat_alt)
    then obtain n s' where "n \<le> Suc k" "(tick ^^ n) s1 s'" "rr_run s' (rotate1 ts)" using Suc.IH [OF 1(2,3)] by blast
    then show ?thesis using 1(1) by (intro exI [of _ "Suc n"] exI [of _ s'] conjI ticks_Suc [OF 1(1)]) simp_all
  qed
qed

lemma rr_turn:
  assumes "rr_run s ts"
  shows "\<exists>n s'. n \<le> 11 \<and> (tick ^^ n) s s' \<and> rr_run s' (rotate1 ts)"
proof -
  have go: "\<exists>n s'. n \<le> 10 \<and> (tick ^^ n) u s' \<and> rr_run s' (rotate1 ts)" if "rr_run u ts" "kstack (thrs u (current u)) = []" for u
  proof -
    have "rr_thread u (current u)" using that(1) by (auto simp: rr_run_def)
    then have "unat (slice (thrs u (current u))) \<le> Suc 9" by (simp add: rr_thread_def word_le_nat_alt)
    from rr_slice [OF that this] show ?thesis by auto
  qed
  show ?thesis
  proof (cases "kstack (thrs s (current s)) = []")
    case True
    then obtain n s' where "n \<le> 10" "(tick ^^ n) s s'" "rr_run s' (rotate1 ts)" using go [OF assms] by blast
    then show ?thesis by (intro exI [of _ n] exI [of _ s']) simp
  next
    case False
    then obtain s1 where 1: "tick s s1" "rr_run s1 ts" "kstack (thrs s1 (current s1)) = []" using tick_rest [OF assms] by blast
    obtain n s' where "n \<le> 10" "(tick ^^ n) s1 s'" "rr_run s' (rotate1 ts)" using go [OF 1(2,3)] by blast
    then show ?thesis using 1(1) by (intro exI [of _ "Suc n"] exI [of _ s'] conjI ticks_Suc [OF 1(1)]) simp_all
  qed
qed

lemma rr_turns:
  "rr_run s ts \<Longrightarrow> \<exists>n s'. n \<le> k * 11 \<and> (tick ^^ n) s s' \<and> rr_run s' (rotate k ts)"
proof (induction k)
  case 0
  then show ?case by (intro exI [of _ 0] exI [of _ s]) simp
next
  case (Suc k)
  obtain n s1 where 1: "n \<le> k * 11" "(tick ^^ n) s s1" "rr_run s1 (rotate k ts)" using Suc by blast
  obtain m s' where 2: "m \<le> 11" "(tick ^^ m) s1 s'" "rr_run s' (rotate1 (rotate k ts))" using rr_turn [OF 1(3)] by blast
  have "(tick ^^ (n + m)) s s'" using 1(2) 2(2) by (auto simp: relpowp_add)
  then show ?case using 1(1) 2 by (intro exI [of _ "n + m"] exI [of _ s']) simp
qed


text \<open>Two threads of the class that have just been made ready.\<close>

definition two_threads :: kst where
  "two_threads = (rdq_add_thread 3 (rdq_add_thread 2 kst0))\<lparr>current := 2\<rparr>"

lemma two_threads_rr: "rr_run two_threads [2, 3]"
proof -
  let ?a = "a_add 0 3 (a_add 0 2 a0)"
  have z: "thrs kst0 = (\<lambda>_. thr_zero)" by (simp add: kst0_def)
  have "rdq_ok kst0 a0" using kst0_links by (simp add: rdq_ok_def bitmap_ok_def ready_ok_def kst0_def a0_def)
  then have "rdq_ok (rdq_add_thread 2 kst0) (a_add 0 2 a0)"
    by (rule rdq_ok_add) (simp_all add: z thr_zero_def thr_queued_def a0_def idle_refer_idle_thread_def)
  then have "rdq_ok (rdq_add_thread 3 (rdq_add_thread 2 kst0)) ?a"
    by (rule rdq_ok_add) (simp_all add: z thr_zero_def thr_queued_def a0_def a_add_def idle_refer_idle_thread_def)
  then have "rdq_ok two_threads ?a" by (simp add: two_threads_def rdq_ok_def)
  moreover have "a_rq ?a 0 = [2, 3]" "\<forall>p. 0 < p \<and> p < 16 \<longrightarrow> a_rq ?a p = []" by (simp_all add: a_add_def a0_def)
  moreover have "rr_thread two_threads t" for t
    by (simp add: rr_thread_def two_threads_def z thr_zero_def dispatch_delayed_def ti_refer_preempt_count_def
        ti_refer_irq_count_def ti_refer_pre_count_def)
  ultimately show ?thesis unfolding rr_run_def by (auto simp: two_threads_def)
qed


end
