(* ===== verification/Kmonad.thy ===== *)
theory Kmonad
  imports Kprelude
begin

text \<open>
  State passing with outcomes, for the components whose routines run to completion in one thread.
  A routine takes the state and either stops or returns a value and the new state.  \<open>runs\<close> says
  that a routine returns a given result; it is the notion the component lemmas are stated with.
\<close>

type_synonym ('s, 'a) kfun = "'s \<Rightarrow> ('a \<times> 's) outcome"

section \<open>Combinators\<close>

definition mret :: "'a \<Rightarrow> ('s, 'a) kfun" where
  "mret x s = Ok (x, s)"

definition mbind :: "('s, 'a) kfun \<Rightarrow> ('a \<Rightarrow> ('s, 'b) kfun) \<Rightarrow> ('s, 'b) kfun" where
  "mbind m f s = obind (m s) (\<lambda>(x, s'). f x s')"

definition mthen :: "('s, 'a) kfun \<Rightarrow> ('s, 'b) kfun \<Rightarrow> ('s, 'b) kfun" where
  "mthen m n = mbind m (\<lambda>_. n)"

definition mget :: "('s \<Rightarrow> 'a) \<Rightarrow> ('s, 'a) kfun" where
  "mget f s = Ok (f s, s)"

definition mmod :: "('s \<Rightarrow> 's) \<Rightarrow> ('s, unit) kfun" where
  "mmod f s = Ok ((), f s)"

definition mstop :: "stop \<Rightarrow> ('s, 'a) kfun" where
  "mstop x s = Stop x"

definition massert :: "bool \<Rightarrow> ('s, unit) kfun" where
  "massert b = (if b then mret () else mstop Kassert)"

definition mguard :: "bool \<Rightarrow> ('s, unit) kfun" where
  "mguard b = (if b then mret () else mstop Kfault)"

definition mwhen :: "bool \<Rightarrow> ('s, unit) kfun \<Rightarrow> ('s, unit) kfun" where
  "mwhen b m = (if b then m else mret ())"

text \<open>A counting loop whose body may leave it with a value.\<close>

fun mfor :: "'x list \<Rightarrow> ('x \<Rightarrow> ('s, 'a option) kfun) \<Rightarrow> ('s, 'a option) kfun" where
  "mfor [] body = mret None"
| "mfor (x # xs) body =
     mbind (body x) (\<lambda>r. case r of Some v \<Rightarrow> mret (Some v) | None \<Rightarrow> mfor xs body)"

text \<open>A counting loop without early exit.\<close>

fun mfor_each :: "'x list \<Rightarrow> ('x \<Rightarrow> ('s, unit) kfun) \<Rightarrow> ('s, unit) kfun" where
  "mfor_each [] body = mret ()"
| "mfor_each (x # xs) body = mthen (body x) (mfor_each xs body)"

section \<open>Running\<close>

definition runs :: "('s, 'a) kfun \<Rightarrow> 's \<Rightarrow> 'a \<Rightarrow> 's \<Rightarrow> bool" where
  "runs m s x s' = (m s = Ok (x, s'))"

named_theorems mrun

lemma runs_mret [mrun]: "runs (mret x) s y s' \<longleftrightarrow> y = x \<and> s' = s"
  by (auto simp: runs_def mret_def)

lemma runs_mbind [mrun]: "runs (mbind m f) s y s'' \<longleftrightarrow> (\<exists>x s'. runs m s x s' \<and> runs (f x) s' y s'')"
  by (auto simp: runs_def mbind_def obind_eq_Ok)

lemma runs_mthen [mrun]: "runs (mthen m n) s y s'' \<longleftrightarrow> (\<exists>x s'. runs m s x s' \<and> runs n s' y s'')"
  by (simp add: mthen_def runs_mbind)

lemma runs_mget [mrun]: "runs (mget f) s y s' \<longleftrightarrow> y = f s \<and> s' = s"
  by (auto simp: runs_def mget_def)

lemma runs_mmod [mrun]: "runs (mmod f) s y s' \<longleftrightarrow> s' = f s"
  by (auto simp: runs_def mmod_def)

lemma runs_mstop [mrun]: "\<not> runs (mstop x) s y s'"
  by (simp add: runs_def mstop_def)

lemma runs_massert [mrun]: "runs (massert b) s y s' \<longleftrightarrow> b \<and> s' = s"
  by (auto simp: massert_def mrun)

lemma runs_mguard [mrun]: "runs (mguard b) s y s' \<longleftrightarrow> b \<and> s' = s"
  by (auto simp: mguard_def mrun)

lemma runs_mwhen [mrun]: "runs (mwhen b m) s y s' \<longleftrightarrow> (if b then runs m s y s' else s' = s)"
  by (auto simp: mwhen_def mrun)

lemma runs_mbindI: "runs m s x s' \<Longrightarrow> runs (f x) s' y s'' \<Longrightarrow> runs (mbind m f) s y s''"
  by (auto simp: runs_mbind)

lemma runs_mthenI: "runs m s x s' \<Longrightarrow> runs n s' y s'' \<Longrightarrow> runs (mthen m n) s y s''"
  by (auto simp: runs_mthen)

lemma runs_mgetI: "runs (f (g s)) s y s'' \<Longrightarrow> runs (mbind (mget g) f) s y s''"
  by (auto simp: runs_mbind runs_mget)

lemma runs_iff: "runs m s x s' \<Longrightarrow> runs m s y t \<longleftrightarrow> y = x \<and> t = s'"
  by (auto simp: runs_def)

lemma runs_det: "runs m s x s' \<Longrightarrow> runs m s y s'' \<Longrightarrow> y = x \<and> s'' = s'"
  by (simp add: runs_def)

lemma runsD: "runs m s x s' \<Longrightarrow> m s = Ok (x, s')"
  by (simp add: runs_def)

text \<open>Running a counting loop, by an invariant of its index.\<close>

lemma runs_mfor_each_upt:
  assumes "P a s" "\<And>i s. a \<le> i \<Longrightarrow> i < n \<Longrightarrow> P i s \<Longrightarrow> \<exists>s'. runs (body i) s () s' \<and> P (Suc i) s'" "a \<le> n"
  shows "\<exists>s'. runs (mfor_each [a..<n] body) s () s' \<and> P n s'"
  using assms
proof (induction "n - a" arbitrary: a s)
  case 0
  then show ?case by (simp add: mrun)
next
  case (Suc k)
  then have "a < n" by simp
  then obtain s1 where "runs (body a) s () s1" "P (Suc a) s1" using Suc.prems by blast
  moreover obtain s' where "runs (mfor_each [Suc a..<n] body) s1 () s'" "P n s'"
    using Suc.hyps(1) [of "Suc a" s1] Suc.hyps(2) Suc.prems(2) \<open>P (Suc a) s1\<close> \<open>a < n\<close> by force
  ultimately show ?case using \<open>a < n\<close> by (auto simp: upt_conv_Cons intro: runs_mthenI)
qed

lemma runs_mfor_upt:
  assumes "P a s" "\<And>i s. a \<le> i \<Longrightarrow> i < n \<Longrightarrow> P i s \<Longrightarrow>
      (\<exists>s'. runs (body i) s None s' \<and> P (Suc i) s') \<or> (\<exists>v s'. runs (body i) s (Some v) s' \<and> Q i v s')" "a \<le> n"
  shows "(\<exists>s'. runs (mfor [a..<n] body) s None s' \<and> P n s') \<or>
    (\<exists>i v s'. a \<le> i \<and> i < n \<and> runs (mfor [a..<n] body) s (Some v) s' \<and> Q i v s')"
  using assms
proof (induction "n - a" arbitrary: a s)
  case 0
  then show ?case by (simp add: mrun)
next
  case (Suc k)
  then have a: "a < n" by simp
  from Suc.prems(2) [OF order_refl a Suc.prems(1)] show ?case
  proof (elim disjE exE conjE)
    fix s1 assume s1: "runs (body a) s None s1" "P (Suc a) s1"
    have step: "runs (mfor [a..<n] body) s r s'" if "runs (mfor [Suc a..<n] body) s1 r s'" for r s'
      using a that by (simp add: upt_conv_Cons runs_mbindI [OF s1(1)])
    have "(\<exists>s'. runs (mfor [Suc a..<n] body) s1 None s' \<and> P n s') \<or>
      (\<exists>i v s'. Suc a \<le> i \<and> i < n \<and> runs (mfor [Suc a..<n] body) s1 (Some v) s' \<and> Q i v s')"
      using Suc.hyps(1) [of "Suc a" s1] Suc.hyps(2) Suc.prems(2) s1(2) a by force
    then show ?thesis using step by (blast dest: Suc_leD)
  next
    fix v s' assume "runs (body a) s (Some v) s'" "Q a v s'"
    moreover have "runs (mfor [a..<n] body) s (Some v) s'"
      using a \<open>runs (body a) s (Some v) s'\<close> by (auto simp: upt_conv_Cons runs_mret intro: runs_mbindI)
    ultimately show ?thesis using a by blast
  qed
qed

text \<open>Executing with \<open>simp\<close>: what each combinator does in a given state.\<close>

lemma mexec:
  "mret x s = Ok (x, s)" "mbind m f s = obind (m s) (\<lambda>(x, s'). f x s')"
  "mthen m n s = obind (m s) (\<lambda>(x, s'). n s')" "mget g s = Ok (g s, s)" "mmod h s = Ok ((), h s)"
  "mstop e s = Stop e" "massert b s = (if b then Ok ((), s) else Stop Kassert)"
  "mguard b s = (if b then Ok ((), s) else Stop Kfault)" "mwhen b k s = (if b then k s else Ok ((), s))"
  by (simp_all add: mret_def mbind_def mthen_def mget_def mmod_def mstop_def massert_def mguard_def mwhen_def)

text \<open>Laws of the combinators, and replacing the parts of a routine.\<close>

lemma mbind_cong:
  "m s = m' s \<Longrightarrow> (\<And>x s'. runs m' s x s' \<Longrightarrow> f x s' = g x s') \<Longrightarrow> mbind m f s = mbind m' g s"
  by (cases "m' s") (auto simp: mexec runs_def)

lemma mthen_cong:
  "m s = m' s \<Longrightarrow> (\<And>x s'. runs m' s x s' \<Longrightarrow> f s' = g s') \<Longrightarrow> mthen m f s = mthen m' g s"
  unfolding mthen_def by (rule mbind_cong)

lemma mbind_assoc: "mbind (mbind m f) g = mbind m (\<lambda>x. mbind (f x) g)"
  by (rule ext) (simp add: mexec obind_assoc split_def)

lemma mbind_mthen: "mbind (mthen m n) g = mthen m (mbind n g)"
  by (simp add: mthen_def mbind_assoc)

lemma mbind_mret: "mbind (mret x) f = f x"
  by (rule ext) (simp add: mexec)

lemma mbind_mget: "mbind (mget g) f s = f (g s) s"
  by (simp add: mexec)

section \<open>Invariants and frames\<close>

text \<open>\<open>keeps I m\<close>: whenever \<open>m\<close> returns, a relation between the states before and after holds.\<close>

definition keeps :: "('s \<Rightarrow> 's \<Rightarrow> bool) \<Rightarrow> ('s, 'a) kfun \<Rightarrow> bool" where
  "keeps R m = (\<forall>s x s'. runs m s x s' \<longrightarrow> R s s')"

lemma keepsD: "keeps R m \<Longrightarrow> runs m s x s' \<Longrightarrow> R s s'"
  by (auto simp: keeps_def)

lemma keeps_mbind:
  assumes "transp R" "keeps R m" "\<And>x. keeps R (f x)"
  shows "keeps R (mbind m f)"
  using assms unfolding keeps_def runs_mbind by (meson transpD)

lemma keeps_mthen: "transp R \<Longrightarrow> keeps R m \<Longrightarrow> keeps R n \<Longrightarrow> keeps R (mthen m n)"
  unfolding mthen_def by (rule keeps_mbind)

lemma keeps_refl:
  assumes "reflp R"
  shows "keeps R (mret x)" "keeps R (mget f)" "keeps R (mstop e)" "keeps R (massert b)" "keeps R (mguard b)"
    "keeps R m \<Longrightarrow> keeps R (mwhen b m)"
  using assms by (auto simp: keeps_def mrun reflpD)

lemma keeps_mmod: "(\<And>s. R s (f s)) \<Longrightarrow> keeps R (mmod f)"
  by (auto simp: keeps_def mrun)

lemma keeps_if: "(b \<Longrightarrow> keeps R m) \<Longrightarrow> (\<not> b \<Longrightarrow> keeps R n) \<Longrightarrow> keeps R (if b then m else n)"
  by simp

lemma keeps_mfor:
  assumes "reflp R" "transp R" "\<And>x. keeps R (body x)"
  shows "keeps R (mfor xs body)"
  by (induction xs) (auto simp: keeps_refl [OF assms(1)] assms(3) intro!: keeps_mbind [OF assms(2)] split: option.split)

lemma keeps_mfor_each:
  assumes "reflp R" "transp R" "\<And>x. keeps R (body x)"
  shows "keeps R (mfor_each xs body)"
  by (induction xs) (auto simp: keeps_refl [OF assms(1)] assms(3) intro!: keeps_mthen [OF assms(2)])

lemma keeps_case_option: "(p = None \<Longrightarrow> keeps R m) \<Longrightarrow> (\<And>x. p = Some x \<Longrightarrow> keeps R (f x)) \<Longrightarrow> keeps R (case p of None \<Rightarrow> m | Some x \<Rightarrow> f x)"
  by (cases p) auto

lemma keeps_case_prod: "(\<And>x y. p = (x, y) \<Longrightarrow> keeps R (f x y)) \<Longrightarrow> keeps R (case p of (x, y) \<Rightarrow> f x y)"
  by (cases p) auto

lemma keeps_case_sum: "(\<And>x. keeps R (f x)) \<Longrightarrow> (\<And>y. keeps R (g y)) \<Longrightarrow> keeps R (case p of Inl x \<Rightarrow> f x | Inr y \<Rightarrow> g y)"
  by (cases p) auto

lemma keeps_let: "keeps R (f x) \<Longrightarrow> keeps R (let y = x in f y)"
  by simp

text \<open>An invariant of the state, as such a relation.\<close>

definition inv_rel :: "('s \<Rightarrow> bool) \<Rightarrow> 's \<Rightarrow> 's \<Rightarrow> bool" where
  "inv_rel I s s' = (I s \<longrightarrow> I s')"

lemma inv_rel_po [simp]: "reflp (inv_rel I)" "transp (inv_rel I)"
  by (auto simp: inv_rel_def intro: reflpI transpI)

end
