(* ===== verification/Kwalk.thy ===== *)
theory Kwalk
  imports Klist Kmonad "HOL-Library.While_Combinator"
begin

text \<open>
  The loops \<^verbatim>\<open>list_for_each\<close> and \<^verbatim>\<open>reverse_for_each\<close> of \<^verbatim>\<open>include/kern/list.h\<close>: they follow the
  pointers of a ring until they are back at its head.  A walk that looks for a node is
  \<open>list_for_each\<close> with the condition that leaves it; it is undefined (\<open>None\<close>) when the pointers
  never come back to the head.  \<open>list_walk\<close> is the loop with a body that acts on the state.
\<close>

definition list_for_each :: "'a links \<Rightarrow> 'a \<Rightarrow> ('a \<Rightarrow> bool) \<Rightarrow> 'a option" where
  "list_for_each h head found =
     while_option (\<lambda>itr. itr \<noteq> head \<and> \<not> found itr) (\<lambda>itr. l_next (h itr)) (list_ref_top h head)"

definition reverse_for_each :: "'a links \<Rightarrow> 'a \<Rightarrow> ('a \<Rightarrow> bool) \<Rightarrow> 'a option" where
  "reverse_for_each h head found =
     while_option (\<lambda>itr. itr \<noteq> head \<and> \<not> found itr) (\<lambda>itr. l_prev (h itr)) (list_ref_tail h head)"

lemma while_chain:
  assumes "head \<notin> set xs" "\<And>i. i < length xs \<Longrightarrow> step (xs ! i) = (xs @ [head]) ! Suc i"
  shows "while_option (\<lambda>itr. itr \<noteq> head \<and> \<not> found itr) step (hd (xs @ [head])) =
    Some (case find found xs of None \<Rightarrow> head | Some x \<Rightarrow> x)"
  using assms
proof (induction xs)
  case Nil
  then show ?case by (subst while_option_unfold) simp
next
  case (Cons x xs)
  have "step x = hd (xs @ [head])" using Cons.prems(2) [of 0] by (cases xs) auto
  moreover have "step (xs ! i) = (xs @ [head]) ! Suc i" if "i < length xs" for i
    using Cons.prems(2) [of "Suc i"] that by simp
  ultimately show ?case using Cons by (subst while_option_unfold) auto
qed

lemma chain_nth:
  assumes "chain h xs" "Suc i < length xs"
  shows "l_next (h (xs ! i)) = xs ! Suc i" "l_prev (h (xs ! Suc i)) = xs ! i"
proof -
  have "l_next (h (xs ! i)) = xs ! Suc i \<and> l_prev (h (xs ! Suc i)) = xs ! i"
    using assms
  proof (induction h xs arbitrary: i rule: chain.induct)
    case (1 h a b r)
    then show ?case by (cases i) auto
  qed auto
  then show "l_next (h (xs ! i)) = xs ! Suc i" "l_prev (h (xs ! Suc i)) = xs ! i" by auto
qed

theorem list_for_each_is_list:
  assumes "is_list h head xs"
  shows "list_for_each h head found = Some (case find found xs of None \<Rightarrow> head | Some x \<Rightarrow> x)"
proof -
  have "list_ref_top h head = hd (xs @ [head])"
    using chain_nth(1) [of h "head # xs @ [head]" 0] assms by (cases xs) (auto simp: is_list_def list_ref_top_def)
  moreover have "l_next (h (xs ! i)) = (xs @ [head]) ! Suc i" if "i < length xs" for i
    using chain_nth(1) [of h "head # xs @ [head]" "Suc i"] assms that by (simp add: is_list_def nth_append)
  ultimately show ?thesis unfolding list_for_each_def using assms by (simp add: while_chain is_list_def)
qed

theorem reverse_for_each_is_list:
  assumes "is_list h head xs"
  shows "reverse_for_each h head found = Some (case find found (rev xs) of None \<Rightarrow> head | Some x \<Rightarrow> x)"
proof -
  let ?c = "head # xs @ [head]"
  have c: "chain h ?c" and d: "head \<notin> set (rev xs)" using assms by (auto simp: is_list_def)
  have t: "list_ref_tail h head = hd (rev xs @ [head])"
    using chain_nth(2) [OF c, of "length xs"]
    by (cases xs rule: rev_cases) (auto simp: list_ref_tail_def nth_append)
  have n: "l_prev (h (rev xs ! i)) = (rev xs @ [head]) ! Suc i" if i: "i < length (rev xs)" for i
  proof -
    define k where "k = length xs - Suc i"
    have k: "k < length xs" "rev xs ! i = ?c ! Suc k" using i by (auto simp: k_def rev_nth nth_append)
    have "(rev xs @ [head]) ! Suc i = ?c ! k"
    proof (cases "Suc i < length xs")
      case True
      then have "k = Suc (length xs - Suc (Suc i))" by (simp add: k_def)
      then show ?thesis using True by (auto simp: nth_append rev_nth)
    next
      case False
      then have "k = 0" "Suc i = length xs" using i by (auto simp: k_def)
      then show ?thesis by (simp add: nth_append)
    qed
    then show ?thesis using chain_nth(2) [OF c, of k] k by simp
  qed
  show ?thesis unfolding reverse_for_each_def t by (rule while_chain [OF d n])
qed

section \<open>Loops that act on the state\<close>

text \<open>The loop over a ring held in the state, whose body may change the state and an accumulator.\<close>

definition list_walk :: "('s \<Rightarrow> 'n links) \<Rightarrow> 'n \<Rightarrow> ('n \<Rightarrow> 'a \<Rightarrow> ('s, 'a) kfun) \<Rightarrow> 'a \<Rightarrow> ('s, 'a) kfun" where
  "list_walk lk head body a s =
     (case while_option (\<lambda>r. case r of Ok (itr, a, s) \<Rightarrow> itr \<noteq> head | Stop _ \<Rightarrow> False)
        (\<lambda>r. obind r (\<lambda>(itr, a, s). obind (body itr a s) (\<lambda>(a, s). Ok (l_next (lk s itr), a, s))))
        (Ok (list_ref_top (lk s) head, a, s)) of
        Some (Ok (_, a, s)) \<Rightarrow> Ok (a, s)
      | Some (Stop e) \<Rightarrow> Stop e
      | None \<Rightarrow> Stop Kblocked)"

text \<open>The same loop over the list of the nodes.\<close>

fun mfold :: "('x \<Rightarrow> 'a \<Rightarrow> ('s, 'a) kfun) \<Rightarrow> 'x list \<Rightarrow> 'a \<Rightarrow> ('s, 'a) kfun" where
  "mfold body [] a = mret a"
| "mfold body (x # xs) a = mbind (body x a) (mfold body xs)"

text \<open>A walk over a ring that its body does not touch visits the nodes in order.\<close>

lemma while_walk:
  assumes "chain h (xs @ [head])" "head \<notin> set xs" "lk s = h" "I s"
    and "\<And>x a s b s'. x \<in> set xs \<Longrightarrow> I s \<Longrightarrow> runs (body x a) s b s' \<Longrightarrow> lk s' = lk s \<and> I s'"
  shows "while_option (\<lambda>r. case r of Ok (itr, a, s) \<Rightarrow> itr \<noteq> head | Stop _ \<Rightarrow> False)
        (\<lambda>r. obind r (\<lambda>(itr, a, s). obind (body itr a s) (\<lambda>(a, s). Ok (l_next (lk s itr), a, s))))
        (Ok (hd (xs @ [head]), a, s)) =
    Some (obind (mfold body xs a s) (\<lambda>(a, s). Ok (head, a, s)))"
  using assms
proof (induction xs arbitrary: a s)
  case Nil
  then show ?case by (subst while_option_unfold) (simp add: mexec)
next
  case (Cons x xs)
  note w = while_option_unfold
  show ?case
  proof (cases "body x a s")
    case (Stop e)
    have "x \<noteq> head" using Cons.prems(2) by auto
    with Stop show ?thesis by (subst w, subst w) (simp add: mexec)
  next
    case (Ok p)
    obtain b s' where p: "p = (b, s')" by (cases p)
    have r: "lk s' = lk s \<and> I s'" by (rule Cons.prems(5) [of x s a b s']) (use Cons.prems(4) Ok p in \<open>simp_all add: runs_def\<close>)
    have c: "chain h (xs @ [head])" "l_next (h x) = hd (xs @ [head])" using Cons.prems(1) by (cases xs; simp)+
    have d: "head \<notin> set xs" "x \<noteq> head" "lk s' = h" using Cons.prems(2,3) r by auto
    have "while_option (\<lambda>r. case r of Ok (itr, a, s) \<Rightarrow> itr \<noteq> head | Stop _ \<Rightarrow> False)
        (\<lambda>r. obind r (\<lambda>(itr, a, s). obind (body itr a s) (\<lambda>(a, s). Ok (l_next (lk s itr), a, s))))
        (Ok (hd (xs @ [head]), b, s')) = Some (obind (mfold body xs b s') (\<lambda>(a, s). Ok (head, a, s)))"
      by (rule Cons.IH [OF c(1) d(1,3) conjunct2 [OF r]]) (rule Cons.prems(5) [OF list.set_intros(2)])
    then show ?thesis by (subst w) (simp add: Ok p d(2,3) c(2) mexec)
  qed
qed

lemma list_walk_is_list:
  assumes L: "is_list (lk s) head xs" and I: "I s"
    and step: "\<And>x a s b s'. x \<in> set xs \<Longrightarrow> I s \<Longrightarrow> runs (body x a) s b s' \<Longrightarrow> lk s' = lk s \<and> I s'"
  shows "list_walk lk head body a s = mfold body xs a s"
proof -
  have c: "chain (lk s) (xs @ [head])" "list_ref_top (lk s) head = hd (xs @ [head])" "head \<notin> set xs"
    using L by (cases xs; auto simp: is_list_def list_ref_top_def)+
  from while_walk [where body = body and lk = lk and a = a, OF c(1,3) refl I step]
  show ?thesis unfolding list_walk_def c(2) by (cases "mfold body xs a s") (simp_all split: prod.split)
qed

lemma keeps_list_walk:
  fixes body :: "'n \<Rightarrow> 'a \<Rightarrow> ('s, 'a) kfun"
  assumes "reflp R" "transp R" "\<And>x a. keeps R (body x a)"
  shows "keeps R (list_walk lk head body a)"
proof -
  have "R s s'" if r: "runs (list_walk lk head body a) s x s'" for s x s'
  proof -
    obtain itr b t where w: "while_option (\<lambda>r. case r of Ok (itr, a, s) \<Rightarrow> itr \<noteq> head | Stop _ \<Rightarrow> False)
        (\<lambda>r. obind r (\<lambda>(itr, a, s). obind (body itr a s) (\<lambda>(a, s). Ok (l_next (lk s itr), a, s))))
        (Ok (list_ref_top (lk s) head, a, s)) = Some (Ok (itr, b, t))" and t: "t = s'"
      using r by (auto simp: runs_def list_walk_def split: option.splits outcome.splits)
    have "case Ok (itr, b, t) of Ok (_, _, t) \<Rightarrow> R s t | Stop _ \<Rightarrow> True"
    proof (rule while_option_rule [where P = "\<lambda>r. case r of Ok (_, _, t) \<Rightarrow> R s t | Stop _ \<Rightarrow> True", OF _ w])
      fix r :: "('n \<times> 'a \<times> 's) outcome"
      assume I: "case r of Ok (_, _, t) \<Rightarrow> R s t | Stop _ \<Rightarrow> True"
      show "case obind r (\<lambda>(itr, a, s). obind (body itr a s) (\<lambda>(a, s). Ok (l_next (lk s itr), a, s))) of
          Ok (_, _, t) \<Rightarrow> R s t | Stop _ \<Rightarrow> True"
      proof (cases r)
        case (Ok p)
        obtain i a u where p: "p = (i, a, u)" by (cases p)
        have "R s v" if "body i a u = Ok (b, v)" for b v
          using I Ok p that assms(3) [of i a] transpD [OF assms(2)] unfolding keeps_def runs_def by fastforce
        then show ?thesis using Ok p by (cases "body i a u") auto
      qed simp
    qed (use assms(1) in \<open>simp add: reflpD\<close>)
    then show ?thesis using t by simp
  qed
  then show ?thesis by (simp add: keeps_def)
qed

lemma keeps_mfold:
  assumes "reflp R" "transp R" "\<And>x a. keeps R (body x a)"
  shows "keeps R (mfold body xs a)"
  by (induction xs arbitrary: a) (simp_all add: keeps_refl [OF assms(1)] keeps_mbind [OF assms(2)] assms(3))

end
