(* ===== verification/Kbytes.thy ===== *)
theory Kbytes
  imports Kprelude
begin

text \<open>
  Structures in byte buffers.  The file system and \<^verbatim>\<open>mkfs\<close> read and write C structures in blocks of
  bytes; the machine is little-endian.  A field of a structure is an interface (\<open>byte_field\<close>) with
  the laws its users rely on; the 32- and 64-bit fields are its interpretations.
\<close>

section \<open>Little-endian numbers\<close>

fun le_dec :: "u8 list \<Rightarrow> nat" where
  "le_dec [] = 0"
| "le_dec (b # bs) = unat b + 256 * le_dec bs"

fun le_enc :: "nat \<Rightarrow> nat \<Rightarrow> u8 list" where
  "le_enc 0 v = []"
| "le_enc (Suc n) v = of_nat (v mod 256) # le_enc n (v div 256)"

lemma length_le_enc [simp]: "length (le_enc n v) = n"
  by (induction n arbitrary: v) simp_all

lemma le_dec_enc: "le_dec (le_enc n v) = v mod 256 ^ n"
proof (induction n arbitrary: v)
  case (Suc n)
  have "unat (of_nat (v mod 256) :: u8) = v mod 256" by (simp add: unat_of_nat)
  then show ?case using Suc by (simp add: mod_mult2_eq)
qed simp

lemma le_dec_bound: "le_dec bs < 256 ^ length bs"
proof (induction bs)
  case (Cons b bs)
  have "unat b < 256" using unsigned_less [of b] by simp
  then show ?case using Cons by simp
qed simp

lemma le_enc_dec: "le_enc (length bs) (le_dec bs) = bs"
proof (induction bs)
  case (Cons b bs)
  have "unat b < 256" using unsigned_less [of b] by simp
  then show ?case using Cons by simp
qed simp

section \<open>Fields\<close>

definition get32 :: "u8 list \<Rightarrow> nat \<Rightarrow> u32" where
  "get32 d k = of_nat (le_dec (take 4 (drop k d)))"

definition put32 :: "u8 list \<Rightarrow> nat \<Rightarrow> u32 \<Rightarrow> u8 list" where
  "put32 d k v = take k d @ le_enc 4 (unat v) @ drop (k + 4) d"

definition get64 :: "u8 list \<Rightarrow> nat \<Rightarrow> u64" where
  "get64 d k = of_nat (le_dec (take 8 (drop k d)))"

definition put64 :: "u8 list \<Rightarrow> nat \<Rightarrow> u64 \<Rightarrow> u8 list" where
  "put64 d k v = take k d @ le_enc 8 (unat v) @ drop (k + 8) d"

text \<open>A run of bytes, as \<^verbatim>\<open>memmove\<close> and \<^verbatim>\<open>memset\<close> write it.\<close>

definition get_bytes :: "nat \<Rightarrow> u8 list \<Rightarrow> nat \<Rightarrow> u8 list" where
  "get_bytes n d k = take n (drop k d)"

definition put_bytes :: "u8 list \<Rightarrow> nat \<Rightarrow> u8 list \<Rightarrow> u8 list" where
  "put_bytes d k bs = take k d @ bs @ drop (k + length bs) d"

locale byte_field =
  fixes get :: "u8 list \<Rightarrow> nat \<Rightarrow> 'v"
    and put :: "u8 list \<Rightarrow> nat \<Rightarrow> 'v \<Rightarrow> u8 list"
    and width :: nat
    and ok :: "'v \<Rightarrow> bool"
  assumes length_put: "k + width \<le> length d \<Longrightarrow> ok v \<Longrightarrow> length (put d k v) = length d"
    and get_put: "k + width \<le> length d \<Longrightarrow> ok v \<Longrightarrow> get (put d k v) k = v"
    and nth_put: "k + width \<le> length d \<Longrightarrow> ok v \<Longrightarrow> i < length d \<Longrightarrow> i < k \<or> k + width \<le> i \<Longrightarrow>
      put d k v ! i = d ! i"
    and get_cong: "length d' = length d \<Longrightarrow> k + width \<le> length d \<Longrightarrow>
      (\<And>i. k \<le> i \<Longrightarrow> i < k + width \<Longrightarrow> d' ! i = d ! i) \<Longrightarrow> get d' k = get d k"
begin

text \<open>A field is not changed by a write to other bytes.\<close>

lemma get_frame:
  assumes "length d' = length d" "k + width \<le> length d"
    and "\<And>i. i < length d \<Longrightarrow> i < a \<or> a + n \<le> i \<Longrightarrow> d' ! i = d ! i"
    and "k + width \<le> a \<or> a + n \<le> k"
  shows "get d' k = get d k"
  using assms by (intro get_cong) auto

lemma get_put_other:
  assumes "j + width \<le> length d" "k + width \<le> length d" "ok v" "k + width \<le> j \<or> j + width \<le> k"
  shows "get (put d j v) k = get d k"
  by (rule get_frame [where a = j and n = width]) (use assms length_put nth_put in auto)

text \<open>Writing an array of fields one after the other.\<close>

lemma put_array:
  assumes "length vs = n" "k + n * width \<le> length d" "\<And>v. v \<in> set vs \<Longrightarrow> ok v"
  defines "d' \<equiv> fold (\<lambda>i d. put d (k + i * width) (vs ! i)) [0..<n] d"
  shows "length d' = length d" "map (\<lambda>i. get d' (k + i * width)) [0..<n] = vs"
    "\<And>i. i < length d \<Longrightarrow> i < k \<or> k + n * width \<le> i \<Longrightarrow> d' ! i = d ! i"
proof -
  let ?f = "\<lambda>i d. put d (k + i * width) (vs ! i)"
  have P: "length (fold ?f [0..<m] d) = length d \<and>
      (\<forall>i < m. get (fold ?f [0..<m] d) (k + i * width) = vs ! i) \<and>
      (\<forall>i < length d. i < k \<or> k + m * width \<le> i \<longrightarrow> fold ?f [0..<m] d ! i = d ! i)" if "m \<le> n" for m
    using that
  proof (induction m)
    case (Suc m)
    let ?e = "fold ?f [0..<m] d"
    have IH: "length ?e = length d" "\<And>i. i < m \<Longrightarrow> get ?e (k + i * width) = vs ! i"
      "\<And>i. i < length d \<Longrightarrow> i < k \<or> k + m * width \<le> i \<Longrightarrow> ?e ! i = d ! i" using Suc by auto
    have okv: "ok (vs ! m)" using assms(1,3) Suc.prems by simp
    have "Suc m * width \<le> n * width" using Suc.prems by (rule mult_le_mono1)
    then have b: "k + m * width + width \<le> length ?e" using assms(2) IH(1) by simp
    have "get (?f m ?e) (k + i * width) = vs ! i" if "i < Suc m" for i
    proof (cases "i = m")
      case True then show ?thesis using get_put [OF b okv] by simp
    next
      case False
      then have "Suc i * width \<le> m * width" using that by (intro mult_le_mono1) simp
      then have "k + i * width + width \<le> k + m * width" by simp
      then show ?thesis using get_put_other [OF b _ okv, of "k + i * width"] b IH(2) [of i] False that by simp
    qed
    moreover have "?f m ?e ! i = d ! i" if "i < length d" "i < k \<or> k + Suc m * width \<le> i" for i
      using nth_put [OF b okv, of i] IH that by auto
    ultimately show ?case using length_put [OF b okv] IH(1) by simp
  qed simp
  from P [of n] show "length d' = length d" "\<And>i. i < length d \<Longrightarrow> i < k \<or> k + n * width \<le> i \<Longrightarrow> d' ! i = d ! i"
    by (auto simp: d'_def)
  show "map (\<lambda>i. get d' (k + i * width)) [0..<n] = vs"
    using P [of n] assms(1) by (auto simp: d'_def intro!: nth_equalityI)
qed

end

lemma splice:
  assumes "k + length bs \<le> length d"
  shows "length (take k d @ bs @ drop (k + length bs) d) = length d"
    "take (length bs) (drop k (take k d @ bs @ drop (k + length bs) d)) = bs"
    "i < length d \<Longrightarrow> i < k \<or> k + length bs \<le> i \<Longrightarrow> (take k d @ bs @ drop (k + length bs) d) ! i = d ! i"
  using assms by (auto simp: nth_append)

lemma take_drop_cong:
  assumes "length d' = length d" "k + n \<le> length d" "\<And>i. k \<le> i \<Longrightarrow> i < k + n \<Longrightarrow> d' ! i = d ! i"
  shows "take n (drop k d') = take n (drop k d)"
  by (rule nth_equalityI) (use assms in auto)

interpretation f32: byte_field get32 put32 4 "\<lambda>_. True"
proof
  fix d :: "u8 list" and k i and v :: u32
  assume b: "k + 4 \<le> length d"
  note S = splice [of k "le_enc 4 (unat v)" d, unfolded length_le_enc, OF b, folded put32_def]
  show "length (put32 d k v) = length d" by (rule S(1))
  have "unat v < 256 ^ 4" using unsigned_less [of v] by simp
  then show "get32 (put32 d k v) k = v" unfolding get32_def S(2) le_dec_enc by simp
  show "i < length d \<Longrightarrow> i < k \<or> k + 4 \<le> i \<Longrightarrow> put32 d k v ! i = d ! i" by (rule S(3))
  fix d' :: "u8 list"
  show "get32 d' k = get32 d k" if "length d' = length d" "\<And>i. k \<le> i \<Longrightarrow> i < k + 4 \<Longrightarrow> d' ! i = d ! i"
    unfolding get32_def using take_drop_cong [OF that(1) b that(2)] by simp
qed

interpretation f64: byte_field get64 put64 8 "\<lambda>_. True"
proof
  fix d :: "u8 list" and k i and v :: u64
  assume b: "k + 8 \<le> length d"
  note S = splice [of k "le_enc 8 (unat v)" d, unfolded length_le_enc, OF b, folded put64_def]
  show "length (put64 d k v) = length d" by (rule S(1))
  have "unat v < 256 ^ 8" using unsigned_less [of v] by simp
  then show "get64 (put64 d k v) k = v" unfolding get64_def S(2) le_dec_enc by simp
  show "i < length d \<Longrightarrow> i < k \<or> k + 8 \<le> i \<Longrightarrow> put64 d k v ! i = d ! i" by (rule S(3))
  fix d' :: "u8 list"
  show "get64 d' k = get64 d k" if "length d' = length d" "\<And>i. k \<le> i \<Longrightarrow> i < k + 8 \<Longrightarrow> d' ! i = d ! i"
    unfolding get64_def using take_drop_cong [OF that(1) b that(2)] by simp
qed

interpretation fbytes: byte_field "get_bytes n" put_bytes n "\<lambda>bs. length bs = n"
proof
  fix d :: "u8 list" and k i and bs :: "u8 list"
  assume b: "k + n \<le> length d"
  show "length bs = n \<Longrightarrow> length (put_bytes d k bs) = length d"
    "length bs = n \<Longrightarrow> get_bytes n (put_bytes d k bs) k = bs"
    "length bs = n \<Longrightarrow> i < length d \<Longrightarrow> i < k \<or> k + n \<le> i \<Longrightarrow> put_bytes d k bs ! i = d ! i"
    using splice [of k bs d] b unfolding put_bytes_def get_bytes_def by auto
  fix d' :: "u8 list"
  show "get_bytes n d' k = get_bytes n d k" if "length d' = length d" "\<And>i. k \<le> i \<Longrightarrow> i < k + n \<Longrightarrow> d' ! i = d ! i"
    unfolding get_bytes_def using take_drop_cong [OF that(1) b that(2)] by simp
qed

end
