(* ===== verification/Kport.thy ===== *)
theory Kport
  imports Kmonad
begin

text \<open>
  The I/O ports of the x64 machine (\<^verbatim>\<open>include/hal-x64/port.h\<close>).  What a device answers is not
  program text: the value a read of a port delivers is a parameter, a function of how often the port
  was read and of everything written to the ports before.  Writes are recorded in the order they happen.
\<close>

record ports =
  p_in :: "u16 \<Rightarrow> nat \<Rightarrow> (u16 \<times> u8) list \<Rightarrow> u8"
  p_pos :: "u16 \<Rightarrow> nat"
  p_out :: "(u16 \<times> u8) list"

definition p0 :: ports where
  "p0 = \<lparr>p_in = (\<lambda>_ _ _. 0), p_pos = (\<lambda>_. 0), p_out = []\<rparr>"

definition in_port_byte :: "u16 \<Rightarrow> (ports, u8) kfun" where
  "in_port_byte port p = Ok (p_in p port (p_pos p port) (p_out p), p\<lparr>p_pos := (p_pos p)(port := Suc (p_pos p port))\<rparr>)"

definition out_port_byte :: "u16 \<Rightarrow> u8 \<Rightarrow> (ports, unit) kfun" where
  "out_port_byte port v p = Ok ((), p\<lparr>p_out := p_out p @ [(port, v)]\<rparr>)"

lemma runs_in_port_byte [mrun]:
  "runs (in_port_byte port) p v p' \<longleftrightarrow>
     v = p_in p port (p_pos p port) (p_out p) \<and> p' = p\<lparr>p_pos := (p_pos p)(port := Suc (p_pos p port))\<rparr>"
  by (auto simp: runs_def in_port_byte_def)

lemma runs_out_port_byte [mrun]:
  "runs (out_port_byte port v) p u p' \<longleftrightarrow> p' = p\<lparr>p_out := p_out p @ [(port, v)]\<rparr>"
  by (auto simp: runs_def out_port_byte_def)

end
