(* ===== verification/Kfsstate.thy ===== *)
theory Kfsstate
  imports Kwalk Kbytes Kport
begin

text \<open>
  The state of the file system and the drivers below it: the device switch (\<^verbatim>\<open>include/kern/dev.h\<close>),
  the buffer cache (\<^verbatim>\<open>include/kern/blkio.h\<close>), the memory disk, the inode cache
  (\<^verbatim>\<open>include/kern/fs.h\<close>), the file table (\<^verbatim>\<open>include/kern/fdtable.h\<close>), the descriptors of the threads
  and the ports of the serial line.

  The model is that of one thread that runs a file system call from its start to its end.  A mutex is
  free or held; taking one that is held, and waiting for an event, end the run with
  \<open>Kblocked\<close>, since only another thread could make the call go on.  Waking a queue takes every
  waiter out of it.  Objects of the static arrays are named by their index; a null pointer is
  \<open>None\<close>.  Signed 64-bit quantities are kept as words and read with \<open>sint\<close> where the sign matters.
\<close>

section \<open>Data\<close>

datatype fmtx = MDsw | MDrv nat | MBc | MIc | MFd

datatype fwq = WqBuf nat | WqInode nat | WqRx | WqTx

datatype bnode = BcHead | BcMru nat | BcLink nat

text \<open>The functions the drivers of the repository put in the device switch.\<close>

datatype devfn = Memide_rw | Console_read | Console_write

record device_driver =
  d_dev :: u64
  d_state :: u32
  d_count :: int
  d_private :: u64
  d_open :: "devfn option"
  d_read :: "devfn option"
  d_write :: "devfn option"
  d_blkrw :: "devfn option"
  d_close :: "devfn option"

record blk_buf =
  b_flags :: u32
  b_dev :: u64
  b_blockno :: u64
  b_data :: "u8 list"

record inode =
  inum :: u32
  iref :: int
  iflags :: u32
  i_mode :: u32
  i_dev :: u64
  i_rdev :: u64
  i_nlink :: u64
  i_size :: u64
  i_addr :: "u64 list"

record file_descriptor =
  f_flags :: u32
  f_count :: int
  f_inode :: "nat option"
  f_offset :: u64

text \<open>
  \<open>junk_de\<close> and \<open>junk_cnt\<close> are the values uninitialised automatic variables happen to have (a
  directory entry in \<^verbatim>\<open>inode_add_directory_entry\<close>, a byte count in \<^verbatim>\<open>fs_read\<close> and \<^verbatim>\<open>fs_write\<close>).
\<close>

record fsst =
  held :: "fmtx set"
  wqs :: "fwq \<Rightarrow> nat list"
  ienab :: bool
  drvs :: "nat \<Rightarrow> device_driver"
  bc :: "bnode links"
  bufs :: "nat \<Rightarrow> blk_buf"
  img :: "u8 list"
  inodes :: "nat \<Rightarrow> inode"
  files :: "nat \<Rightarrow> file_descriptor"
  cur :: nat
  fds :: "nat \<Rightarrow> nat \<Rightarrow> nat option"
  prt :: ports
  junk_de :: "u8 list"
  junk_cnt :: u64

type_synonym 'a fsm = "(fsst, 'a) kfun"

text \<open>Static storage is zero when the kernel starts.\<close>

definition drv0 :: device_driver where
  "drv0 = \<lparr>d_dev = 0, d_state = 0, d_count = 0, d_private = 0, d_open = None, d_read = None, d_write = None,
     d_blkrw = None, d_close = None\<rparr>"

definition buf0 :: blk_buf where
  "buf0 = \<lparr>b_flags = 0, b_dev = 0, b_blockno = 0, b_data = replicate 512 0\<rparr>"

definition inode0 :: inode where
  "inode0 = \<lparr>inum = 0, iref = 0, iflags = 0, i_mode = 0, i_dev = 0, i_rdev = 0, i_nlink = 0, i_size = 0,
     i_addr = replicate 16 0\<rparr>"

definition file0 :: file_descriptor where
  "file0 = \<lparr>f_flags = 0, f_count = 0, f_inode = None, f_offset = 0\<rparr>"

definition fs0 :: "u8 list \<Rightarrow> ports \<Rightarrow> fsst" where
  "fs0 im p = \<lparr>held = {}, wqs = (\<lambda>_. []), ienab = False, drvs = (\<lambda>_. drv0), bc = (\<lambda>_. \<lparr>l_prev = BcHead, l_next = BcHead\<rparr>),
     bufs = (\<lambda>_. buf0), img = im, inodes = (\<lambda>_. inode0), files = (\<lambda>_. file0), cur = 0, fds = (\<lambda>_ _. None), prt = p,
     junk_de = replicate 64 0, junk_cnt = 0\<rparr>"

section \<open>Constants\<close>

abbreviation (input) DEVSW_DEVICES_NR :: nat where "DEVSW_DEVICES_NR \<equiv> 8"
abbreviation (input) DEVSW_DRIVER_STATE_NONE :: u32 where "DEVSW_DRIVER_STATE_NONE \<equiv> 0"
abbreviation (input) DEVSW_DRIVER_STATE_RUN :: u32 where "DEVSW_DRIVER_STATE_RUN \<equiv> 1"
abbreviation (input) DEVSW_DRIVER_STATE_UNREG :: u32 where "DEVSW_DRIVER_STATE_UNREG \<equiv> 2"

abbreviation (input) BLK_DEV_NODEV :: u64 where "BLK_DEV_NODEV \<equiv> - 1"
abbreviation (input) B_BUSY :: u32 where "B_BUSY \<equiv> 1"
abbreviation (input) B_VALID :: u32 where "B_VALID \<equiv> 2"
abbreviation (input) B_DIRTY :: u32 where "B_DIRTY \<equiv> 4"
abbreviation (input) BSIZE :: nat where "BSIZE \<equiv> 512"
abbreviation (input) NBUF :: nat where "NBUF \<equiv> 1024"
abbreviation (input) ROOT_DEV :: u64 where "ROOT_DEV \<equiv> 1"
abbreviation (input) CONS_DEV :: u64 where "CONS_DEV \<equiv> 2"

section \<open>Mutexes, wait queues and interrupts\<close>

definition fhold :: "fmtx \<Rightarrow> unit fsm" where
  "fhold m = mbind (mget held) (\<lambda>h. if m \<in> h then mstop Kblocked else mmod (held_update (insert m)))"

definition frelease :: "fmtx \<Rightarrow> unit fsm" where
  "frelease m = mbind (mget held) (\<lambda>h. mthen (massert (m \<in> h)) (mmod (held_update (\<lambda>h. h - {m}))))"

definition fwakeup :: "fwq \<Rightarrow> unit fsm" where
  "fwakeup q = mmod (wqs_update (\<lambda>w. w(q := [])))"

definition fsave :: "bool fsm" where
  "fsave = mbind (mget ienab) (\<lambda>e. mthen (mmod (ienab_update (\<lambda>_. False))) (mret e))"

definition frestore :: "bool \<Rightarrow> unit fsm" where
  "frestore e = mmod (ienab_update (\<lambda>_. e))"

section \<open>Fields of the objects\<close>

definition upd_drv :: "nat \<Rightarrow> (device_driver \<Rightarrow> device_driver) \<Rightarrow> unit fsm" where
  "upd_drv d f = mmod (drvs_update (\<lambda>a. a(d := f (a d))))"

definition upd_buf :: "nat \<Rightarrow> (blk_buf \<Rightarrow> blk_buf) \<Rightarrow> unit fsm" where
  "upd_buf b f = mmod (bufs_update (\<lambda>a. a(b := f (a b))))"

definition upd_inode :: "nat \<Rightarrow> (inode \<Rightarrow> inode) \<Rightarrow> unit fsm" where
  "upd_inode ip f = mmod (inodes_update (\<lambda>a. a(ip := f (a ip))))"

definition upd_file :: "nat \<Rightarrow> (file_descriptor \<Rightarrow> file_descriptor) \<Rightarrow> unit fsm" where
  "upd_file n f = mmod (files_update (\<lambda>a. a(n := f (a n))))"

definition get_drv :: "nat \<Rightarrow> device_driver fsm" where
  "get_drv d = mget (\<lambda>s. drvs s d)"

definition get_buf :: "nat \<Rightarrow> blk_buf fsm" where
  "get_buf b = mget (\<lambda>s. bufs s b)"

definition get_inode :: "nat \<Rightarrow> inode fsm" where
  "get_inode ip = mget (\<lambda>s. inodes s ip)"

definition get_file :: "nat \<Rightarrow> file_descriptor fsm" where
  "get_file n = mget (\<lambda>s. files s n)"

text \<open>An access through a pointer that may be null.\<close>

definition deref :: "nat option \<Rightarrow> nat fsm" where
  "deref p = (case p of None \<Rightarrow> mstop Kfault | Some i \<Rightarrow> mret i)"

lemma runs_fhold [mrun]: "runs (fhold m) s u s' \<longleftrightarrow> m \<notin> held s \<and> s' = s\<lparr>held := insert m (held s)\<rparr>"
  by (auto simp: fhold_def mrun)

lemma runs_frelease [mrun]: "runs (frelease m) s u s' \<longleftrightarrow> m \<in> held s \<and> s' = s\<lparr>held := held s - {m}\<rparr>"
  by (auto simp: frelease_def mrun)

lemma runs_fwakeup [mrun]: "runs (fwakeup q) s u s' \<longleftrightarrow> s' = s\<lparr>wqs := (wqs s)(q := [])\<rparr>"
  by (auto simp: fwakeup_def mrun)

lemma runs_fsave [mrun]: "runs fsave s e s' \<longleftrightarrow> e = ienab s \<and> s' = s\<lparr>ienab := False\<rparr>"
  by (auto simp: fsave_def mrun)

lemma runs_frestore [mrun]: "runs (frestore e) s u s' \<longleftrightarrow> s' = s\<lparr>ienab := e\<rparr>"
  by (auto simp: frestore_def mrun)

lemma runs_upd [mrun]:
  "runs (upd_drv d f) s u s' \<longleftrightarrow> s' = s\<lparr>drvs := (drvs s)(d := f (drvs s d))\<rparr>"
  "runs (upd_buf b g) s u s' \<longleftrightarrow> s' = s\<lparr>bufs := (bufs s)(b := g (bufs s b))\<rparr>"
  "runs (upd_inode ip k) s u s' \<longleftrightarrow> s' = s\<lparr>inodes := (inodes s)(ip := k (inodes s ip))\<rparr>"
  "runs (upd_file n l) s u s' \<longleftrightarrow> s' = s\<lparr>files := (files s)(n := l (files s n))\<rparr>"
  by (auto simp: upd_drv_def upd_buf_def upd_inode_def upd_file_def mrun)

lemma runs_fget [mrun]:
  "runs (get_drv d) s x s' \<longleftrightarrow> x = drvs s d \<and> s' = s"
  "runs (get_buf b) s y s' \<longleftrightarrow> y = bufs s b \<and> s' = s"
  "runs (get_inode ip) s z s' \<longleftrightarrow> z = inodes s ip \<and> s' = s"
  "runs (get_file n) s w s' \<longleftrightarrow> w = files s n \<and> s' = s"
  by (auto simp: get_drv_def get_buf_def get_inode_def get_file_def mrun)

lemma runs_deref [mrun]: "runs (deref p) s i s' \<longleftrightarrow> p = Some i \<and> s' = s"
  by (auto simp: deref_def mrun split: option.splits)

end
