(* ===== verification/Kdevsw.thy ===== *)
theory Kdevsw
  imports Kfsstate
begin

text \<open>
  The device switch of \<^verbatim>\<open>dev/devsw.c\<close>: eight slots for drivers, with a reference count per slot that
  keeps a driver from being taken away while it is used.
\<close>

section \<open>Operations\<close>

definition register_device_driver :: "u64 \<Rightarrow> device_driver \<Rightarrow> u64 \<Rightarrow> int fsm" where
  "register_device_driver dev drv prv =
     (if 8 \<le> dev then mret EINVAL
      else (let drvp = unat dev in
        mthen (fhold MDsw)
        (mbind (get_drv drvp) (\<lambda>d.
           if 0 < d_dev d \<or> 0 < d_count d then mthen (frelease MDsw) (mret EBUSY)
           else
             mthen (upd_drv drvp (\<lambda>d. d\<lparr>d_dev := dev, d_count := 0, d_private := d_private drv, d_open := d_open drv,
               d_read := d_read drv, d_write := d_write drv, d_blkrw := d_blkrw drv, d_close := d_close drv,
               d_state := DEVSW_DRIVER_STATE_RUN\<rparr>))
             (mthen (frelease MDsw) (mret 0))))))"

text \<open>
  The loop that waits for the other users polls the counter; with no other thread running it ends at
  its first turn or not at all.
\<close>

definition unregister_device_driver :: "u64 \<Rightarrow> int fsm" where
  "unregister_device_driver dev =
     (if 8 \<le> dev then mret EINVAL
      else (let drvp = unat dev in
        mthen (fhold MDsw)
        (mbind (get_drv drvp) (\<lambda>d.
           if d_dev d = 0 then mthen (frelease MDsw) (mret ENOENT)
           else
             mthen (upd_drv drvp (\<lambda>d. d\<lparr>d_count := d_count d + 1\<rparr>))
             (mthen (upd_drv drvp (\<lambda>d. d\<lparr>d_state := (d_state d OR DEVSW_DRIVER_STATE_UNREG) AND NOT DEVSW_DRIVER_STATE_RUN\<rparr>))
             (mthen (frelease MDsw)
             (mthen (fhold MDsw)
             (mbind (get_drv drvp) (\<lambda>d.
                if d_count d \<noteq> 1 then mstop Kblocked
                else
                  mthen (massert (d_count d = 1))
                  (mthen (upd_drv drvp (\<lambda>d. d\<lparr>d_dev := 0, d_count := 0, d_private := 0, d_open := None, d_read := None,
                    d_write := None, d_blkrw := None, d_close := None\<rparr>))
                  (mthen (upd_drv drvp (\<lambda>d. d\<lparr>d_state := d_state d AND NOT DEVSW_DRIVER_STATE_UNREG\<rparr>))
                  (mbind (get_drv drvp) (\<lambda>d.
                     mthen (massert (d_state d = DEVSW_DRIVER_STATE_NONE))
                     (mthen (frelease MDsw) (mret 0)))))))))))))))"

text \<open>The assertion admits one index more than the array has; that access is out of bounds.\<close>

definition devsw_get_handle :: "u64 \<Rightarrow> nat fsm" where
  "devsw_get_handle dev =
     mthen (massert (dev \<le> 8))
     (mthen (fhold MDsw)
     (mthen (mguard (unat dev < DEVSW_DEVICES_NR))
     (mbind (get_drv (unat dev)) (\<lambda>d.
        mthen (mwhen (d_state d AND DEVSW_DRIVER_STATE_RUN \<noteq> 0) (upd_drv (unat dev) (\<lambda>d. d\<lparr>d_count := d_count d + 1\<rparr>)))
        (mthen (frelease MDsw) (mret (unat dev)))))))"

definition devsw_put_handle :: "u64 \<Rightarrow> unit fsm" where
  "devsw_put_handle dev =
     mthen (massert (dev \<le> 8))
     (mthen (fhold MDsw)
     (mthen (mguard (unat dev < DEVSW_DEVICES_NR))
     (mbind (get_drv (unat dev)) (\<lambda>d.
        mthen (massert (0 < d_count d))
        (mthen (upd_drv (unat dev) (\<lambda>d. d\<lparr>d_count := d_count d - 1\<rparr>))
        (frelease MDsw))))))"

definition mutex_init_fs :: "fmtx \<Rightarrow> unit fsm" where
  "mutex_init_fs m = mmod (held_update (\<lambda>h. h - {m}))"

definition devsw_init :: "unit fsm" where
  "devsw_init = mfor_each [0..<DEVSW_DEVICES_NR] (\<lambda>i.
     mthen (mutex_init_fs MDsw)
     (mthen (mutex_init_fs (MDrv i))
     (upd_drv i (\<lambda>d. d\<lparr>d_dev := 0, d_private := 0, d_open := None, d_read := None, d_write := None,
        d_blkrw := None, d_close := None\<rparr>))))"

section \<open>The life of a slot\<close>

text \<open>A slot is free or has a running driver; a slot whose driver runs is never given to another.\<close>

definition drv_free :: "device_driver \<Rightarrow> bool" where
  "drv_free d = (d_dev d = 0 \<and> d_count d = 0 \<and> d_state d = DEVSW_DRIVER_STATE_NONE)"

definition drv_runs :: "nat \<Rightarrow> device_driver \<Rightarrow> bool" where
  "drv_runs i d = (d_dev d = of_nat i \<and> 0 < i \<and> 0 \<le> d_count d \<and> d_state d = DEVSW_DRIVER_STATE_RUN)"

definition devsw_inv :: "fsst \<Rightarrow> bool" where
  "devsw_inv s = (MDsw \<notin> held s \<and> (\<forall>i < DEVSW_DEVICES_NR. drv_free (drvs s i) \<or> drv_runs i (drvs s i)))"

lemma unat_less_8: "\<not> 8 \<le> (dev :: u64) \<Longrightarrow> unat dev < 8"
  by unat_arith

lemma unat_pos: "dev \<noteq> (0 :: u64) \<Longrightarrow> 0 < unat dev"
  by (simp add: unat_gt_0)

lemma register_ok:
  fixes drv :: device_driver
  assumes I: "devsw_inv s" and dev: "dev < 8" "dev \<noteq> 0" and F: "drv_free (drvs s (unat dev))"
  defines "d' \<equiv> (drvs s (unat dev))\<lparr>d_dev := dev, d_count := 0, d_private := d_private drv, d_open := d_open drv,
               d_read := d_read drv, d_write := d_write drv, d_blkrw := d_blkrw drv, d_close := d_close drv,
               d_state := 1\<rparr>"
  shows "runs (register_device_driver dev drv prv) s 0 (s\<lparr>drvs := (drvs s)(unat dev := d')\<rparr>)"
proof -
  have "\<not> 8 \<le> dev" using dev by simp
  moreover have "held s - {MDsw} = held s" using I by (auto simp: devsw_inv_def)
  ultimately show ?thesis
    using I F unfolding register_device_driver_def
    by (auto simp: mrun Let_def devsw_inv_def drv_free_def d'_def)
qed

lemma devsw_get_ok:
  assumes "MDsw \<notin> held s" "drv_runs (unat dev) (drvs s (unat dev))" "dev < 8"
  shows "runs (devsw_get_handle dev) s (unat dev)
    (s\<lparr>drvs := (drvs s)(unat dev := (drvs s (unat dev))\<lparr>d_count := d_count (drvs s (unat dev)) + 1\<rparr>)\<rparr>)"
proof -
  have "\<not> 8 \<le> dev" "dev \<le> 8" using assms(3) by simp_all
  moreover have "held s - {MDsw} = held s" using assms(1) by auto
  ultimately show ?thesis
    using assms(1,2) unat_less_8 unfolding devsw_get_handle_def
    by (simp add: mrun drv_runs_def)
qed

lemma devsw_put_ok:
  assumes "MDsw \<notin> held s" "0 < d_count (drvs s (unat dev))" "dev < 8"
  shows "runs (devsw_put_handle dev) s ()
    (s\<lparr>drvs := (drvs s)(unat dev := (drvs s (unat dev))\<lparr>d_count := d_count (drvs s (unat dev)) - 1\<rparr>)\<rparr>)"
proof -
  have "\<not> 8 \<le> dev" "dev \<le> 8" using assms(3) by simp_all
  moreover have "held s - {MDsw} = held s" using assms(1) by auto
  ultimately show ?thesis
    using assms(1,2) unat_less_8 unfolding devsw_put_handle_def by (simp add: mrun)
qed

lemma unregister_ok:
  assumes I: "devsw_inv s" and dev: "dev < 8" and R: "drv_runs (unat dev) (drvs s (unat dev))"
    and C: "d_count (drvs s (unat dev)) = 0"
  shows "\<exists>d'. runs (unregister_device_driver dev) s 0 (s\<lparr>drvs := (drvs s)(unat dev := d')\<rparr>) \<and> drv_free d'"
proof -
  have "\<not> 8 \<le> dev" using dev by simp
  moreover have "held s - {MDsw} = held s" using I by (auto simp: devsw_inv_def)
  moreover have "(((1 :: u32) OR 2) AND NOT 1) AND NOT 2 = 0" by simp
  moreover have "d_dev (drvs s (unat dev)) \<noteq> 0" using R unat_pos by (auto simp: drv_runs_def)
  ultimately show ?thesis
    using I R C unfolding unregister_device_driver_def
    by (auto simp: mrun Let_def devsw_inv_def drv_runs_def drv_free_def)
qed

lemma register_busy:
  assumes "devsw_inv s" "dev < 8" "drv_runs (unat dev) (drvs s (unat dev))"
  shows "runs (register_device_driver dev drv prv) s EBUSY s"
proof -
  have "\<not> 8 \<le> dev" using assms by simp
  moreover have "held s - {MDsw} = held s" using assms(1) by (auto simp: devsw_inv_def)
  moreover have "0 < d_dev (drvs s (unat dev))" using assms(3) by (auto simp: drv_runs_def word_gt_0 unat_gt_0)
  ultimately show ?thesis
    using assms unfolding register_device_driver_def by (auto simp: mrun Let_def devsw_inv_def)
qed

lemma unregister_free:
  assumes "devsw_inv s" "dev < 8" "drv_free (drvs s (unat dev))"
  shows "runs (unregister_device_driver dev) s ENOENT s"
proof -
  have "\<not> 8 \<le> dev" using assms by simp
  moreover have "held s - {MDsw} = held s" using assms(1) by (auto simp: devsw_inv_def)
  ultimately show ?thesis
    using assms unfolding unregister_device_driver_def by (auto simp: mrun Let_def devsw_inv_def drv_free_def)
qed

lemma unregister_used:
  assumes "devsw_inv s" "dev < 8" "drv_runs (unat dev) (drvs s (unat dev))" "0 < d_count (drvs s (unat dev))"
  shows "unregister_device_driver dev s = Stop Kblocked"
proof -
  have "\<not> 8 \<le> dev" using assms by simp
  moreover have "d_dev (drvs s (unat dev)) \<noteq> 0" using assms(3) unat_pos by (auto simp: drv_runs_def)
  ultimately show ?thesis
    using assms unfolding unregister_device_driver_def
    by (simp add: Let_def mexec fhold_def frelease_def get_drv_def upd_drv_def devsw_inv_def)
qed

lemma devsw_inv_upd:
  assumes "devsw_inv s" "drv_free d \<or> drv_runs i d"
  shows "devsw_inv (s\<lparr>drvs := (drvs s)(i := d)\<rparr>)"
  using assms by (auto simp: devsw_inv_def)

lemma devsw_inv_cases:
  assumes "devsw_inv s" "(dev :: u64) < 8"
  obtains "drv_free (drvs s (unat dev))" | "drv_runs (unat dev) (drvs s (unat dev))"
  using assms unat_less_8 [of dev, unfolded not_le] by (auto simp: devsw_inv_def)


lemma devsw_inv_fs0: "devsw_inv (fs0 im p)"
  by (simp add: devsw_inv_def fs0_def drv_free_def drv0_def)


end
