(* ===== verification/Kblkio.thy ===== *)
theory Kblkio
  imports Kdevsw
begin

text \<open>
  The buffer cache of \<^verbatim>\<open>dev/blkio.c\<close> and the memory disk of \<^verbatim>\<open>dev/memide.c\<close>.  The cache is a ring of
  1024 buffers in the order of their last use.  \<open>view\<close> is what a client of the cache sees of the disk:
  the data of the dirty buffer of a block, and the image where there is none.
\<close>

section \<open>The memory disk\<close>

function memide_read_loop :: "nat \<Rightarrow> nat \<Rightarrow> u64 \<Rightarrow> nat \<Rightarrow> unit fsm" where
  "memide_read_loop b dest addr remains =
     (if remains = 0 then mret ()
      else (let n = (if 512 < remains then 512 else remains) in
        mbind (mget img) (\<lambda>im.
        mbind (get_buf b) (\<lambda>bp.
        mthen (mguard (unat addr + n \<le> length im \<and> dest + n \<le> length (b_data bp)))
        (mthen (upd_buf b (\<lambda>bp. bp\<lparr>b_data := put_bytes (b_data bp) dest (get_bytes n im (unat addr))\<rparr>))
        (memide_read_loop b (dest + n) (addr + of_nat n) (remains - n)))))))"
  by auto

termination by (relation "measure (\<lambda>(b, d, a, r). r)") auto

definition memide_read_sector :: "u64 \<Rightarrow> nat \<Rightarrow> nat \<Rightarrow> int fsm" where
  "memide_read_sector offs b sz =
     mbind fsave (\<lambda>psw. mthen (memide_read_loop b 0 offs sz) (mthen (frestore psw) (mret 0)))"

function memide_write_loop :: "nat \<Rightarrow> nat \<Rightarrow> u64 \<Rightarrow> nat \<Rightarrow> unit fsm" where
  "memide_write_loop b src addr remains =
     (if remains = 0 then mret ()
      else (let n = (if 512 < remains then 512 else remains) in
        mbind (mget img) (\<lambda>im.
        mbind (get_buf b) (\<lambda>bp.
        mthen (mguard (unat addr + n \<le> length im \<and> src + n \<le> length (b_data bp)))
        (mthen (mmod (img_update (\<lambda>im. put_bytes im (unat addr) (get_bytes n (b_data bp) src))))
        (memide_write_loop b (src + n) (addr + of_nat n) (remains - n)))))))"
  by auto

termination by (relation "measure (\<lambda>(b, d, a, r). r)") auto

definition memide_write_sector :: "u64 \<Rightarrow> nat \<Rightarrow> nat \<Rightarrow> int fsm" where
  "memide_write_sector offs b sz =
     mbind fsave (\<lambda>psw. mthen (memide_write_loop b 0 offs sz) (mthen (frestore psw) (mret 0)))"

declare memide_read_loop.simps [simp del] memide_write_loop.simps [simp del]

definition memide_rw :: "nat \<Rightarrow> nat \<Rightarrow> int fsm" where
  "memide_rw drv b =
     mbind (get_buf b) (\<lambda>bp.
     mthen (massert (b_flags bp AND B_BUSY \<noteq> 0))
     (mthen (fhold (MDrv drv))
     (mbind (get_drv drv) (\<lambda>d.
     mthen (mwhen (d_dev d = b_dev bp)
       (let addr = b_blockno bp * 512 in
         if b_flags bp AND B_DIRTY \<noteq> 0 then mthen (memide_write_sector addr b BSIZE) (mret ())
         else mthen (memide_read_sector addr b BSIZE) (mret ())))
     (mthen (frelease (MDrv drv)) (mret 0))))))"

definition memide_init :: "int fsm" where
  "memide_init = register_device_driver ROOT_DEV (drv0\<lparr>d_blkrw := Some Memide_rw\<rparr>) 0"

section \<open>The buffer cache\<close>

fun bc_match :: "fsst \<Rightarrow> u64 \<Rightarrow> u64 \<Rightarrow> bnode \<Rightarrow> bool" where
  "bc_match s dev blockno (BcMru b) = (b_dev (bufs s b) = dev \<and> b_blockno (bufs s b) = blockno)"
| "bc_match s dev blockno _ = False"

fun bc_unused :: "fsst \<Rightarrow> bnode \<Rightarrow> bool" where
  "bc_unused s (BcMru b) = (b_flags (bufs s b) AND B_BUSY = 0 \<and> b_flags (bufs s b) AND B_DIRTY = 0)"
| "bc_unused s _ = False"

definition buffer_cache_blk_get :: "u64 \<Rightarrow> u64 \<Rightarrow> nat fsm" where
  "buffer_cache_blk_get dev blockno =
     mbind fsave (\<lambda>psw.
     mthen (fhold MBc)
     (mbind (mget (\<lambda>s. list_for_each (bc s) BcHead (bc_match s dev blockno))) (\<lambda>lp.
        case lp of
          Some (BcMru b) \<Rightarrow>
            mbind (get_buf b) (\<lambda>bp.
              if b_flags bp AND B_BUSY = 0 then
                mthen (upd_buf b (\<lambda>bp. bp\<lparr>b_flags := b_flags bp OR B_BUSY\<rparr>))
                (mthen (frelease MBc) (mthen (frestore psw) (mret b)))
              else mstop Kblocked)
        | Some BcHead \<Rightarrow>
            mbind (mget (\<lambda>s. reverse_for_each (bc s) BcHead (bc_unused s))) (\<lambda>lp.
              case lp of
                Some (BcMru b) \<Rightarrow>
                  mthen (upd_buf b (\<lambda>bp. bp\<lparr>b_dev := dev, b_blockno := blockno, b_flags := B_BUSY\<rparr>))
                  (mthen (frelease MBc) (mthen (frestore psw) (mret b)))
              | Some BcHead \<Rightarrow> mthen (frelease MBc) (mstop Kpanic)
              | _ \<Rightarrow> mstop Kblocked)
        | _ \<Rightarrow> mstop Kblocked)))"

text \<open>The call through the driver's function pointer.\<close>

definition call_blkrw :: "devfn option \<Rightarrow> nat \<Rightarrow> nat \<Rightarrow> unit fsm" where
  "call_blkrw fn drv b =
     (case fn of None \<Rightarrow> mret ()
      | Some Memide_rw \<Rightarrow> mthen (memide_rw drv b) (mret ())
      | Some _ \<Rightarrow> mstop Kfault)"

definition buffer_cache_blk_read :: "u64 \<Rightarrow> u64 \<Rightarrow> nat fsm" where
  "buffer_cache_blk_read dev blockno =
     mbind (buffer_cache_blk_get dev blockno) (\<lambda>b.
     mbind (get_buf b) (\<lambda>bp.
     mthen (mwhen (b_flags bp AND B_VALID = 0)
       (mbind (devsw_get_handle (b_dev bp)) (\<lambda>drv.
        mbind (get_drv drv) (\<lambda>d.
        mthen (call_blkrw (d_blkrw d) drv b)
        (devsw_put_handle (b_dev bp))))))
     (mret b)))"

definition buffer_cache_blk_write :: "nat \<Rightarrow> nat fsm" where
  "buffer_cache_blk_write b =
     mbind (get_buf b) (\<lambda>bp.
     mthen (massert (b_flags bp AND B_BUSY \<noteq> 0))
     (mthen (upd_buf b (\<lambda>bp. bp\<lparr>b_flags := b_flags bp OR B_DIRTY\<rparr>))
     (mbind (devsw_get_handle (b_dev bp)) (\<lambda>drv.
      mbind (get_drv drv) (\<lambda>d.
      mthen (call_blkrw (d_blkrw d) drv b)
      (mthen (devsw_put_handle (b_dev bp)) (mret b)))))))"

definition buffer_cache_blk_release :: "nat \<Rightarrow> unit fsm" where
  "buffer_cache_blk_release b =
     mbind (get_buf b) (\<lambda>bp.
     if b_flags bp AND B_BUSY = 0 then mstop Kpanic
     else
       mbind fsave (\<lambda>psw.
       mthen (fhold MBc)
       (mthen (mmod (bc_update (\<lambda>h. list_add_top (list_del h (BcMru b)) BcHead (BcMru b))))
       (mthen (upd_buf b (\<lambda>bp. bp\<lparr>b_flags := b_flags bp AND NOT B_BUSY\<rparr>))
       (mthen (fwakeup (WqBuf b))
       (mthen (frelease MBc) (frestore psw)))))))"

definition buffer_cache_init :: "unit fsm" where
  "buffer_cache_init =
     mthen (mutex_init_fs MBc)
     (mthen (mmod (bc_update (\<lambda>h. init_list_head h BcHead)))
     (mfor_each [0..<NBUF] (\<lambda>b.
        mthen (mmod (bc_update (\<lambda>h. init_list_node h (BcMru b))))
        (mthen (mmod (bc_update (\<lambda>h. init_list_node h (BcLink b))))
        (mthen (mmod (bc_update (\<lambda>h. list_add_top h BcHead (BcMru b))))
        (mthen (upd_buf b (\<lambda>bp. bp\<lparr>b_dev := BLK_DEV_NODEV\<rparr>))
        (mmod (wqs_update (\<lambda>w. w(WqBuf b := [])))))))))) "

section \<open>What the cache promises\<close>

definition busy :: "fsst \<Rightarrow> nat \<Rightarrow> bool" where
  "busy s b = (b_flags (bufs s b) AND B_BUSY \<noteq> 0)"

definition dirty :: "fsst \<Rightarrow> nat \<Rightarrow> bool" where
  "dirty s b = (b_flags (bufs s b) AND B_DIRTY \<noteq> 0)"

text \<open>The buffers that can still be given to another block.\<close>

definition clean :: "fsst \<Rightarrow> nat set" where
  "clean s = {b. b < NBUF \<and> \<not> busy s b \<and> \<not> dirty s b}"

definition holds_blk :: "fsst \<Rightarrow> nat \<Rightarrow> u64 \<Rightarrow> bool" where
  "holds_blk s b n = (b_dev (bufs s b) = ROOT_DEV \<and> b_blockno (bufs s b) = n)"

definition disk_blk :: "u8 list \<Rightarrow> u64 \<Rightarrow> u8 list" where
  "disk_blk im n = get_bytes BSIZE im (unat n * BSIZE)"

definition in_img :: "fsst \<Rightarrow> u64 \<Rightarrow> bool" where
  "in_img s n = (unat n * BSIZE + BSIZE \<le> length (img s))"

definition view :: "fsst \<Rightarrow> u64 \<Rightarrow> u8 list" where
  "view s n = (case find (\<lambda>b. holds_blk s b n \<and> dirty s b) [0..<NBUF] of
                 Some b \<Rightarrow> b_data (bufs s b) | None \<Rightarrow> disk_blk (img s) n)"

definition bc_ring :: "bnode links \<Rightarrow> bool" where
  "bc_ring h = (\<exists>xs. is_list h BcHead (map BcMru xs) \<and> set xs = {..<NBUF})"

definition bufs_ok :: "fsst \<Rightarrow> bool" where
  "bufs_ok s =
     ((\<forall>b < NBUF. length (b_data (bufs s b)) = BSIZE \<and> b_flags (bufs s b) AND B_VALID = 0) \<and>
      (\<forall>b < NBUF. \<forall>b' < NBUF. \<forall>n. holds_blk s b n \<longrightarrow> holds_blk s b' n \<longrightarrow> b' = b))"

definition disk_ready :: "fsst \<Rightarrow> bool" where
  "disk_ready s =
     (MBc \<notin> held s \<and> MDsw \<notin> held s \<and> MDrv 1 \<notin> held s \<and>
      drv_runs 1 (drvs s 1) \<and> d_blkrw (drvs s 1) = Some Memide_rw \<and> length (img s) < 2 ^ 64)"

definition bc_inv :: "fsst \<Rightarrow> bool" where
  "bc_inv s = (bc_ring (bc s) \<and> bufs_ok s \<and> disk_ready s)"

text \<open>What a run of the cache leaves alone.\<close>

definition same_above :: "fsst \<Rightarrow> fsst \<Rightarrow> bool" where
  "same_above s s' = (held s' = held s \<and> ienab s' = ienab s \<and> inodes s' = inodes s \<and> files s' = files s \<and>
     cur s' = cur s \<and> fds s' = fds s \<and> prt s' = prt s \<and> junk_de s' = junk_de s \<and> junk_cnt s' = junk_cnt s \<and>
     length (img s') = length (img s))"

lemma same_above_refl [simp]: "same_above s s"
  by (simp add: same_above_def)

lemma same_above_trans: "same_above s s' \<Longrightarrow> same_above s' s'' \<Longrightarrow> same_above s s''"
  by (simp add: same_above_def)

lemma flag_bits [simp]:
  "((f :: u32) OR 1) AND 1 = 1" "(f OR 1) AND 2 = f AND 2" "(f OR 1) AND 4 = f AND 4"
  "(f OR 4) AND 1 = f AND 1" "(f OR 4) AND 2 = f AND 2" "(f OR 4) AND 4 = 4"
  "(f AND NOT 1) AND 1 = 0" "(f AND NOT 1) AND 2 = f AND 2" "(f AND NOT 1) AND 4 = f AND 4"
  "(f AND - 2) AND 1 = 0" "(f AND - 2) AND 2 = f AND 2" "(f AND - 2) AND 4 = f AND 4"
  by (simp_all add: bit.conj_disj_distrib2 and.assoc)

lemma find_None: "(\<And>x. x \<in> set xs \<Longrightarrow> \<not> P x) \<Longrightarrow> find P xs = None"
  by (simp add: find_None_iff)

lemma view_dirty:
  assumes "bufs_ok s" "b < NBUF" "holds_blk s b n" "dirty s b"
  shows "view s n = b_data (bufs s b)"
proof (cases "find (\<lambda>b. holds_blk s b n \<and> dirty s b) [0..<NBUF]")
  case None
  then show ?thesis using assms by (auto simp: find_None_iff)
next
  case (Some c)
  then have "c < NBUF" "holds_blk s c n" by (auto simp: find_Some_iff)
  then have "c = b" using assms by (auto simp: bufs_ok_def)
  then show ?thesis using Some by (simp add: view_def)
qed

lemma view_disk: "(\<And>b. b < NBUF \<Longrightarrow> holds_blk s b n \<Longrightarrow> \<not> dirty s b) \<Longrightarrow> view s n = disk_blk (img s) n"
  by (subst view_def, subst find_None) auto

lemma view_cases:
  obtains b where "b < NBUF" "holds_blk s b n" "dirty s b"
  | "\<And>b. b < NBUF \<Longrightarrow> holds_blk s b n \<Longrightarrow> \<not> dirty s b"
  by blast

section \<open>Looking up a buffer\<close>

lemma find_map: "find P (map f xs) = map_option f (find (P \<circ> f) xs)"
  by (induction xs) auto

lemma find_SomeD: "find P xs = Some x \<Longrightarrow> x \<in> set xs \<and> P x"
  by (induction xs) (auto split: if_splits)

lemma bc_find:
  assumes "bc_ring (bc s)"
  shows "(\<exists>b < NBUF. list_for_each (bc s) BcHead (bc_match s dev n) = Some (BcMru b) \<and> bc_match s dev n (BcMru b)) \<or>
    list_for_each (bc s) BcHead (bc_match s dev n) = Some BcHead \<and> (\<forall>b < NBUF. \<not> bc_match s dev n (BcMru b))"
proof -
  obtain xs where xs: "is_list (bc s) BcHead (map BcMru xs)" "set xs = {..<NBUF}" using assms by (auto simp: bc_ring_def)
  show ?thesis
  proof (cases "find (bc_match s dev n \<circ> BcMru) xs")
    case None
    then have "\<forall>b < NBUF. \<not> bc_match s dev n (BcMru b)" using xs(2) by (simp add: find_None_iff)
    then show ?thesis using None by (simp add: list_for_each_is_list [OF xs(1)] find_map)
  next
    case (Some b)
    then have "b < NBUF" "bc_match s dev n (BcMru b)" using find_SomeD [OF Some] xs(2) by auto
    then show ?thesis using Some by (simp add: list_for_each_is_list [OF xs(1)] find_map)
  qed
qed

lemma bc_find_unused:
  assumes "bc_ring (bc s)"
  shows "if clean s = {} then reverse_for_each (bc s) BcHead (bc_unused s) = Some BcHead
    else \<exists>b \<in> clean s. reverse_for_each (bc s) BcHead (bc_unused s) = Some (BcMru b)"
proof -
  obtain xs where xs: "is_list (bc s) BcHead (map BcMru xs)" "set xs = {..<NBUF}" using assms by (auto simp: bc_ring_def)
  have c: "b \<in> clean s \<longleftrightarrow> b \<in> set xs \<and> bc_unused s (BcMru b)" for b
    using xs(2) by (auto simp: clean_def busy_def dirty_def)
  show ?thesis
  proof (cases "find (bc_unused s \<circ> BcMru) (rev xs)")
    case None
    then have "clean s = {}" using c by (simp add: find_None_iff set_eq_iff)
    then show ?thesis using None by (simp add: reverse_for_each_is_list [OF xs(1)] find_map rev_map)
  next
    case (Some b)
    then have "b \<in> clean s" using c find_SomeD [OF Some] by simp
    then show ?thesis using Some by (auto simp: reverse_for_each_is_list [OF xs(1)] find_map rev_map)
  qed
qed

section \<open>Transfers\<close>

lemma memide_read_loop_512:
  "runs (memide_read_loop b 0 addr 512) s u s' \<longleftrightarrow>
     unat addr + 512 \<le> length (img s) \<and> 512 \<le> length (b_data (bufs s b)) \<and>
     s' = s\<lparr>bufs := (bufs s)(b := (bufs s b)\<lparr>b_data := put_bytes (b_data (bufs s b)) 0 (get_bytes 512 (img s) (unat addr))\<rparr>)\<rparr>"
  by (subst memide_read_loop.simps, subst memide_read_loop.simps) (auto simp: mrun Let_def)

lemma memide_write_loop_512:
  "runs (memide_write_loop b 0 addr 512) s u s' \<longleftrightarrow>
     unat addr + 512 \<le> length (img s) \<and> 512 \<le> length (b_data (bufs s b)) \<and>
     s' = s\<lparr>img := put_bytes (img s) (unat addr) (get_bytes 512 (b_data (bufs s b)) 0)\<rparr>"
  by (subst memide_write_loop.simps, subst memide_write_loop.simps) (auto simp: mrun Let_def)

lemma put_bytes_all: "length bs = length d \<Longrightarrow> put_bytes d 0 bs = bs"
  by (simp add: put_bytes_def)

lemma get_bytes_all: "length d = n \<Longrightarrow> get_bytes n d 0 = d"
  by (simp add: get_bytes_def)

lemma length_disk_blk: "in_img s n \<Longrightarrow> length (disk_blk (img s) n) = BSIZE"
  by (simp add: disk_blk_def get_bytes_def in_img_def)

lemma blk_addr:
  assumes "in_img s n" "length (img s) < 2 ^ 64"
  shows "unat (n * 512) = unat n * 512"
proof -
  have "unat n * 512 < 2 ^ 64" using assms by (simp add: in_img_def)
  then show ?thesis by (simp add: unat_word_ariths)
qed

text \<open>What one call of the driver does to a buffer: a dirty one is written, another one is read.\<close>

definition transfer :: "nat \<Rightarrow> u64 \<Rightarrow> fsst \<Rightarrow> fsst" where
  "transfer b n s =
     (if dirty s b then s\<lparr>img := put_bytes (img s) (unat n * BSIZE) (b_data (bufs s b))\<rparr>
      else s\<lparr>bufs := (bufs s)(b := (bufs s b)\<lparr>b_data := disk_blk (img s) n\<rparr>)\<rparr>)"

lemma memide_rw_ok:
  assumes "MDrv d \<notin> held s" "d_dev (drvs s d) = ROOT_DEV" "busy s b" "holds_blk s b n" "in_img s n"
    "length (img s) < 2 ^ 64" "length (b_data (bufs s b)) = BSIZE"
  shows "runs (memide_rw d b) s 0 (transfer b n s)"
proof -
  have "held s - {MDrv d} = held s" using assms(1) by auto
  then show ?thesis
    using assms blk_addr [OF assms(5,6)] length_disk_blk [OF assms(5)]
    unfolding memide_rw_def memide_write_sector_def memide_read_sector_def transfer_def disk_blk_def
    by (simp add: mrun Let_def memide_read_loop_512 memide_write_loop_512 busy_def holds_blk_def in_img_def
        dirty_def put_bytes_all get_bytes_all)
qed

lemma transfer_sel [simp]:
  "held (transfer b n s) = held s" "drvs (transfer b n s) = drvs s" "bc (transfer b n s) = bc s"
  "b_flags (bufs (transfer b n s) c) = b_flags (bufs s c)" "b_dev (bufs (transfer b n s) c) = b_dev (bufs s c)"
  "b_blockno (bufs (transfer b n s) c) = b_blockno (bufs s c)" "c \<noteq> b \<Longrightarrow> bufs (transfer b n s) c = bufs s c"
  by (auto simp: transfer_def)

lemma call_ok:
  assumes R: "disk_ready s" and b: "busy s b" "holds_blk s b n" "in_img s n" "length (b_data (bufs s b)) = BSIZE"
  shows "runs (mbind (devsw_get_handle (b_dev (bufs s b))) (\<lambda>drv. mbind (get_drv drv) (\<lambda>d.
    mthen (call_blkrw (d_blkrw d) drv b) (devsw_put_handle (b_dev (bufs s b)))))) s () (transfer b n s)"
proof -
  let ?d = "drvs s 1"
  let ?s1 = "s\<lparr>drvs := (drvs s)(1 := ?d\<lparr>d_count := d_count ?d + 1\<rparr>)\<rparr>"
  have dev: "b_dev (bufs s b) = ROOT_DEV" using b(2) by (simp add: holds_blk_def)
  have D: "drv_runs 1 ?d" "d_blkrw ?d = Some Memide_rw" using R by (simp_all add: disk_ready_def)
  have g: "runs (devsw_get_handle 1) s 1 ?s1"
    using devsw_get_ok [of s 1] R by (simp add: disk_ready_def)
  have "runs (memide_rw 1 b) ?s1 0 (transfer b n ?s1)"
    using R D b by (intro memide_rw_ok) (simp_all add: disk_ready_def busy_def holds_blk_def in_img_def drv_runs_def)
  then have m: "runs (call_blkrw (Some Memide_rw) 1 b) ?s1 () (transfer b n ?s1)"
    by (auto simp: call_blkrw_def mrun)
  have p: "runs (devsw_put_handle 1) (transfer b n ?s1) () ((transfer b n ?s1)\<lparr>drvs := drvs s\<rparr>)"
    using devsw_put_ok [of "transfer b n ?s1" 1] R D by (simp add: disk_ready_def drv_runs_def)
  have "(transfer b n ?s1)\<lparr>drvs := drvs s\<rparr> = transfer b n s"
    by (simp add: transfer_def dirty_def)
  then have p': "runs (devsw_put_handle 1) (transfer b n ?s1) () (transfer b n s)" using p by simp
  have m': "runs (call_blkrw (d_blkrw (drvs ?s1 1)) 1 b) ?s1 () (transfer b n ?s1)" using m D(2) by simp
  show ?thesis unfolding dev get_drv_def
    by (rule runs_mbindI [OF g], rule runs_mgetI, rule runs_mthenI [OF m' p'])
qed

section \<open>Reading, writing and releasing a block\<close>

text \<open>How \<^verbatim>\<open>buffer_cache_blk_get\<close> changes the buffer it returns.\<close>

definition grab :: "nat \<Rightarrow> u64 \<Rightarrow> fsst \<Rightarrow> fsst" where
  "grab b n s = s\<lparr>bufs := (bufs s)(b :=
     if holds_blk s b n then (bufs s b)\<lparr>b_flags := b_flags (bufs s b) OR B_BUSY\<rparr>
     else (bufs s b)\<lparr>b_dev := ROOT_DEV, b_blockno := n, b_flags := B_BUSY\<rparr>)\<rparr>"

definition grabs :: "fsst \<Rightarrow> nat \<Rightarrow> u64 \<Rightarrow> bool" where
  "grabs s b n = (b < NBUF \<and> \<not> busy s b \<and> (holds_blk s b n \<or> b \<in> clean s \<and> (\<forall>c < NBUF. \<not> holds_blk s c n)))"

lemma blk_get_ok:
  assumes R: "bc_ring (bc s)" and M: "MBc \<notin> held s"
    and idle: "\<forall>b < NBUF. holds_blk s b n \<longrightarrow> \<not> busy s b"
    and room: "clean s \<noteq> {} \<or> (\<exists>b < NBUF. holds_blk s b n)"
  shows "\<exists>b. grabs s b n \<and> runs (buffer_cache_blk_get ROOT_DEV n) s b (grab b n s)"
proof -
  have h: "held s - {MBc} = held s" using M by auto
  let ?s = "s\<lparr>ienab := False, held := insert MBc (held s)\<rparr>"
  have e: "bc_match ?s 1 n = bc_match s 1 n" "bc_unused ?s = bc_unused s"
    by (intro ext, rename_tac x, case_tac x; simp)+
  have m: "bc_match s 1 n (BcMru b) \<longleftrightarrow> holds_blk s b n" for b by (simp add: holds_blk_def)
  from bc_find [OF R, of 1 n] consider
      b where "b < NBUF" "list_for_each (bc s) BcHead (bc_match s 1 n) = Some (BcMru b)" "holds_blk s b n"
    | "list_for_each (bc s) BcHead (bc_match s 1 n) = Some BcHead" "\<And>b. b < NBUF \<Longrightarrow> \<not> holds_blk s b n"
    unfolding m by blast
  then show ?thesis
  proof cases
    case 1
    then show ?thesis
      using idle M h e by (intro exI [of _ b]) (simp add: buffer_cache_blk_get_def mrun grabs_def grab_def busy_def)
  next
    case 2
    then have "clean s \<noteq> {}" using room by blast
    then obtain b where b: "b \<in> clean s" "reverse_for_each (bc s) BcHead (bc_unused s) = Some (BcMru b)"
      using bc_find_unused [OF R] by auto
    then have "b < NBUF" "\<not> busy s b" by (auto simp: clean_def)
    then show ?thesis
      using b 2 M h e by (intro exI [of _ b]) (simp add: buffer_cache_blk_get_def mrun grabs_def grab_def)
  qed
qed

lemma view_same:
  assumes "\<And>b. b < NBUF \<Longrightarrow> (holds_blk s' b m \<and> dirty s' b) = (holds_blk s b m \<and> dirty s b)"
    and "\<And>b. b < NBUF \<Longrightarrow> holds_blk s b m \<Longrightarrow> dirty s b \<Longrightarrow> b_data (bufs s' b) = b_data (bufs s b)"
    and "(\<And>b. b < NBUF \<Longrightarrow> dirty s b \<Longrightarrow> \<not> holds_blk s b m) \<Longrightarrow> disk_blk (img s') m = disk_blk (img s) m"
  shows "view s' m = view s m"
proof -
  have "find (\<lambda>b. holds_blk s' b m \<and> dirty s' b) [0..<NBUF] = find (\<lambda>b. holds_blk s b m \<and> dirty s b) [0..<NBUF]"
    by (rule find_cong) (use assms(1) in auto)
  then show ?thesis
    using assms(2,3) by (auto simp: view_def find_None_iff dest: find_SomeD split: option.split)
qed

lemma disk_blk_put:
  assumes "unat n * BSIZE + BSIZE \<le> length im" "length bs = BSIZE"
  shows "disk_blk (put_bytes im (unat n * BSIZE) bs) m = (if m = n then bs else disk_blk im m)"
    "length (put_bytes im (unat n * BSIZE) bs) = length im"
proof -
  show l: "length (put_bytes im (unat n * BSIZE) bs) = length im"
    using fbytes.length_put [of "unat n * BSIZE" BSIZE im bs] assms by simp
  have "disk_blk (put_bytes im (unat n * BSIZE) bs) m = disk_blk im m" if "m \<noteq> n"
  proof (rule nth_equalityI)
    fix i assume i: "i < length (disk_blk (put_bytes im (unat n * BSIZE) bs) m)"
    have "unat m \<noteq> unat n" using that by (simp add: word_unat_eq_iff)
    then have "unat m * BSIZE + i < unat n * BSIZE \<or> unat n * BSIZE + BSIZE \<le> unat m * BSIZE + i"
      using i by (auto simp: disk_blk_def get_bytes_def)
    then show "disk_blk (put_bytes im (unat n * BSIZE) bs) m ! i = disk_blk im m ! i"
      using fbytes.nth_put [of "unat n * BSIZE" BSIZE im bs "unat m * BSIZE + i"] assms i l
      by (auto simp: disk_blk_def get_bytes_def)
  qed (simp add: disk_blk_def get_bytes_def l)
  moreover have "disk_blk (put_bytes im (unat n * BSIZE) bs) n = bs"
    using fbytes.get_put [of "unat n * BSIZE" BSIZE im bs] assms by (simp add: disk_blk_def)
  ultimately show "disk_blk (put_bytes im (unat n * BSIZE) bs) m = (if m = n then bs else disk_blk im m)" by simp
qed

definition lent :: "fsst \<Rightarrow> nat set" where
  "lent s = {b. b < NBUF \<and> busy s b}"

lemma grab_sel [simp]:
  "held (grab b n s) = held s" "drvs (grab b n s) = drvs s" "bc (grab b n s) = bc s" "img (grab b n s) = img s"
  "c \<noteq> b \<Longrightarrow> bufs (grab b n s) c = bufs s c" "b_data (bufs (grab b n s) c) = b_data (bufs s c)"
  by (auto simp: grab_def)

lemma grab_flags:
  "busy (grab b n s) c = (c = b \<or> busy s c)" "holds_blk (grab b n s) b n"
  "grabs s b n \<Longrightarrow> dirty (grab b n s) c = dirty s c"
  "c \<noteq> b \<Longrightarrow> holds_blk (grab b n s) c m = holds_blk s c m"
  by (auto simp: grab_def busy_def holds_blk_def dirty_def grabs_def clean_def)

lemma holds_grab: "holds_blk (grab b n s) c m = (if c = b then m = n else holds_blk s c m)"
  by (auto simp: holds_blk_def grab_def)

lemma grab_ok:
  assumes "bufs_ok s" "grabs s b n"
  shows "bufs_ok (grab b n s)"
proof -
  have "c' = c" if "c < NBUF" "c' < NBUF" "holds_blk (grab b n s) c m" "holds_blk (grab b n s) c' m" for c c' m
  proof -
    show ?thesis using that assms unfolding bufs_ok_def grabs_def holds_grab by (metis (no_types, lifting))
  qed
  moreover have "b_flags (bufs (grab b n s) c) AND 2 = 0" if "c < NBUF" for c
    using that assms by (auto simp: grab_def bufs_ok_def)
  ultimately show ?thesis using assms by (auto simp: bufs_ok_def)
qed

lemma transfer_flags [simp]:
  "busy (transfer b n s) c = busy s c" "dirty (transfer b n s) c = dirty s c"
  "holds_blk (transfer b n s) c m = holds_blk s c m"
  by (auto simp: busy_def dirty_def holds_blk_def)

lemma transfer_img:
  "img (transfer b n s) = (if dirty s b then put_bytes (img s) (unat n * BSIZE) (b_data (bufs s b)) else img s)"
  "b_data (bufs (transfer b n s) c) = (if c = b \<and> \<not> dirty s b then disk_blk (img s) n else b_data (bufs s c))"
  by (auto simp: transfer_def)

lemma transfer_view:
  assumes "b < NBUF" "holds_blk s b n" "in_img s n" "bufs_ok s"
  shows "view (transfer b n s) m = view s m" "b_data (bufs (transfer b n s) b) = view s n"
    "length (img (transfer b n s)) = length (img s)" "bufs_ok (transfer b n s)"
proof -
  have l: "length (b_data (bufs s b)) = BSIZE" using assms by (simp add: bufs_ok_def)
  note dp = disk_blk_put [OF assms(3) [unfolded in_img_def] l]
  show "length (img (transfer b n s)) = length (img s)" using dp by (simp add: transfer_def)
  show "view (transfer b n s) m = view s m"
    by (rule view_same) (use assms dp in \<open>auto simp: transfer_img\<close>)
  have u: "\<And>c. c < NBUF \<Longrightarrow> holds_blk s c n \<Longrightarrow> c = b" using assms by (auto simp: bufs_ok_def)
  show "b_data (bufs (transfer b n s) b) = view s n"
  proof (cases "dirty s b")
    case True
    then show ?thesis using view_dirty [OF assms(4,1,2)] by (simp add: transfer_def)
  next
    case False
    then have "view s n = disk_blk (img s) n" using u by (intro view_disk) blast
    then show ?thesis using False by (simp add: transfer_def)
  qed
  have "length (b_data (bufs (transfer b n s) c)) = BSIZE" if "c < NBUF" for c
    using that assms length_disk_blk [OF assms(3)] by (cases "c = b") (auto simp: transfer_def bufs_ok_def)
  then show "bufs_ok (transfer b n s)" using assms(4) by (simp add: bufs_ok_def)
qed

lemma transfer_above: "length (img (transfer b n s)) = length (img s) \<Longrightarrow> same_above s (transfer b n s)"
  by (auto simp: same_above_def transfer_def)

theorem blk_read_ok:
  assumes I: "bc_inv s" and n: "in_img s n"
    and idle: "\<forall>b < NBUF. holds_blk s b n \<longrightarrow> \<not> busy s b"
    and room: "clean s \<noteq> {} \<or> (\<exists>b < NBUF. holds_blk s b n)"
  shows "\<exists>b s'. runs (buffer_cache_blk_read ROOT_DEV n) s b s' \<and> bc_inv s' \<and> same_above s s' \<and>
    b < NBUF \<and> b \<notin> lent s \<and> lent s' = insert b (lent s) \<and> holds_blk s' b n \<and> b_data (bufs s' b) = view s n \<and>
    view s' = view s \<and> clean s' = clean s - {b} \<and> (b \<in> clean s) = (\<not> dirty s' b) \<and>
    (\<forall>c. c \<noteq> b \<longrightarrow> bufs s' c = bufs s c)"
proof -
  have R: "bc_ring (bc s)" "bufs_ok s" "disk_ready s" using I by (auto simp: bc_inv_def)
  have M: "MBc \<notin> held s" using R by (simp add: disk_ready_def)
  obtain b where b: "grabs s b n" and g: "runs (buffer_cache_blk_get 1 n) s b (grab b n s)"
    using blk_get_ok [OF R(1) M idle room] by blast
  let ?g = "grab b n s" and ?t = "transfer b n (grab b n s)"
  have bn: "b < NBUF" and nb: "\<not> busy s b" using b by (auto simp: grabs_def)
  have ok: "bufs_ok ?g" by (rule grab_ok [OF R(2) b])
  have dr: "disk_ready ?g" using R(3) by (simp add: disk_ready_def)
  have ig: "in_img ?g n" using n by (simp add: in_img_def)
  have v: "b_flags (bufs ?g b) AND 2 = 0" and l: "length (b_data (bufs ?g b)) = BSIZE"
    using ok bn by (auto simp: bufs_ok_def)
  have c: "runs (mbind (devsw_get_handle (b_dev (bufs ?g b))) (\<lambda>drv. mbind (get_drv drv) (\<lambda>d.
    mthen (call_blkrw (d_blkrw d) drv b) (devsw_put_handle (b_dev (bufs ?g b)))))) ?g () ?t"
    using dr ig l by (intro call_ok) (simp_all add: grab_flags)
  have run: "runs (buffer_cache_blk_read 1 n) s b ?t"
    unfolding buffer_cache_blk_read_def get_buf_def
    by (rule runs_mbindI [OF g], rule runs_mgetI, rule runs_mthenI [where x = "()" and s' = ?t])
      (use c v in \<open>simp_all add: mrun\<close>)
  note tv = transfer_view [OF bn grab_flags(2) ig ok]
  have gv: "view ?g m = view s m" for m
  proof (rule view_same)
    show "(holds_blk ?g c m \<and> dirty ?g c) = (holds_blk s c m \<and> dirty s c)" for c
      using b unfolding grab_flags(3) [OF b] holds_grab by (auto simp: grabs_def clean_def holds_blk_def)
  qed simp_all
  have "bc_inv ?t"
    using R tv dr by (simp add: bc_inv_def disk_ready_def)
  moreover have "same_above s ?t"
    using transfer_above [OF tv(3)] by (rule same_above_trans [rotated]) (simp add: same_above_def grab_def)
  moreover have "lent ?t = insert b (lent s)" "b \<notin> lent s"
    using bn nb by (auto simp: lent_def grab_flags)
  moreover have "clean ?t = clean s - {b}" "(b \<in> clean s) = (\<not> dirty ?t b)"
    using b bn nb by (auto simp: clean_def grab_flags)
  moreover have "b_data (bufs ?t b) = view s n" "view ?t = view s" "holds_blk ?t b n"
    using tv gv by (auto simp: grab_flags)
  ultimately show ?thesis using run bn by (intro exI [of _ b] exI [of _ ?t]) simp
qed


lemma blk_write_ok:
  assumes I: "bc_inv s" and b: "b \<in> lent s" "holds_blk s b n" and n: "in_img s n"
  shows "\<exists>s'. runs (buffer_cache_blk_write b) s b s' \<and> bc_inv s' \<and> same_above s s' \<and> lent s' = lent s \<and>
    clean s' = clean s \<and> view s' = (view s)(n := b_data (bufs s b)) \<and> holds_blk s' b n \<and> dirty s' b \<and>
    b_data (bufs s' b) = b_data (bufs s b) \<and> (\<forall>c. c \<noteq> b \<longrightarrow> bufs s' c = bufs s c)"
proof -
  have R: "bc_ring (bc s)" "bufs_ok s" "disk_ready s" using I by (auto simp: bc_inv_def)
  have bn: "b < NBUF" and bb: "busy s b" using b by (auto simp: lent_def)
  define w where "w = s\<lparr>bufs := (bufs s)(b := (bufs s b)\<lparr>b_flags := b_flags (bufs s b) OR B_DIRTY\<rparr>)\<rparr>"
  have wf: "busy w c = busy s c" "dirty w c = (c = b \<or> dirty s c)" "holds_blk w c m = holds_blk s c m"
      "b_data (bufs w c) = b_data (bufs s c)" "c \<noteq> b \<Longrightarrow> bufs w c = bufs s c" for c m
    by (auto simp: w_def busy_def dirty_def holds_blk_def)
  have ws: "img w = img s" "held w = held s" "drvs w = drvs s" "bc w = bc s" "same_above s w" "in_img w n"
    "b_dev (bufs w b) = b_dev (bufs s b)" using n by (simp_all add: w_def same_above_def in_img_def)
  have fl: "b_flags (bufs w c) AND 2 = b_flags (bufs s c) AND 2" for c by (simp add: w_def)
  have wok: "bufs_ok w" using R(2) unfolding bufs_ok_def wf fl .
  have dw: "disk_ready w" using R(3) by (simp add: disk_ready_def ws)
  let ?t = "transfer b n w"
  note tv = transfer_view [OF bn _ ws(6) wok, unfolded wf, OF b(2)]
  have lw: "length (b_data (bufs w b)) = BSIZE" using wok bn by (simp add: bufs_ok_def)
  have c: "runs (mbind (devsw_get_handle (b_dev (bufs s b))) (\<lambda>drv. mbind (get_drv drv) (\<lambda>d.
    mthen (call_blkrw (d_blkrw d) drv b) (devsw_put_handle (b_dev (bufs s b)))))) w () ?t"
    using call_ok [OF dw, of b n] wf bb b(2) ws(6,7) lw by simp
  have wu: "runs (upd_buf b (\<lambda>bp. bp\<lparr>b_flags := b_flags bp OR B_DIRTY\<rparr>)) s () w" by (simp add: mrun w_def)
  have run: "runs (buffer_cache_blk_write b) s b ?t"
  proof -
    obtain drv t1 u t2 where "runs (devsw_get_handle (b_dev (bufs s b))) w drv t1"
      "runs (call_blkrw (d_blkrw (drvs t1 drv)) drv b) t1 u t2" "runs (devsw_put_handle (b_dev (bufs s b))) t2 () ?t"
      using c by (auto simp: runs_mbind runs_mthen runs_fget)
    then show ?thesis
      unfolding buffer_cache_blk_write_def get_buf_def get_drv_def using bb
      by (intro runs_mgetI runs_mthenI [where s' = s] runs_mthenI [OF wu] runs_mbindI [where s' = t1]
          runs_mthenI [where s' = t2] runs_mthenI [where s' = ?t]) (auto simp: mrun busy_def)
  qed
  have "view ?t m = ((view s)(n := b_data (bufs s b))) m" for m
  proof (cases "m = n")
    case True
    then show ?thesis using tv(1) view_dirty [OF wok bn, of n] wf b(2) by simp
  next
    case False
    then have "\<not> holds_blk s b m" using b(2) by (simp add: holds_blk_def)
    then have "view w m = view s m" by (intro view_same) (auto simp: wf ws)
    then show ?thesis using tv(1) False by simp
  qed
  then have vw: "view ?t = (view s)(n := b_data (bufs s b))" by blast
  have "bc_inv ?t" using R tv(3,4) dw by (simp add: bc_inv_def disk_ready_def ws)
  moreover have "same_above s ?t" by (rule same_above_trans [OF ws(5) transfer_above [OF tv(3)]])
  moreover have "lent ?t = lent s" "clean ?t = clean s" using bb by (auto simp: lent_def clean_def wf)
  ultimately show ?thesis
    using run vw b(2) by (intro exI [of _ ?t]) (auto simp: wf transfer_img)
qed

lemma bc_ring_touch:
  assumes "bc_ring h" "b < NBUF"
  shows "bc_ring (list_add_top (list_del h (BcMru b)) BcHead (BcMru b))"
proof -
  obtain xs where xs: "is_list h BcHead (map BcMru xs)" "set xs = {..<NBUF}" using assms by (auto simp: bc_ring_def)
  have "b \<in> set xs" using xs assms by simp
  then obtain us vs where uv: "xs = us @ b # vs" by (meson split_list)
  have d: "distinct xs" using is_list_distinct [OF xs(1)] by (simp add: distinct_map)
  have "is_list (list_del h (BcMru b)) BcHead (map BcMru (us @ vs))"
    using is_list_del [of h BcHead "map BcMru us" "BcMru b" "map BcMru vs"] xs(1) uv by simp
  then have "is_list (list_add_top (list_del h (BcMru b)) BcHead (BcMru b)) BcHead (map BcMru (b # us @ vs))"
    using is_list_add_top [of _ BcHead "map BcMru (us @ vs)" "BcMru b"] d uv by auto
  moreover have "set (b # us @ vs) = {..<NBUF}" using xs(2) uv by auto
  ultimately show ?thesis unfolding bc_ring_def by blast
qed

lemma blk_release_ok:
  assumes I: "bc_inv s" and b: "b \<in> lent s"
  shows "\<exists>s'. runs (buffer_cache_blk_release b) s () s' \<and> bc_inv s' \<and> same_above s s' \<and> lent s' = lent s - {b} \<and>
    clean s' = (if dirty s b then clean s else insert b (clean s)) \<and> view s' = view s \<and>
    (\<forall>c. c \<noteq> b \<longrightarrow> bufs s' c = bufs s c)"
proof -
  have R: "bc_ring (bc s)" "bufs_ok s" "disk_ready s" using I by (auto simp: bc_inv_def)
  have bn: "b < NBUF" and bb: "busy s b" using b by (auto simp: lent_def)
  have h: "MBc \<notin> held s" "held s - {MBc} = held s" using R(3) by (auto simp: disk_ready_def)
  define t where "t = s\<lparr>bc := list_add_top (list_del (bc s) (BcMru b)) BcHead (BcMru b),
    bufs := (bufs s)(b := (bufs s b)\<lparr>b_flags := b_flags (bufs s b) AND NOT B_BUSY\<rparr>), wqs := (wqs s)(WqBuf b := [])\<rparr>"
  have tf: "busy t c = (c \<noteq> b \<and> busy s c)" "dirty t c = dirty s c" "holds_blk t c m = holds_blk s c m"
      "b_data (bufs t c) = b_data (bufs s c)" "c \<noteq> b \<Longrightarrow> bufs t c = bufs s c" for c m
    by (auto simp: t_def busy_def dirty_def holds_blk_def)
  have run: "runs (buffer_cache_blk_release b) s () t"
    using bb h by (simp add: buffer_cache_blk_release_def mrun busy_def t_def)
  have it: "img t = img s" and fl: "b_flags (bufs t c) AND 2 = b_flags (bufs s c) AND 2" for c by (simp_all add: t_def)
  have "view t m = view s m" for m by (rule view_same) (auto simp: tf it)
  moreover have "bufs_ok t" using R(2) unfolding bufs_ok_def tf fl .
  moreover have "bc_inv t"
    using R \<open>bufs_ok t\<close> bc_ring_touch [OF R(1) bn] by (simp add: bc_inv_def disk_ready_def t_def)
  moreover have "lent t = lent s - {b}" "clean t = (if dirty s b then clean s else insert b (clean s))"
    using bn bb by (auto simp: lent_def clean_def tf)
  moreover have "same_above s t" by (simp add: same_above_def t_def)
  ultimately show ?thesis using run tf(5) by blast
qed

section \<open>The cache as a store of blocks\<close>

text \<open>The two ways the file system uses a block: look at it, and replace its contents.\<close>

definition blk_peek :: "u64 \<Rightarrow> u8 list fsm" where
  "blk_peek n =
     mbind (buffer_cache_blk_read ROOT_DEV n) (\<lambda>b. mbind (get_buf b) (\<lambda>bp.
     mthen (buffer_cache_blk_release b) (mret (b_data bp))))"

definition blk_poke :: "u64 \<Rightarrow> u8 list \<Rightarrow> unit fsm" where
  "blk_poke n d =
     mbind (buffer_cache_blk_read ROOT_DEV n) (\<lambda>b.
     mthen (upd_buf b (\<lambda>bp. bp\<lparr>b_data := d\<rparr>))
     (mthen (buffer_cache_blk_write b) (buffer_cache_blk_release b)))"

datatype 'd bop = Peek u64 | Poke u64 'd

text \<open>A client that looks at and replaces blocks in turn, and what it gets from a plain array of blocks.\<close>

fun run_ops :: "(u64 \<Rightarrow> ('s, 'd) kfun) \<Rightarrow> (u64 \<Rightarrow> 'd \<Rightarrow> ('s, unit) kfun) \<Rightarrow> 'd bop list \<Rightarrow> ('s, 'd list) kfun" where
  "run_ops peek poke [] = mret []"
| "run_ops peek poke (Peek n # ops) = mbind (peek n) (\<lambda>d. mbind (run_ops peek poke ops) (\<lambda>ds. mret (d # ds)))"
| "run_ops peek poke (Poke n d # ops) = mthen (poke n d) (run_ops peek poke ops)"

fun array_ops :: "'d bop list \<Rightarrow> (u64 \<Rightarrow> 'd) \<Rightarrow> 'd list \<times> (u64 \<Rightarrow> 'd)" where
  "array_ops [] A = ([], A)"
| "array_ops (Peek n # ops) A = (let (ds, B) = array_ops ops A in (A n # ds, B))"
| "array_ops (Poke n d # ops) A = array_ops ops (A(n := d))"

fun ops_ok :: "(u64 \<Rightarrow> bool) \<Rightarrow> ('d \<Rightarrow> bool) \<Rightarrow> 'd bop list \<Rightarrow> bool" where
  "ops_ok valid fits [] = True"
| "ops_ok valid fits (Peek n # ops) = (valid n \<and> ops_ok valid fits ops)"
| "ops_ok valid fits (Poke n d # ops) = (valid n \<and> fits d \<and> ops_ok valid fits ops)"

fun pokes :: "'d bop list \<Rightarrow> nat" where
  "pokes [] = 0"
| "pokes (Peek n # ops) = pokes ops"
| "pokes (Poke n d # ops) = Suc (pokes ops)"

locale block_store =
  fixes peek :: "u64 \<Rightarrow> ('s, 'd) kfun" and poke :: "u64 \<Rightarrow> 'd \<Rightarrow> ('s, unit) kfun"
    and contents :: "'s \<Rightarrow> u64 \<Rightarrow> 'd" and room :: "nat \<Rightarrow> 's \<Rightarrow> bool" and valid :: "'s \<Rightarrow> u64 \<Rightarrow> bool" and fits :: "'d \<Rightarrow> bool"
  assumes peek_law: "room k s \<Longrightarrow> valid s n \<Longrightarrow>
      \<exists>s'. runs (peek n) s (contents s n) s' \<and> room k s' \<and> contents s' = contents s \<and> valid s' = valid s"
    and poke_law: "room (Suc k) s \<Longrightarrow> valid s n \<Longrightarrow> fits d \<Longrightarrow>
      \<exists>s'. runs (poke n d) s () s' \<and> room k s' \<and> contents s' = (contents s)(n := d) \<and> valid s' = valid s"
begin

lemma run_ops_spec:
  assumes "room (k + pokes ops) s" "ops_ok (valid s) fits ops"
  shows "\<exists>s'. runs (run_ops peek poke ops) s (fst (array_ops ops (contents s))) s' \<and> room k s' \<and>
    contents s' = snd (array_ops ops (contents s))"
  using assms
proof (induction ops arbitrary: s rule: pokes.induct)
  case 1
  then show ?case by (auto simp: mrun)
next
  case (2 n ops)
  obtain s1 where s1: "runs (peek n) s (contents s n) s1" "room (k + pokes ops) s1" "contents s1 = contents s" "valid s1 = valid s"
    using peek_law [of "k + pokes ops" s n] 2 by auto
  then have "ops_ok (valid s1) fits ops" using 2 by simp
  then obtain s' where "runs (run_ops peek poke ops) s1 (fst (array_ops ops (contents s1))) s'" "room k s'"
      "contents s' = snd (array_ops ops (contents s1))" using 2(1) s1(2) by blast
  then show ?case using s1 by (auto simp: runs_mret split: prod.split intro!: runs_mbindI exI [of _ s'])
next
  case (3 n d ops)
  obtain s1 where s1: "runs (poke n d) s () s1" "room (k + pokes ops) s1" "contents s1 = (contents s)(n := d)" "valid s1 = valid s"
    using poke_law [of "k + pokes ops" s n d] 3 by auto
  then have "ops_ok (valid s1) fits ops" using 3 by simp
  then obtain s' where "runs (run_ops peek poke ops) s1 (fst (array_ops ops (contents s1))) s'" "room k s'"
      "contents s' = snd (array_ops ops (contents s1))" using 3(1) s1(2) by blast
  then show ?case using s1 by (auto intro!: runs_mthenI exI [of _ s'])
qed

end

text \<open>Room for \<open>k\<close> writes: no buffer is lent out, and one more than \<open>k\<close> can be given to other blocks.\<close>

definition bc_room :: "nat \<Rightarrow> fsst \<Rightarrow> bool" where
  "bc_room k s = (bc_inv s \<and> lent s = {} \<and> k < card (clean s))"

lemma finite_clean [simp]: "finite (clean s)"
  by (rule finite_subset [of _ "{..<NBUF}"]) (auto simp: clean_def)

lemma upd_data_ok:
  assumes I: "bc_inv s" and b: "b \<in> lent s" and l: "length d = BSIZE"
  defines "s' \<equiv> s\<lparr>bufs := (bufs s)(b := (bufs s b)\<lparr>b_data := d\<rparr>)\<rparr>"
  shows "bc_inv s'" "lent s' = lent s" "clean s' = clean s" "same_above s s'" "holds_blk s' c m = holds_blk s c m"
    "dirty s' c = dirty s c" "\<not> holds_blk s b m \<Longrightarrow> view s' m = view s m"
proof -
  have f: "holds_blk s' c m = holds_blk s c m" "dirty s' c = dirty s c" "busy s' c = busy s c" for c m
    by (auto simp: s'_def holds_blk_def dirty_def busy_def)
  show "holds_blk s' c m = holds_blk s c m" "dirty s' c = dirty s c" by (simp_all add: f)
  show "lent s' = lent s" "clean s' = clean s" by (simp_all add: lent_def clean_def f)
  show "same_above s s'" by (simp add: same_above_def s'_def)
  have "b_flags (bufs s' c) AND 2 = b_flags (bufs s c) AND 2" "c < NBUF \<Longrightarrow> length (b_data (bufs s' c)) = BSIZE" for c
    using I l by (auto simp: s'_def bc_inv_def bufs_ok_def)
  moreover have "bc_ring (bc s')" "disk_ready s'" using I by (simp_all add: s'_def bc_inv_def disk_ready_def)
  ultimately show "bc_inv s'" using I unfolding bc_inv_def bufs_ok_def f by simp
  have "img s' = img s" "c \<noteq> b \<Longrightarrow> bufs s' c = bufs s c" for c by (simp_all add: s'_def)
  then show "\<not> holds_blk s b m \<Longrightarrow> view s' m = view s m"
    by (intro view_same) (simp_all add: f, metis)
qed

lemma blk_read_idle:
  assumes R: "bc_inv s" "lent s = {}" "clean s \<noteq> {}" and n: "in_img s n"
  obtains b s1 where "runs (buffer_cache_blk_read ROOT_DEV n) s b s1" "bc_inv s1" "same_above s s1" "b < NBUF"
      "lent s1 = {b}" "holds_blk s1 b n" "b_data (bufs s1 b) = view s n" "view s1 = view s" "clean s1 = clean s - {b}"
      "(b \<in> clean s) = (\<not> dirty s1 b)"
proof -
  have "\<forall>b < NBUF. holds_blk s b n \<longrightarrow> \<not> busy s b" using R(2) by (auto simp: lent_def)
  from blk_read_ok [OF R(1) n this disjI1 [OF R(3)]] R(2) show ?thesis by (elim exE conjE, intro that) simp_all
qed

lemma peek_steps:
  assumes R: "bc_room k s" and n: "in_img s n"
  obtains b s1 s2 where "runs (buffer_cache_blk_read ROOT_DEV n) s b s1" "b_data (bufs s1 b) = view s n"
    "runs (buffer_cache_blk_release b) s1 () s2" "bc_room k s2" "view s2 = view s" "same_above s s2" "same_above s s1"
proof -
  have I: "bc_inv s" "lent s = {}" "clean s \<noteq> {}" using R by (auto simp: bc_room_def)
  obtain b s1 where 1: "runs (buffer_cache_blk_read ROOT_DEV n) s b s1" "bc_inv s1" "same_above s s1" "lent s1 = {b}"
      "b_data (bufs s1 b) = view s n" "view s1 = view s" "clean s1 = clean s - {b}" "(b \<in> clean s) = (\<not> dirty s1 b)"
    by (rule blk_read_idle [OF I n])
  obtain s2 where 2: "runs (buffer_cache_blk_release b) s1 () s2" "bc_inv s2" "same_above s1 s2" "lent s2 = {}"
      "clean s2 = (if dirty s1 b then clean s1 else insert b (clean s1))" "view s2 = view s1"
    using blk_release_ok [OF 1(2), of b] 1(4) by auto
  have "clean s2 = clean s" using 1(7,8) 2(5) by auto
  then have "bc_room k s2" using R 2 by (simp add: bc_room_def)
  moreover have "view s2 = view s" using 1(6) 2(6) by simp
  moreover have "same_above s s2" by (rule same_above_trans [OF 1(3) 2(3)])
  ultimately show ?thesis by (rule that [OF 1(1,5) 2(1) _ _ _ 1(3)])
qed

lemma blk_peek_ok:
  assumes R: "bc_room k s" and n: "in_img s n"
  shows "\<exists>s'. runs (blk_peek n) s (view s n) s' \<and> bc_room k s' \<and> view s' = view s \<and> same_above s s'"
proof -
  obtain b s1 s2 where p: "runs (buffer_cache_blk_read ROOT_DEV n) s b s1" "b_data (bufs s1 b) = view s n"
    "runs (buffer_cache_blk_release b) s1 () s2" "bc_room k s2" "view s2 = view s" "same_above s s2" by (rule peek_steps [OF R n])
  have "runs (blk_peek n) s (view s n) s2"
    unfolding blk_peek_def get_buf_def
    by (rule runs_mbindI [OF p(1)], rule runs_mgetI, rule runs_mthenI [OF p(3)]) (simp add: p(2) runs_mret)
  then show ?thesis using p(4,5,6) by blast
qed

lemma poke_steps:
  assumes R: "bc_room (Suc k) s" and n: "in_img s n" and d: "length d = BSIZE"
  obtains b s1 s2 s3 where "runs (buffer_cache_blk_read ROOT_DEV n) s b s1" "b_data (bufs s1 b) = view s n"
    "runs (buffer_cache_blk_write b) (s1\<lparr>bufs := (bufs s1)(b := (bufs s1 b)\<lparr>b_data := d\<rparr>)\<rparr>) b s2"
    "runs (buffer_cache_blk_release b) s2 () s3" "bc_room k s3" "view s3 = (view s)(n := d)" "same_above s s3" "same_above s s1"
proof -
  have I: "bc_inv s" "lent s = {}" "clean s \<noteq> {}" using R by (auto simp: bc_room_def)
  obtain b s1 where 1: "runs (buffer_cache_blk_read ROOT_DEV n) s b s1" "bc_inv s1" "same_above s s1" "lent s1 = {b}"
      "holds_blk s1 b n" "view s1 = view s" "clean s1 = clean s - {b}" "b_data (bufs s1 b) = view s n"
    by (rule blk_read_idle [OF I n])
  define w where "w = s1\<lparr>bufs := (bufs s1)(b := (bufs s1 b)\<lparr>b_data := d\<rparr>)\<rparr>"
  have b: "b \<in> lent s1" using 1 by simp
  note W = upd_data_ok [OF 1(2) b d, folded w_def]
  have wn: "in_img w n" using n 1(3) W(4) by (simp add: in_img_def same_above_def)
  have wd: "b_data (bufs w b) = d" by (simp add: w_def)
  have vw: "view w m = view s m" if "m \<noteq> n" for m
    using W(7) [of m] 1(5,6) that by (simp add: holds_blk_def)
  have bw: "b \<in> lent w" "holds_blk w b n" using W b 1(5) by simp_all
  obtain s2 where 2: "runs (buffer_cache_blk_write b) w b s2" "bc_inv s2" "same_above w s2" "lent s2 = lent w"
      "clean s2 = clean w" "view s2 = (view w)(n := d)" "dirty s2 b"
    using blk_write_ok [OF W(1) bw wn] wd by auto
  obtain s3 where 3: "runs (buffer_cache_blk_release b) s2 () s3" "bc_inv s3" "same_above s2 s3" "lent s3 = lent s2 - {b}"
      "clean s3 = clean s2" "view s3 = view s2"
    using blk_release_ok [OF 2(2), of b] 2(4,7) bw by auto
  have "card (clean s) \<le> Suc (card (clean s3))"
    using 1(7) 2(5) 3(5) W(3) card_Suc_Diff1 [OF finite_clean, of b s] by (cases "b \<in> clean s") auto
  then have "bc_room k s3" using R 2 3 W 1(4) by (simp add: bc_room_def)
  moreover have "view s3 = (view s)(n := d)" using 2(6) 3(6) vw by auto
  moreover have "same_above s s3" using 1(3) W(4) 2(3) 3(3) by (meson same_above_trans)
  ultimately show ?thesis by (rule that [OF 1(1,8) 2(1) [unfolded w_def] 3(1) _ _ _ 1(3)])
qed

lemma blk_poke_ok:
  assumes R: "bc_room (Suc k) s" and n: "in_img s n" and d: "length d = BSIZE"
  shows "\<exists>s'. runs (blk_poke n d) s () s' \<and> bc_room k s' \<and> view s' = (view s)(n := d) \<and> same_above s s'"
proof -
  obtain b s1 s2 s3 where p: "runs (buffer_cache_blk_read ROOT_DEV n) s b s1"
    "runs (buffer_cache_blk_write b) (s1\<lparr>bufs := (bufs s1)(b := (bufs s1 b)\<lparr>b_data := d\<rparr>)\<rparr>) b s2"
    "runs (buffer_cache_blk_release b) s2 () s3" "bc_room k s3" "view s3 = (view s)(n := d)" "same_above s s3"
    by (rule poke_steps [OF R n d])
  have "runs (blk_poke n d) s () s3"
    unfolding blk_poke_def
    by (rule runs_mbindI [OF p(1)], rule runs_mthenI [OF _ runs_mthenI [OF p(2,3)]]) (simp add: runs_upd)
  then show ?thesis using p(4-6) by blast
qed

interpretation cache: block_store blk_peek blk_poke view bc_room in_img "\<lambda>d. length d = BSIZE"
proof
  fix k s n
  have v: "same_above s s' \<Longrightarrow> in_img s' = in_img s" for s' by (auto simp: in_img_def same_above_def)
  show "bc_room k s \<Longrightarrow> in_img s n \<Longrightarrow>
      \<exists>s'. runs (blk_peek n) s (view s n) s' \<and> bc_room k s' \<and> view s' = view s \<and> in_img s' = in_img s"
    using blk_peek_ok v by meson
  show "bc_room (Suc k) s \<Longrightarrow> in_img s n \<Longrightarrow> length d = BSIZE \<Longrightarrow>
      \<exists>s'. runs (blk_poke n d) s () s' \<and> bc_room k s' \<and> view s' = (view s)(n := d) \<and> in_img s' = in_img s" for d
    using blk_poke_ok v by meson
qed

text \<open>
  C10: The buffer cache behaves as an array of blocks.  Any sequence of block reads and of writes of
  whole blocks, with fewer writes than there are buffers left to give out, runs to its end without
  panic; every read delivers what the last write to the block stored, or the contents the block had
  before; and the final contents are those of the array.
\<close>

theorem cache_refines_array:
  assumes "bc_room (k + pokes ops) s" "ops_ok (in_img s) (\<lambda>d. length d = BSIZE) ops"
  shows "\<exists>s'. run_ops blk_peek blk_poke ops s = Ok (fst (array_ops ops (view s)), s') \<and>
    view s' = snd (array_ops ops (view s)) \<and> bc_room k s'"
  using cache.run_ops_spec [OF assms] by (auto simp: runs_def)

text \<open>Nothing in the cache makes a dirty buffer clean again.\<close>

definition dirt :: "fsst \<Rightarrow> fsst \<Rightarrow> bool" where
  "dirt s s' = (\<forall>c. dirty s c \<longrightarrow> dirty s' c)"

lemma dirt_po: "reflp dirt" "transp dirt"
  by (auto simp: dirt_def intro: reflpI transpI)

lemmas dirt_rules = keeps_refl [OF dirt_po(1)] keeps_mbind [OF dirt_po(2)] keeps_mthen [OF dirt_po(2)] keeps_if

lemma dirt_basic:
  "keeps dirt (fhold m)" "keeps dirt (frelease m)" "keeps dirt fsave" "keeps dirt (frestore e)" "keeps dirt (fwakeup q)"
  "keeps dirt (get_buf b)" "keeps dirt (get_drv d)" "keeps dirt (upd_drv d f)" "keeps dirt (mmod (bc_update g))"
  "keeps dirt (mmod (img_update h))"
  by (auto simp: keeps_def mrun dirt_def dirty_def)

lemma dirt_upd_buf: "(\<And>bp. b_flags bp AND B_DIRTY \<noteq> 0 \<Longrightarrow> b_flags (f bp) AND B_DIRTY \<noteq> 0) \<Longrightarrow> keeps dirt (upd_buf b f)"
  by (auto simp: keeps_def mrun dirt_def dirty_def)

lemma dirt_devsw: "keeps dirt (devsw_get_handle dev)" "keeps dirt (devsw_put_handle dev)"
  unfolding devsw_get_handle_def devsw_put_handle_def by (intro dirt_rules dirt_basic)+

lemma dirt_memide_loops: "keeps dirt (memide_read_loop b i a r)" "keeps dirt (memide_write_loop b i a r)"
proof -
  show "keeps dirt (memide_read_loop b i a r)"
  proof (induction b i a r rule: memide_read_loop.induct)
    case (1 b i a r)
    show ?case by (subst memide_read_loop.simps) (simp add: Let_def, intro conjI impI dirt_rules dirt_basic dirt_upd_buf; use 1 in simp)
  qed
  show "keeps dirt (memide_write_loop b i a r)"
  proof (induction b i a r rule: memide_write_loop.induct)
    case (1 b i a r)
    show ?case by (subst memide_write_loop.simps) (simp add: Let_def, intro conjI impI dirt_rules dirt_basic dirt_upd_buf; use 1 in simp)
  qed
qed

lemma dirt_call: "keeps dirt (call_blkrw fn d b)"
proof -
  have "keeps dirt (memide_rw d b)"
    unfolding memide_rw_def memide_write_sector_def memide_read_sector_def Let_def
    by (intro dirt_rules dirt_basic dirt_memide_loops)
  then show ?thesis unfolding call_blkrw_def by (auto split: option.split devfn.split intro!: dirt_rules)
qed

lemma dirt_get: "keeps dirt (buffer_cache_blk_get dev n)"
proof -
  have r: "dirty s b \<Longrightarrow> reverse_for_each (bc s) BcHead (bc_unused s) \<noteq> Some (BcMru b)" for s b
    unfolding reverse_for_each_def by (auto dest!: while_option_stop simp: dirty_def)
  have "keeps dirt (mbind (mget (\<lambda>s. reverse_for_each (bc s) BcHead (bc_unused s))) (\<lambda>lp.
      case lp of Some (BcMru b) \<Rightarrow>
          mthen (upd_buf b (\<lambda>bp. bp\<lparr>b_dev := dev, b_blockno := n, b_flags := B_BUSY\<rparr>))
          (mthen (frelease MBc) (mthen (frestore psw) (mret b)))
      | Some BcHead \<Rightarrow> mthen (frelease MBc) (mstop Kpanic)
      | _ \<Rightarrow> mstop Kblocked))" for psw
    unfolding keeps_def
    by (auto simp: mrun dirt_def split: option.splits bnode.splits) (use r in \<open>auto simp: dirty_def\<close>)
  then show ?thesis unfolding buffer_cache_blk_get_def
    by (auto split: option.split bnode.split intro!: dirt_rules dirt_basic dirt_upd_buf)
qed

text \<open>
  C11: A block that was written keeps its buffer: no operation of the cache makes a dirty buffer clean
  again, whatever device and block it is called with.  So when every buffer is in use or was written
  once, reading a block the cache does not hold panics.
\<close>

theorem cache_exhausted:
  "(runs (buffer_cache_blk_read dev n) s b s' \<or> runs (buffer_cache_blk_write b) s b s' \<or>
      runs (buffer_cache_blk_release b) s () s' \<longrightarrow> (\<forall>c. dirty s c \<longrightarrow> dirty s' c)) \<and>
   (bc_ring (bc s) \<and> MBc \<notin> held s \<and> clean s = {} \<and> (\<forall>c < NBUF. \<not> holds_blk s c n) \<longrightarrow>
      buffer_cache_blk_read ROOT_DEV n s = Stop Kpanic)"
proof (intro conjI impI)
  have "keeps dirt (buffer_cache_blk_read dev n)" "keeps dirt (buffer_cache_blk_write b)" "keeps dirt (buffer_cache_blk_release b)"
    unfolding buffer_cache_blk_read_def buffer_cache_blk_write_def buffer_cache_blk_release_def
    by (intro dirt_rules dirt_basic dirt_upd_buf dirt_devsw dirt_call dirt_get; simp)+
  then show "\<forall>c. dirty s c \<longrightarrow> dirty s' c" if "runs (buffer_cache_blk_read dev n) s b s' \<or>
      runs (buffer_cache_blk_write b) s b s' \<or> runs (buffer_cache_blk_release b) s () s'"
    using that by (auto dest!: keepsD simp: dirt_def)
next
  assume A: "bc_ring (bc s) \<and> MBc \<notin> held s \<and> clean s = {} \<and> (\<forall>c < NBUF. \<not> holds_blk s c n)"
  then have R: "bc_ring (bc s)" by simp
  let ?s = "held_update (insert MBc) (s\<lparr>ienab := False\<rparr>)"
  have e: "bc_match ?s 1 n = bc_match s 1 n" "bc_unused ?s = bc_unused s"
    by (intro ext, rename_tac x, case_tac x; simp)+
  have "list_for_each (bc s) BcHead (bc_match s 1 n) = Some BcHead"
    using bc_find [OF R, of 1 n] A by (auto simp: holds_blk_def)
  moreover have "reverse_for_each (bc s) BcHead (bc_unused s) = Some BcHead"
    using bc_find_unused [OF R] A by simp
  ultimately show "buffer_cache_blk_read ROOT_DEV n s = Stop Kpanic"
    using A by (simp add: buffer_cache_blk_read_def buffer_cache_blk_get_def mexec fsave_def fhold_def
        frelease_def e)
qed

section \<open>Starting up\<close>

lemma buffer_cache_init_ok:
  assumes "\<And>b. b_flags (bufs s b) = 0 \<and> length (b_data (bufs s b)) = BSIZE"
  shows "\<exists>s'. runs buffer_cache_init s () s' \<and> bc_ring (bc s') \<and> bufs_ok s' \<and> lent s' = {} \<and> clean s' = {..<NBUF} \<and>
    held s' = held s - {MBc} \<and> drvs s' = drvs s \<and> img s' = img s \<and> inodes s' = inodes s \<and> files s' = files s \<and>
    fds s' = fds s \<and> cur s' = cur s"
proof -
  define P :: "nat \<Rightarrow> fsst \<Rightarrow> bool" where "P i t = (is_list (bc t) BcHead (map BcMru (rev [0..<i])) \<and>
    (\<forall>b. b_flags (bufs t b) = 0 \<and> length (b_data (bufs t b)) = BSIZE \<and> (b < i \<longrightarrow> b_dev (bufs t b) = - 1)) \<and>
    held t = held s - {MBc} \<and> drvs t = drvs s \<and> img t = img s \<and> inodes t = inodes s \<and> files t = files s \<and>
    fds t = fds s \<and> cur t = cur s)" for i t
  let ?s1 = "bc_update (\<lambda>h. init_list_head h BcHead) (held_update (\<lambda>h. h - {MBc}) s)"
  have "\<exists>s'. runs (mfor_each [0..<NBUF] (\<lambda>b.
        mthen (mmod (bc_update (\<lambda>h. init_list_node h (BcMru b))))
        (mthen (mmod (bc_update (\<lambda>h. init_list_node h (BcLink b))))
        (mthen (mmod (bc_update (\<lambda>h. list_add_top h BcHead (BcMru b))))
        (mthen (upd_buf b (\<lambda>bp. bp\<lparr>b_dev := BLK_DEV_NODEV\<rparr>))
        (mmod (wqs_update (\<lambda>w. w(WqBuf b := []))))))))) ?s1 () s' \<and> P NBUF s'"
  proof (rule runs_mfor_each_upt)
    show "P 0 ?s1" using assms by (simp add: P_def is_list_init_head)
    fix i t assume P: "P i t"
    let ?h = "init_list_node (init_list_node (bc t) (BcMru i)) (BcLink i)"
    have "is_list ?h BcHead (map BcMru (rev [0..<i]))"
      by (rule iffD2 [OF is_list_frame [where h = "bc t"]]) (use P in \<open>auto simp: P_def kframe\<close>)
    then have "is_list (list_add_top ?h BcHead (BcMru i)) BcHead (map BcMru (rev [0..<Suc i]))"
      using is_list_add_top [of ?h BcHead "map BcMru (rev [0..<i])" "BcMru i"] by (simp add: image_iff)
    then show "\<exists>t'. runs (mthen (mmod (bc_update (\<lambda>h. init_list_node h (BcMru i))))
        (mthen (mmod (bc_update (\<lambda>h. init_list_node h (BcLink i))))
        (mthen (mmod (bc_update (\<lambda>h. list_add_top h BcHead (BcMru i))))
        (mthen (upd_buf i (\<lambda>bp. bp\<lparr>b_dev := BLK_DEV_NODEV\<rparr>))
        (mmod (wqs_update (\<lambda>w. w(WqBuf i := [])))))))) t () t' \<and> P (Suc i) t'"
      using P by (auto simp: mrun P_def)
  qed simp
  then obtain s' where s': "runs buffer_cache_init s () s'" "P NBUF s'"
    by (auto simp: buffer_cache_init_def mutex_init_fs_def mrun)
  have "bc_ring (bc s')" unfolding bc_ring_def using s'(2) by (intro exI [of _ "rev [0..<NBUF]"]) (auto simp: P_def)
  moreover have "bufs_ok s'" using s'(2) by (simp add: P_def bufs_ok_def holds_blk_def)
  moreover have "lent s' = {}" "clean s' = {..<NBUF}" using s'(2) by (auto simp: P_def lent_def clean_def busy_def dirty_def)
  ultimately show ?thesis using s' by (auto simp: P_def)
qed


lemma devsw_init_ok:
  "\<exists>s'. runs devsw_init s () s' \<and> held s' \<subseteq> held s \<and> (\<forall>i. drvs s i = drv0 \<longrightarrow> drvs s' i = drv0) \<and> bc s' = bc s \<and>
    bufs s' = bufs s \<and> img s' = img s \<and> inodes s' = inodes s \<and> files s' = files s \<and> fds s' = fds s \<and> cur s' = cur s"
proof -
  have "\<exists>s'. runs devsw_init s () s' \<and> (held s' \<subseteq> held s \<and> (\<forall>i. drvs s i = drv0 \<longrightarrow> drvs s' i = drv0) \<and> bc s' = bc s \<and>
      bufs s' = bufs s \<and> img s' = img s \<and> inodes s' = inodes s \<and> files s' = files s \<and> fds s' = fds s \<and> cur s' = cur s)"
    unfolding devsw_init_def
    by (rule runs_mfor_each_upt [where P = "\<lambda>_ t. held t \<subseteq> held s \<and> (\<forall>i. drvs s i = drv0 \<longrightarrow> drvs t i = drv0) \<and>
        bc t = bc s \<and> bufs t = bufs s \<and> img t = img s \<and> inodes t = inodes s \<and> files t = files s \<and> fds t = fds s \<and> cur t = cur s"])
      (auto simp: mrun mutex_init_fs_def drv0_def)
  then show ?thesis .
qed

text \<open>The start-up of \<^verbatim>\<open>kern/main.c\<close> and \<^verbatim>\<open>hal/x64/boot64.c\<close> as far as the disk is concerned.\<close>

definition disk_init :: "unit fsm" where
  "disk_init = mthen devsw_init (mthen buffer_cache_init (mthen memide_init (mret ())))"

lemma memide_init_ok:
  assumes 2: "bc_ring (bc s)" "bufs_ok s" "lent s = {}" "clean s = {..<NBUF}" "held s = {}" "drvs s = (\<lambda>_. drv0)" "length (img s) < 2 ^ 64"
  shows "\<exists>d. runs memide_init s 0 (s\<lparr>drvs := d\<rparr>) \<and> bc_room 1023 (s\<lparr>drvs := d\<rparr>) \<and> view (s\<lparr>drvs := d\<rparr>) = disk_blk (img s)"
proof -
  have "devsw_inv s" "drv_free (drvs s (unat (1 :: u64)))" using 2 by (simp_all add: devsw_inv_def drv_free_def drv0_def)
  from register_ok [OF this(1) _ _ this(2), of "drv0\<lparr>d_blkrw := Some Memide_rw\<rparr>" 0] obtain d where
    3: "runs memide_init s 0 (s\<lparr>drvs := (drvs s)(1 := d)\<rparr>)" "drv_runs 1 d" "d_blkrw d = Some Memide_rw"
    by (auto simp: memide_init_def drv_runs_def 2(6))
  define t where "t = s\<lparr>drvs := (drvs s)(1 := d)\<rparr>"
  have tb: "bufs t = bufs s" "img t = img s" by (simp_all add: t_def)
  have f: "busy t b = busy s b" "dirty t b = dirty s b" "holds_blk t b n = holds_blk s b n" for b n
    by (simp_all add: busy_def dirty_def holds_blk_def tb)
  have "disk_ready t" using 2 3 by (simp add: disk_ready_def t_def)
  moreover have "bufs_ok t" using 2(2) unfolding bufs_ok_def f tb .
  moreover have "lent t = {}" "clean t = {..<NBUF}" using 2(3,4) by (simp_all add: lent_def clean_def f)
  moreover have "view t = disk_blk (img s)"
  proof
    fix n
    have "\<not> dirty t b" if "b < NBUF" for b using 2(4) that by (auto simp: clean_def f)
    then show "view t n = disk_blk (img s) n" using view_disk [of t n] tb by simp
  qed
  ultimately show ?thesis using 2(1) 3(1) by (intro exI [of _ "(drvs s)(1 := d)"]) (simp add: bc_room_def bc_inv_def t_def)
qed

lemma disk_init_ok:
  assumes "length im < 2 ^ 64"
  shows "\<exists>s'. runs disk_init (fs0 im p) () s' \<and> bc_room 1023 s' \<and> img s' = im \<and> view s' = disk_blk im \<and>
    inodes s' = (\<lambda>_. inode0) \<and> files s' = (\<lambda>_. file0) \<and> fds s' = (\<lambda>_ _. None) \<and> held s' = {}"
proof -
  obtain s1 where 1: "runs devsw_init (fs0 im p) () s1" "held s1 = {}" "drvs s1 = (\<lambda>_. drv0)" "bufs s1 = (\<lambda>_. buf0)"
      "img s1 = im" "inodes s1 = (\<lambda>_. inode0)" "files s1 = (\<lambda>_. file0)" "fds s1 = (\<lambda>_ _. None)"
    using devsw_init_ok [of "fs0 im p"] by (auto simp: fs0_def)
  have "\<And>b. b_flags (bufs s1 b) = 0 \<and> length (b_data (bufs s1 b)) = BSIZE" using 1(4) by (simp add: buf0_def)
  from buffer_cache_init_ok [OF this] obtain s2 where
    2: "runs buffer_cache_init s1 () s2" "bc_ring (bc s2)" "bufs_ok s2" "lent s2 = {}" "clean s2 = {..<NBUF}"
      "held s2 = {}" "drvs s2 = (\<lambda>_. drv0)" "img s2 = im" "inodes s2 = (\<lambda>_. inode0)" "files s2 = (\<lambda>_. file0)"
      "fds s2 = (\<lambda>_ _. None)" using 1 by auto
  obtain d where 3: "runs memide_init s2 0 (s2\<lparr>drvs := d\<rparr>)" "bc_room 1023 (s2\<lparr>drvs := d\<rparr>)" "view (s2\<lparr>drvs := d\<rparr>) = disk_blk im"
    using memide_init_ok [OF 2(2-7)] assms 2(8) by auto
  have "runs disk_init (fs0 im p) () (s2\<lparr>drvs := d\<rparr>)"
    unfolding disk_init_def by (rule runs_mthenI [OF 1(1) runs_mthenI [OF 2(1) runs_mthenI [OF 3(1)]]]) (simp add: runs_mret)
  then show ?thesis using 2 3 by (intro exI [of _ "s2\<lparr>drvs := d\<rparr>"]) simp
qed

theorem cache_refines_array_witness:
  "\<exists>s s'. runs disk_init (fs0 (replicate 1024 7) p0) () s \<and>
     run_ops blk_peek blk_poke [Peek 1, Poke 1 (replicate 512 9), Peek 1, Peek 0] s =
       Ok ([replicate 512 7, replicate 512 9, replicate 512 7], s')"
proof -
  let ?ops = "[Peek 1, Poke 1 (replicate 512 9), Peek 1, Peek 0] :: u8 list bop list"
  obtain s where s: "runs disk_init (fs0 (replicate 1024 7) p0) () s" "bc_room 1023 s" "img s = replicate 1024 7"
      "view s = disk_blk (replicate 1024 7)"
    using disk_init_ok [of "replicate 1024 7" p0] by auto
  then have "bc_room (1022 + pokes ?ops) s" "ops_ok (in_img s) (\<lambda>d. length d = BSIZE) ?ops" by (simp_all add: in_img_def)
  from cache_refines_array [OF this] obtain s' where "run_ops blk_peek blk_poke ?ops s = Ok (fst (array_ops ?ops (view s)), s')"
    by blast
  moreover have "fst (array_ops ?ops (view s)) = [replicate 512 7, replicate 512 9, replicate 512 7]"
    using s(4) by (simp add: disk_blk_def get_bytes_def)
  ultimately show ?thesis using s(1) by metis
qed

theorem cache_exhausted_witness:
  "\<exists>s. bc_ring (bc s) \<and> clean s = {} \<and> buffer_cache_blk_read ROOT_DEV 5 s = Stop Kpanic"
proof -
  obtain s where s: "bc_room 1023 s" "held s = {}" using disk_init_ok [of "[]" p0] by auto
  let ?s = "s\<lparr>bufs := \<lambda>_. buf0\<lparr>b_flags := 4\<rparr>\<rparr>"
  have "bc_ring (bc ?s)" "clean ?s = {}" "\<forall>c < NBUF. \<not> holds_blk ?s c 5" "MBc \<notin> held ?s"
    using s by (auto simp: bc_room_def bc_inv_def clean_def dirty_def holds_blk_def buf0_def)
  then show ?thesis using cache_exhausted [of 1 5 ?s 0 ?s] by blast
qed

end
