(* ===== verification/Kstring.thy ===== *)
theory Kstring
  imports Kprelude "HOL-Library.While_Combinator"
begin

text \<open>
  The memory and string functions of \<^verbatim>\<open>common/string.c\<close>.  Functions that write work on a byte memory
  with 64-bit addresses, so that overlapping areas and alignment are those of the code; the
  comparison functions only read, and a pointer they follow is the function from the offset to the
  byte there.
\<close>

type_synonym bmem = "u64 \<Rightarrow> u8"
type_synonym cptr = "nat \<Rightarrow> u8"

section \<open>Filling and copying\<close>

definition st32 :: "bmem \<Rightarrow> u64 \<Rightarrow> u32 \<Rightarrow> bmem" where
  "st32 m p v =
     m(p := ucast v, p + 1 := ucast (drop_bit 8 v), p + 2 := ucast (drop_bit 16 v),
       p + 3 := ucast (drop_bit 24 v))"

definition st64 :: "bmem \<Rightarrow> u64 \<Rightarrow> u64 \<Rightarrow> bmem" where
  "st64 m p v = st32 (st32 m p (ucast v)) (p + 4) (ucast (drop_bit 32 v))"

lemma unat_sub_less: "b \<le> a \<Longrightarrow> 0 < b \<Longrightarrow> unat (a - b :: u64) < unat a"
  by (simp add: unat_sub word_le_nat_alt word_less_nat_alt)

function fill64 :: "bmem \<Rightarrow> u64 \<Rightarrow> u64 \<Rightarrow> u64 \<Rightarrow> bmem \<times> u64 \<times> u64" where
  "fill64 m cp c64 len = (if 8 \<le> len then fill64 (st64 m cp c64) (cp + 8) c64 (len - 8) else (m, cp, len))"
  by pat_completeness auto

termination
  by (relation "measure (\<lambda>(m, cp, c, len). unat len)") (auto intro: unat_sub_less)

function fill32 :: "bmem \<Rightarrow> u64 \<Rightarrow> u32 \<Rightarrow> u64 \<Rightarrow> bmem \<times> u64 \<times> u64" where
  "fill32 m cp c32 len = (if 4 \<le> len then fill32 (st32 m cp c32) (cp + 4) c32 (len - 4) else (m, cp, len))"
  by pat_completeness auto

termination
  by (relation "measure (\<lambda>(m, cp, c, len). unat len)") (auto intro: unat_sub_less)

function fill8 :: "bmem \<Rightarrow> u64 \<Rightarrow> u8 \<Rightarrow> u64 \<Rightarrow> bmem" where
  "fill8 m cp c8 len = (if 0 < len then fill8 (m(cp := c8)) (cp + 1) c8 (len - 1) else m)"
  by pat_completeness auto

termination
  by (relation "measure (\<lambda>(m, cp, c, len). unat len)") (auto intro: unat_sub_less simp: word_le_nat_alt word_less_nat_alt)

definition memset :: "bmem \<Rightarrow> u64 \<Rightarrow> u32 \<Rightarrow> u64 \<Rightarrow> bmem" where
  "memset m s c n =
     (let val = (ucast (c AND 0xff) :: u64);
          c32 = (ucast (((push_bit 24 val OR push_bit 16 val) OR push_bit 8 val) OR val) :: u32);
          c64 = (push_bit 32 (ucast c32) OR ucast c32 :: u64);
          (m, cp8, len) =
            (if s AND 7 = 0 \<and> 8 \<le> n then fill64 m s c64 n
             else if s AND 3 = 0 \<and> 4 \<le> n then fill32 m s c32 n
             else (m, s, n))
      in fill8 m cp8 (ucast (c AND 0xff)) len)"

text \<open>The copy loops test for the end after the first byte.\<close>

lemma copy_measure: "x \<noteq> 0 \<Longrightarrow> unat (x - 1 :: u64) < unat x"
  by (rule unat_sub_less) (simp_all add: word_le_nat_alt word_less_nat_alt unat_gt_0 Suc_leI)

lemma copy_up_measure: "s + 1 \<noteq> e \<Longrightarrow> unat (e - (2 + s) :: u64) < unat (e - (s + 1))"
  using copy_measure [of "e - s - 1"] by (simp add: diff_diff_eq algebra_simps)

lemma copy_down_measure: "s - 1 \<noteq> e \<Longrightarrow> unat (s - (2 + e) :: u64) < unat (s - (e + 1))"
  using copy_measure [of "s - e - 1"] by (simp add: diff_diff_eq algebra_simps)

function copy_up :: "bmem \<Rightarrow> u64 \<Rightarrow> u64 \<Rightarrow> u64 \<Rightarrow> bmem" where
  "copy_up m dstp srcp e =
     (let m = m(dstp := m srcp)
      in if srcp + 1 = e then m else copy_up m (dstp + 1) (srcp + 1) e)"
  by pat_completeness auto

termination
  by (relation "measure (\<lambda>(m, d, s, e). unat (e - s - 1))") (auto simp: diff_diff_eq intro: copy_up_measure)

function copy_down :: "bmem \<Rightarrow> u64 \<Rightarrow> u64 \<Rightarrow> u64 \<Rightarrow> bmem" where
  "copy_down m dstp srcp e =
     (let dstp = dstp - 1; srcp = srcp - 1; m = m(dstp := m srcp)
      in if srcp = e then m else copy_down m dstp srcp e)"
  by pat_completeness auto

termination
  by (relation "measure (\<lambda>(m, d, s, e). unat (s - e - 1))") (auto simp: diff_diff_eq intro: copy_down_measure)

definition memcpy :: "bmem \<Rightarrow> u64 \<Rightarrow> u64 \<Rightarrow> u64 \<Rightarrow> bmem" where
  "memcpy m dst src len = copy_up m dst src (src + len)"

definition memmove :: "bmem \<Rightarrow> u64 \<Rightarrow> u64 \<Rightarrow> u64 \<Rightarrow> bmem" where
  "memmove m dst src len =
     (if dst < src then copy_up m dst src (src + len) else copy_down m (dst + len) (src + len) src)"

section \<open>Reading\<close>

definition strlen :: "cptr \<Rightarrow> nat option" where
  "strlen str = while_option (\<lambda>len. str len \<noteq> 0) Suc 0"

text \<open>\<^verbatim>\<open>char\<close> is signed, and the difference is returned as an \<^verbatim>\<open>int\<close>.\<close>

definition strcmp :: "cptr \<Rightarrow> cptr \<Rightarrow> int option" where
  "strcmp s1 s2 =
     map_option (\<lambda>i. sint (s1 i) - sint (s2 i)) (while_option (\<lambda>i. s1 i \<noteq> 0 \<and> s1 i = s2 i) Suc 0)"

text \<open>Here the difference is stored in a \<^verbatim>\<open>signed char\<close>.\<close>

fun memcmp_loop :: "cptr \<Rightarrow> cptr \<Rightarrow> nat \<Rightarrow> nat \<Rightarrow> u8 \<Rightarrow> u8" where
  "memcmp_loop s1 s2 i 0 rc = rc"
| "memcmp_loop s1 s2 i (Suc n) rc =
     (let rc = s1 i - s2 i in if rc \<noteq> 0 then rc else memcmp_loop s1 s2 (Suc i) n rc)"

definition memcmp :: "cptr \<Rightarrow> cptr \<Rightarrow> nat \<Rightarrow> int" where
  "memcmp m1 m2 n = sint (memcmp_loop m1 m2 0 n 0)"

fun strncmp_loop :: "cptr \<Rightarrow> cptr \<Rightarrow> nat \<Rightarrow> nat \<Rightarrow> u8 \<Rightarrow> u8" where
  "strncmp_loop s1 s2 i n rc =
     (if s1 i = 0 then rc
      else (let rc = s1 i - s2 i
            in case n of 0 \<Rightarrow> rc
               | Suc n' \<Rightarrow> if rc \<noteq> 0 then rc else strncmp_loop s1 s2 (Suc i) n' rc))"

definition strncmp :: "cptr \<Rightarrow> cptr \<Rightarrow> nat \<Rightarrow> int" where
  "strncmp s1 s2 n = sint (strncmp_loop s1 s2 0 n 0)"

section \<open>Copying strings\<close>

partial_function (option) strcpy :: "bmem \<Rightarrow> u64 \<Rightarrow> u64 \<Rightarrow> bmem option" where
  "strcpy m dest src =
     (let m = m(dest := m src)
      in if m src = 0 then Some m else strcpy m (dest + 1) (src + 1))"

fun strncpy_loop :: "bmem \<Rightarrow> u64 \<Rightarrow> u64 \<Rightarrow> nat \<Rightarrow> bmem" where
  "strncpy_loop m dest src count =
     (let m = m(dest := m src)
      in case count of 0 \<Rightarrow> m
         | Suc c \<Rightarrow> if m src = 0 then m else strncpy_loop m (dest + 1) (src + 1) c)"

definition strncpy :: "bmem \<Rightarrow> u64 \<Rightarrow> u64 \<Rightarrow> u64 \<Rightarrow> bmem" where
  "strncpy m dest src count = (if count = 0 then m else strncpy_loop m dest src (unat count))"

declare fill64.simps [simp del] fill32.simps [simp del] fill8.simps [simp del] copy_up.simps [simp del]
  copy_down.simps [simp del] strncmp_loop.simps [simp del] strncpy_loop.simps [simp del]

section \<open>Filling\<close>

lemma word_less_split: "k \<le> len \<Longrightarrow> x < len \<longleftrightarrow> x < k \<or> x - k < (len - k :: u64)"
  by unat_arith

lemma fill8_spec: "fill8 m p c len = (\<lambda>a. if a - p < len then c else m a)"
proof (induction m p c len rule: fill8.induct)
  case (1 m p c len)
  show ?case
  proof (cases "0 < len")
    case True
    then have "1 \<le> len" by unat_arith
    then have "a - p < len \<longleftrightarrow> a = p \<or> a - (p + 1) < len - 1" for a
      using word_less_split [of 1 len "a - p"] word_less_1 by (simp add: diff_diff_eq)
    moreover have "fill8 m p c len = fill8 (m(p := c)) (p + 1) c (len - 1)"
      by (subst fill8.simps) (simp add: True)
    ultimately show ?thesis unfolding 1 [OF True] by (auto simp: fun_eq_iff)
  next
    case False
    then have "len = 0" by (simp add: word_gt_0)
    then show ?thesis by (subst fill8.simps) (simp add: fun_eq_iff)
  qed
qed

text \<open>A word whose bytes are all the same.\<close>

definition rep32 :: "u8 \<Rightarrow> u32 \<Rightarrow> bool" where
  "rep32 c v = (\<forall>k \<in> {0, 8, 16, 24}. (ucast (drop_bit k v) :: u8) = c)"

lemma less_cases:
  "(x :: u64) < 4 \<longleftrightarrow> x = 0 \<or> x = 1 \<or> x = 2 \<or> x = 3"
  "(x :: u64) < 8 \<longleftrightarrow> x < 4 \<or> x - 4 < 4"
  by unat_arith+

lemma st32_rep:
  assumes "rep32 c v"
  shows "st32 m p v = (\<lambda>a. if a - p < 4 then c else m a)"
proof
  fix a
  have "a - p = 0 \<longleftrightarrow> a = p" "a - p = 1 \<longleftrightarrow> a = p + 1" "a - p = 2 \<longleftrightarrow> a = p + 2" "a - p = 3 \<longleftrightarrow> a = p + 3"
    by (auto simp: algebra_simps)
  then show "st32 m p v a = (if a - p < 4 then c else m a)"
    using assms by (simp add: st32_def rep32_def less_cases)
qed

lemma st64_rep:
  assumes "rep32 c v" "w = push_bit 32 (ucast v) OR ucast v"
  shows "st64 m p w = (\<lambda>a. if a - p < 8 then c else m a)"
proof -
  have "ucast w = v" "ucast (drop_bit 32 w) = v"
    unfolding assms(2) using bit_imp_le_length [of v] by (force intro!: bit_word_eqI simp: bit_simps)+
  then show ?thesis
    using assms(1) by (simp add: st64_def st32_rep less_cases(2) [of "_ - p"] fun_eq_iff diff_diff_eq)
qed

lemma fill64_spec:
  assumes r: "rep32 c v" "w = push_bit 32 (ucast v) OR ucast v"
  shows "(case fill64 m p w len of (m', p', len') \<Rightarrow> fill8 m' p' c len') = fill8 m p c len"
  using r(2)
proof (induction m p w len rule: fill64.induct)
  case (1 m p w len)
  show ?case
  proof (cases "8 \<le> len")
    case True
    have "a - p < len \<longleftrightarrow> a - p < 8 \<or> a - (p + 8) < len - 8" for a
      using word_less_split [OF True, of "a - p"] by (simp add: diff_diff_eq)
    then have "fill8 (st64 m p w) (p + 8) c (len - 8) = fill8 m p c len"
      by (simp add: fill8_spec st64_rep [OF r(1) 1(2)] fun_eq_iff)
    moreover have "fill64 m p w len = fill64 (st64 m p w) (p + 8) w (len - 8)"
      by (subst fill64.simps) (simp add: True)
    ultimately show ?thesis using 1(1) [OF True 1(2)] by simp
  next
    case False
    then show ?thesis by (subst fill64.simps) simp
  qed
qed

lemma fill32_spec:
  assumes r: "rep32 c v"
  shows "(case fill32 m p v len of (m', p', len') \<Rightarrow> fill8 m' p' c len') = fill8 m p c len"
  using r
proof (induction m p v len rule: fill32.induct)
  case (1 m p v len)
  show ?case
  proof (cases "4 \<le> len")
    case True
    have "a - p < len \<longleftrightarrow> a - p < 4 \<or> a - (p + 4) < len - 4" for a
      using word_less_split [OF True, of "a - p"] by (simp add: diff_diff_eq)
    then have "fill8 (st32 m p v) (p + 4) c (len - 4) = fill8 m p c len"
      by (simp add: fill8_spec st32_rep [OF 1(2)] fun_eq_iff)
    moreover have "fill32 m p v len = fill32 (st32 m p v) (p + 4) v (len - 4)"
      by (subst fill32.simps) (simp add: True)
    ultimately show ?thesis using 1(1) [OF True 1(2)] by simp
  next
    case False
    then show ?thesis by (subst fill32.simps) simp
  qed
qed

lemma memset_rep:
  fixes c :: u32
  shows "rep32 (ucast (c AND 0xff))
    (ucast (((push_bit 24 (ucast (c AND 0xff) :: u64) OR push_bit 16 (ucast (c AND 0xff))) OR
       push_bit 8 (ucast (c AND 0xff))) OR ucast (c AND 0xff)))"
proof -
  have ff: "(0xff :: u32) = mask 8" by (simp add: mask_eq_exp_minus_1)
  show ?thesis unfolding rep32_def ff
    by (auto intro!: bit_word_eqI simp: bit_simps)
qed

text \<open>
  C36: \<^verbatim>\<open>memset\<close>, which fills by 8 or 4 bytes at a time when the area is aligned, stores the low byte
  of its argument in exactly the \<open>n\<close> bytes from \<open>s\<close> on, for every address, value and length.
\<close>

theorem memset_correct:
  "memset m s c n = (\<lambda>a. if a - s < n then ucast (c AND 0xff) else m a)"
proof -
  note R = memset_rep [of c]
  show ?thesis
    using fill64_spec [OF R refl, of m s n] fill32_spec [OF R, of m s n]
    by (simp add: memset_def Let_def fill8_spec [of m s _ n] cong: if_cong)
qed

section \<open>Copying\<close>

text \<open>Copying \<open>n\<close> bytes upwards or downwards one after the other.\<close>

fun up :: "bmem \<Rightarrow> u64 \<Rightarrow> u64 \<Rightarrow> nat \<Rightarrow> bmem" where
  "up m d s 0 = m"
| "up m d s (Suc n) = up (m(d := m s)) (d + 1) (s + 1) n"

fun down :: "bmem \<Rightarrow> u64 \<Rightarrow> u64 \<Rightarrow> nat \<Rightarrow> bmem" where
  "down m d s 0 = m"
| "down m d s (Suc n) = down (m(d - 1 := m (s - 1))) (d - 1) (s - 1) n"

lemma of_nat_u64_0: "n < 2 ^ 64 \<Longrightarrow> (of_nat n :: u64) = 0 \<longleftrightarrow> n = 0"
  by (auto simp: word_unat_eq_iff unat_of_nat)

lemma copy_up_eq:
  "0 < n \<Longrightarrow> n < 2 ^ 64 \<Longrightarrow> copy_up m d s (s + of_nat n) = up m d s n"
proof (induction n arbitrary: m d s)
  case (Suc n)
  have "(of_nat n :: u64) = 0 \<longleftrightarrow> n = 0" using Suc.prems by (intro of_nat_u64_0) simp
  moreover have "copy_up (m(d := m s)) (d + 1) (s + 1) (s + 1 + of_nat n) = up (m(d := m s)) (d + 1) (s + 1) n"
    if "0 < n" using Suc that by auto
  ultimately show ?case by (subst copy_up.simps) (auto simp: Let_def add.assoc)
qed simp

lemma copy_down_eq:
  "0 < n \<Longrightarrow> n < 2 ^ 64 \<Longrightarrow> copy_down m (d + of_nat n) (s + of_nat n) s = down m (d + of_nat n) (s + of_nat n) n"
proof (induction n arbitrary: m)
  case (Suc n)
  have "(of_nat n :: u64) = 0 \<longleftrightarrow> n = 0" using Suc.prems by (intro of_nat_u64_0) simp
  moreover have "copy_down m' (d + of_nat n) (s + of_nat n) s = down m' (d + of_nat n) (s + of_nat n) n"
    if "0 < n" for m' using Suc that by auto
  ultimately show ?case by (subst copy_down.simps) (auto simp: Let_def add.commute [of 1] add.assoc [symmetric])
qed simp

text \<open>No byte is overwritten before it is read.\<close>

lemma up_spec:
  assumes "n < 2 ^ 64" "\<And>i j. i < j \<Longrightarrow> j < n \<Longrightarrow> d + of_nat i \<noteq> s + of_nat j"
  shows "up m d s n = (\<lambda>a. if unat (a - d) < n then m (s + (a - d)) else m a)"
  using assms
proof (induction n arbitrary: m d s)
  case (Suc n)
  have h: "d + 1 + of_nat i \<noteq> s + 1 + of_nat j" if "i < j" "j < n" for i j
    using Suc.prems(2) [of "Suc i" "Suc j"] that by (simp add: algebra_simps)
  have IH: "up (m(d := m s)) (d + 1) (s + 1) n =
      (\<lambda>a. if unat (a - (d + 1)) < n then (m(d := m s)) (s + 1 + (a - (d + 1))) else (m(d := m s)) a)"
    using Suc.prems(1) h by (intro Suc.IH) auto
  show ?case
  proof
    fix a
    have x: "unat (a - (d + 1)) = (if a = d then 2 ^ 64 - 1 else unat (a - d) - 1)"
    proof (cases "a = d")
      case False
      then have "1 \<le> a - d" by (simp add: word_le_nat_alt Suc_le_eq unat_gt_0)
      then show ?thesis using False by (simp add: diff_diff_eq [symmetric] unat_sub)
    qed (simp add: unsigned_minus_1_eq_mask mask_eq_exp_minus_1)
    have r: "d \<noteq> s + 1 + (a - (d + 1))" if "a \<noteq> d" "unat (a - d) - 1 < n"
    proof -
      have "unat (a - d) < Suc n" "0 < unat (a - d)" using that by (auto simp: unat_gt_0)
      then have "d + of_nat 0 \<noteq> s + of_nat (unat (a - d))" using Suc.prems(2) [of 0 "unat (a - d)"] by simp
      then show ?thesis by simp
    qed
    show "up m d s (Suc n) a = (if unat (a - d) < Suc n then m (s + (a - d)) else m a)"
    proof (cases "a = d")
      case True
      then show ?thesis using Suc.prems(1) x by (simp add: IH)
    next
      case False
      then have "unat (a - d) \<noteq> 0" by (simp add: unat_eq_0)
      then have "unat (a - d) - 1 < n \<longleftrightarrow> unat (a - d) < Suc n" by auto
      then show ?thesis using False r by (auto simp: IH x)
    qed
  qed
qed simp

lemma down_spec:
  assumes "n < 2 ^ 64" "\<And>i j. i < j \<Longrightarrow> j < n \<Longrightarrow> d + of_nat j \<noteq> s + of_nat i"
  shows "down m (d + of_nat n) (s + of_nat n) n = (\<lambda>a. if unat (a - d) < n then m (s + (a - d)) else m a)"
  using assms
proof (induction n arbitrary: m)
  case (Suc n)
  let ?m = "m(d + of_nat n := m (s + of_nat n))"
  have IH: "down ?m (d + of_nat n) (s + of_nat n) n = (\<lambda>a. if unat (a - d) < n then ?m (s + (a - d)) else ?m a)"
    using Suc.prems by (intro Suc.IH) auto
  have n: "unat (of_nat n :: u64) = n" using Suc.prems(1) by (simp add: unat_of_nat)
  show ?case
  proof
    fix a
    have "a = d + of_nat n \<longleftrightarrow> a - d = of_nat n" by (auto simp: algebra_simps)
    then have eq: "a = d + of_nat n \<longleftrightarrow> unat (a - d) = n" using n by (simp add: word_unat_eq_iff)
    have r: "s + (a - d) \<noteq> d + of_nat n" if "unat (a - d) < n"
      using Suc.prems(2) [OF that] by fastforce
    show "down m (d + of_nat (Suc n)) (s + of_nat (Suc n)) (Suc n) a =
        (if unat (a - d) < Suc n then m (s + (a - d)) else m a)"
      using IH r eq by (auto simp: add.commute [of 1] add.assoc [symmetric] less_Suc_eq)
  qed
qed simp

text \<open>
  C37: \<^verbatim>\<open>memmove\<close> of a non-empty area copies it correctly whether or not the areas overlap, and
  changes nothing else, provided neither area wraps around the end of the address space.
\<close>

theorem memmove_correct:
  assumes len: "0 < len" and src: "unat src + unat len \<le> 2 ^ 64" and dst: "unat dst + unat len \<le> 2 ^ 64"
  shows "memmove m dst src len = (\<lambda>a. if a - dst < len then m (src + (a - dst)) else m a)"
proof -
  let ?n = "unat len"
  have n: "0 < ?n" "?n < 2 ^ 64" "(of_nat ?n :: u64) = len" using len unsigned_less [of len] by (auto simp: unat_gt_0 word_gt_0)
  have u: "unat (p + of_nat i) = unat p + i" if "unat p + ?n \<le> 2 ^ 64" "i < ?n" for p :: u64 and i
    using that n by (simp add: unat_word_ariths unat_of_nat)
  show ?thesis
  proof (cases "dst < src")
    case True
    have "dst + of_nat i \<noteq> src + of_nat j" if "i < j" "j < ?n" for i j
      using that u [OF dst, of i] u [OF src, of j] True by (auto simp: word_less_nat_alt dest: arg_cong [of _ _ unat])
    from up_spec [OF n(2) this] show ?thesis
      using True copy_up_eq [OF n(1,2), of m dst src] n(3) by (simp add: memmove_def word_less_nat_alt)
  next
    case False
    have "dst + of_nat j \<noteq> src + of_nat i" if "i < j" "j < ?n" for i j
      using that u [OF dst, of j] u [OF src, of i] False by (auto simp: word_less_nat_alt dest: arg_cong [of _ _ unat])
    from down_spec [OF n(2) this] show ?thesis
      using False copy_down_eq [OF n(1,2), of m dst src] n(3) by (simp add: memmove_def word_less_nat_alt)
  qed
qed

theorem memmove_witness:
  "memmove (\<lambda>a. ucast a) 0x101 0x100 4 0x103 = 0x02"
  using memmove_correct [of 4 "0x100" "0x101" "\<lambda>a. ucast a"] by simp

section \<open>Comparing\<close>

lemma sint_0_iff: "sint (x :: u8) = 0 \<longleftrightarrow> x = 0"
  by (metis signed_0 signed_word_eqI)

lemma memcmp_loop_0:
  "memcmp_loop s1 s2 i n 0 = 0 \<longleftrightarrow> (\<forall>k < n. s1 (i + k) = s2 (i + k))"
  by (induction n arbitrary: i) (auto simp: Let_def All_less_Suc2)

lemma strncmp_loop_0:
  "strncmp_loop s1 s2 i n 0 = 0 \<longleftrightarrow>
     (\<exists>k \<le> Suc n. (\<forall>j < k. s1 (i + j) = s2 (i + j)) \<and> (k = Suc n \<or> s1 (i + k) = 0))"
proof (induction n arbitrary: i)
  case 0
  have "(\<exists>k \<le> Suc 0. Q k) \<longleftrightarrow> Q 0 \<or> Q (Suc 0)" for Q by (auto simp: le_Suc_eq)
  then show ?case by (subst strncmp_loop.simps) (auto simp: Let_def)
next
  case (Suc n)
  have ex: "(\<exists>k \<le> Suc N. Q k) \<longleftrightarrow> Q 0 \<or> (\<exists>k \<le> N. Q (Suc k))" for Q and N :: nat
    by (metis Suc_le_mono le0 not0_implies_Suc)
  show ?case
    using Suc.IH [of "Suc i"] by (subst strncmp_loop.simps, subst ex) (auto simp: Let_def All_less_Suc2)
qed



end
