(* ===== verification/Kfsformat.thy ===== *)
theory Kfsformat
  imports Kfsstate Kstring "HOL-Library.Signed_Division"
begin

text \<open>
  The structures of the file system on disk (\<^verbatim>\<open>include/kern/fs.h\<close>): the superblock, the disk inode of 168
  bytes (three to a block), and the directory entry of 64 bytes, as the compiler lays them out on the
  64-bit machines.
\<close>

section \<open>Signed arithmetic and strings\<close>

definition sdivw :: "u64 \<Rightarrow> int \<Rightarrow> u64" where
  "sdivw a b = word_of_int (sint a sdiv b)"

definition smodw :: "u64 \<Rightarrow> int \<Rightarrow> u64" where
  "smodw a b = word_of_int (sint a smod b)"

text \<open>A list of bytes as the memory a \<^verbatim>\<open>char *\<close> points to, ended by a null byte.\<close>

definition cstr :: "u8 list \<Rightarrow> cptr" where
  "cstr l = (\<lambda>i. if i < length l then l ! i else 0)"

section \<open>Superblock\<close>

record superblock =
  s_max_size :: u32
  s_ninodes :: u32
  s_imap_blocks :: u32
  s_bmap_blocks :: u32
  s_firstdata_block :: u32
  s_nblocks :: u32
  s_magic :: u32
  s_pad :: u32

definition get_superblock :: "u8 list \<Rightarrow> superblock" where
  "get_superblock d = \<lparr>s_max_size = get32 d 0, s_ninodes = get32 d 4, s_imap_blocks = get32 d 8, s_bmap_blocks = get32 d 12,
     s_firstdata_block = get32 d 16, s_nblocks = get32 d 20, s_magic = get32 d 24, s_pad = get32 d 28\<rparr>"

definition put_superblock :: "u8 list \<Rightarrow> superblock \<Rightarrow> u8 list" where
  "put_superblock d sb =
     put32 (put32 (put32 (put32 (put32 (put32 (put32 (put32 d 0 (s_max_size sb)) 4 (s_ninodes sb)) 8 (s_imap_blocks sb))
       12 (s_bmap_blocks sb)) 16 (s_firstdata_block sb)) 20 (s_nblocks sb)) 24 (s_magic sb)) 28 (s_pad sb)"

section \<open>Disk inode\<close>

abbreviation (input) FS_IADDR_NR :: nat where "FS_IADDR_NR \<equiv> 16"
abbreviation (input) FS_IADDR_DIRECT_NR :: nat where "FS_IADDR_DIRECT_NR \<equiv> 12"
abbreviation (input) FS_IADDR_IN_DIRECT_MIN :: nat where "FS_IADDR_IN_DIRECT_MIN \<equiv> 12"
abbreviation (input) FS_IADDR_IN_DIRECT_NR :: nat where "FS_IADDR_IN_DIRECT_NR \<equiv> 3"
abbreviation (input) IADDRS_PER_BLOCK :: nat where "IADDRS_PER_BLOCK \<equiv> 64"
abbreviation (input) DINODE_SIZE :: nat where "DINODE_SIZE \<equiv> 168"

text \<open>The assignments of \<^verbatim>\<open>inode_update\<close> to the disk inode at byte \<open>k\<close> of a block.\<close>

definition put_dinode :: "u8 list \<Rightarrow> nat \<Rightarrow> inode \<Rightarrow> u8 list" where
  "put_dinode d k ip =
     (let d = put32 d k (i_mode ip);
          d = put64 d (k + 8) (i_dev ip);
          d = put64 d (k + 16) (i_rdev ip);
          d = put64 d (k + 24) (i_nlink ip);
          d = put64 d (k + 32) (i_size ip)
      in fold (\<lambda>i d. put64 d (k + 40 + i * 8) (i_addr ip ! i)) [0..<FS_IADDR_NR] d)"

text \<open>The assignments of \<^verbatim>\<open>inode_lock\<close>; the device is not read.\<close>

definition load_dinode :: "u8 list \<Rightarrow> nat \<Rightarrow> inode \<Rightarrow> inode" where
  "load_dinode d k ip = ip\<lparr>i_mode := get32 d k, i_rdev := get64 d (k + 16), i_nlink := get64 d (k + 24),
     i_size := get64 d (k + 32), i_addr := map (\<lambda>i. get64 d (k + 40 + i * 8)) [0..<FS_IADDR_NR]\<rparr>"

section \<open>Directory entry\<close>

abbreviation (input) FNAME_MAX :: nat where "FNAME_MAX \<equiv> 59"
abbreviation (input) DIRENT_SIZE :: nat where "DIRENT_SIZE \<equiv> 64"

definition d_ino :: "u8 list \<Rightarrow> u32" where
  "d_ino de = get32 de 0"

definition d_name :: "u8 list \<Rightarrow> u8 list" where
  "d_name de = get_bytes 60 de 4"

text \<open>
  \<^verbatim>\<open>strncpy(de.d_name, name, FNAME_MAX)\<close> run on a memory that holds the entry at address 0 and the
  name at address 64.
\<close>

definition set_d_name :: "u8 list \<Rightarrow> u8 list \<Rightarrow> u8 list" where
  "set_d_name de name =
     (let m = strncpy (\<lambda>a. if unat a < DIRENT_SIZE then de ! unat a else cstr name (unat a - DIRENT_SIZE)) 4 64 59
      in map (\<lambda>i. m (of_nat i)) [0..<DIRENT_SIZE])"

definition set_d_ino :: "u8 list \<Rightarrow> u32 \<Rightarrow> u8 list" where
  "set_d_ino de ino = put32 de 0 ino"

section \<open>Round trips\<close>

lemma put_superblock_get:
  assumes "32 \<le> length d"
  shows "get_superblock (put_superblock d sb) = sb" "length (put_superblock d sb) = length d"
  using assms by (simp_all add: get_superblock_def put_superblock_def f32.get_put f32.get_put_other f32.length_put)

lemma put32_frame64:
  assumes "j + 4 \<le> length d" "k + 8 \<le> length d" "k + 8 \<le> j \<or> j + 4 \<le> k"
  shows "get64 (put32 d j v) k = get64 d k"
  by (rule f64.get_frame [where a = j and n = 4]) (use assms f32.length_put f32.nth_put in auto)

lemma put64_frame32:
  assumes "j + 8 \<le> length d" "k + 4 \<le> length d" "k + 4 \<le> j \<or> j + 8 \<le> k"
  shows "get32 (put64 d j v) k = get32 d k"
  by (rule f32.get_frame [where a = j and n = 8]) (use assms f64.length_put f64.nth_put in auto)

lemma dinode_rt:
  assumes k: "k + DINODE_SIZE \<le> length d" and a: "length (i_addr ip) = FS_IADDR_NR"
  shows "load_dinode (put_dinode d k ip) k (old\<lparr>inum := inum ip, iref := iref ip, iflags := iflags ip, i_dev := i_dev ip\<rparr>) = ip \<and>
    length (put_dinode d k ip) = length d \<and>
    (\<forall>i < length d. i < k \<or> k + DINODE_SIZE \<le> i \<longrightarrow> put_dinode d k ip ! i = d ! i)"
proof -
  define e where "e = put64 (put64 (put64 (put64 (put32 d k (i_mode ip)) (k + 8) (i_dev ip)) (k + 16) (i_rdev ip))
    (k + 24) (i_nlink ip)) (k + 32) (i_size ip)"
  note L = f32.length_put f64.length_put and G = f64.get_put f64.get_put_other f32.get_put put64_frame32 put32_frame64
  have el: "length e = length d" using k by (simp add: e_def L)
  have eg: "get32 e k = i_mode ip" "get64 e (k + 8) = i_dev ip" "get64 e (k + 16) = i_rdev ip" "get64 e (k + 24) = i_nlink ip"
    "get64 e (k + 32) = i_size ip" using k by (simp_all add: e_def L G)
  have en: "e ! i = d ! i" if "i < length d" "i < k \<or> k + 40 \<le> i" for i
    using that k by (auto simp: e_def L f64.nth_put f32.nth_put)
  define f where "f = fold (\<lambda>i d. put64 d (k + 40 + i * 8) (i_addr ip ! i)) [0..<16] e"
  have pf: "put_dinode d k ip = f" by (simp add: put_dinode_def e_def f_def Let_def)
  have b: "k + 40 + 16 * 8 \<le> length e" using k el by simp
  note A = f64.put_array [OF a b, folded f_def, simplified]
  have fg: "get32 f k = get32 e k" by (rule f32.get_frame [where a = "k + 40" and n = 128]) (use A b in auto)
  have fh: "get64 f j = get64 e j" if "j + 8 \<le> k + 40" for j
    by (rule f64.get_frame [where a = "k + 40" and n = 128]) (use A b that in auto)
  have "map (\<lambda>i. get64 f (k + 40 + i * 8)) [0..<16] = i_addr ip" using A(2) by simp
  then have "load_dinode f k (old\<lparr>inum := inum ip, iref := iref ip, iflags := iflags ip, i_dev := i_dev ip\<rparr>) = ip"
    using fg fh eg by (simp add: load_dinode_def)
  moreover have "f ! i = d ! i" if "i < length d" "i < k \<or> k + 168 \<le> i" for i
    using A(3) [of i] en [of i] that el by auto
  ultimately show ?thesis using A(1) el by (simp add: pf)
qed

text \<open>
  C23: An inode written to its place in a block by \<^verbatim>\<open>inode_update\<close> and loaded again as
  \<^verbatim>\<open>inode_lock\<close> does it is the inode that was written, whatever the block and the copy in memory
  held before; the other bytes of the block are not touched.
\<close>

theorem dinode_roundtrip:
  assumes k: "k + DINODE_SIZE \<le> length d" and a: "length (i_addr ip) = FS_IADDR_NR"
  shows "load_dinode (put_dinode d k ip) k (old\<lparr>inum := inum ip, iref := iref ip, iflags := iflags ip, i_dev := i_dev ip\<rparr>) = ip \<and>
    length (put_dinode d k ip) = length d \<and>
    (\<forall>i < length d. i < k \<or> k + DINODE_SIZE \<le> i \<longrightarrow> put_dinode d k ip ! i = d ! i)"
  by (rule dinode_rt [OF assms])

theorem dinode_roundtrip_witness:
  "load_dinode (put_dinode (replicate 512 0) 168 (inode0\<lparr>i_mode := 2, i_size := 64\<rparr>)) 168 inode0 = inode0\<lparr>i_mode := 2, i_size := 64\<rparr>"
  using dinode_roundtrip [of 168 "replicate 512 0" "inode0\<lparr>i_mode := 2, i_size := 64\<rparr>" inode0] by (simp add: inode0_def)

end
