(* ===== verification/Kinode.thy ===== *)
theory Kinode
  imports Kblkio Kfsformat
begin

text \<open>
  Inodes, directories and paths (\<^verbatim>\<open>fs/inode.c\<close>): the bitmaps of free inodes and blocks, the inode
  cache with its reference counts and locks, the map from file offsets to blocks, reading and writing
  through it, directory entries, and the walk along a path.
\<close>

abbreviation (input) NINODE :: nat where "NINODE \<equiv> 1024"
abbreviation (input) BITS_PER_BLOCK :: nat where "BITS_PER_BLOCK \<equiv> 4096"
abbreviation (input) FS_IMODE_DIR :: u32 where "FS_IMODE_DIR \<equiv> 1"
abbreviation (input) FS_IMODE_FILE :: u32 where "FS_IMODE_FILE \<equiv> 2"
abbreviation (input) FS_IMODE_DEV :: u32 where "FS_IMODE_DEV \<equiv> 3"
abbreviation (input) FS_MAXFILE_SIZE :: u64 where "FS_MAXFILE_SIZE \<equiv> 10432"
abbreviation (input) ROOT_DENT_INO :: u32 where "ROOT_DENT_INO \<equiv> 2"
abbreviation (input) I_BUSY :: u32 where "I_BUSY \<equiv> 1"
abbreviation (input) I_VALID :: u32 where "I_VALID \<equiv> 2"

section \<open>Superblock and bitmaps\<close>

definition read_superblock :: "u64 \<Rightarrow> superblock fsm" where
  "read_superblock dev =
     mbind (buffer_cache_blk_read dev 1) (\<lambda>b.
     mbind (get_buf b) (\<lambda>bp.
     mthen (buffer_cache_blk_release b) (mret (get_superblock (b_data bp)))))"

text \<open>
  The data of a buffer as an array of 64-bit words.  The bitmaps divide a bit number by 8 and use the
  result as the index of such a word, so the access leaves the block when the bit number is 512 or more.
\<close>

definition buf_get64 :: "nat \<Rightarrow> u64 \<Rightarrow> u64 fsm" where
  "buf_get64 b chunk_index =
     mbind (get_buf b) (\<lambda>bp.
     mthen (mguard (unat chunk_index * 8 + 8 \<le> length (b_data bp)))
     (mret (get64 (b_data bp) (unat chunk_index * 8))))"

definition buf_put64 :: "nat \<Rightarrow> u64 \<Rightarrow> u64 \<Rightarrow> unit fsm" where
  "buf_put64 b chunk_index val = upd_buf b (\<lambda>bp. bp\<lparr>b_data := put64 (b_data bp) (unat chunk_index * 8) val\<rparr>)"

definition get_free_inode :: "u64 \<Rightarrow> u32 option fsm" where
  "get_free_inode dev =
     mbind (read_superblock dev) (\<lambda>sb.
     mfor [0..<unat (s_ninodes sb)] (\<lambda>i.
       let blk = 2 + of_nat (i div BITS_PER_BLOCK) in
       mbind (buffer_cache_blk_read dev blk) (\<lambda>b.
       let offs = of_nat (i mod BITS_PER_BLOCK); chunk_index = offs div 8; chunk_offset = unat (offs mod 8) in
       mbind (buf_get64 b chunk_index) (\<lambda>val.
         if val AND push_bit chunk_offset 1 = 0 then
           mthen (buf_put64 b chunk_index (val OR push_bit chunk_offset 1))
           (mthen (buffer_cache_blk_write b)
           (mthen (buffer_cache_blk_release b) (mret (Some (of_nat i)))))
         else mthen (buffer_cache_blk_release b) (mret None)))))"

definition find_free_data_block :: "u64 \<Rightarrow> nat option fsm" where
  "find_free_data_block dev =
     mbind (read_superblock dev) (\<lambda>sb.
     mfor [0..<unat (s_nblocks sb)] (\<lambda>i.
       let bitmap_blk = ucast (1 + 1 + s_imap_blocks sb) + of_nat (i div BITS_PER_BLOCK) in
       mbind (buffer_cache_blk_read dev bitmap_blk) (\<lambda>b.
       let offs = of_nat (i mod BITS_PER_BLOCK); chunk_index = offs div 8; chunk_offset = unat (offs mod 8) in
       mbind (buf_get64 b chunk_index) (\<lambda>val.
         if val AND push_bit chunk_offset 1 = 0 then
           mthen (buf_put64 b chunk_index (val OR push_bit chunk_offset 1))
           (mthen (buffer_cache_blk_write b)
           (mthen (buffer_cache_blk_release b)
           (mbind (buffer_cache_blk_read dev (ucast (s_firstdata_block sb) + of_nat i)) (\<lambda>db.
            mthen (upd_buf db (\<lambda>bp. bp\<lparr>b_data := replicate BSIZE 0\<rparr>))
            (mret (Some db))))))
         else mthen (buffer_cache_blk_release b) (mret None)))))"

definition release_data_block :: "u64 \<Rightarrow> u64 \<Rightarrow> int fsm" where
  "release_data_block dev blk =
     mbind (read_superblock dev) (\<lambda>sb.
     let bitmap_blk = ucast (1 + 1 + s_imap_blocks sb) + sdivw blk 4096 in
     mbind (buffer_cache_blk_read dev bitmap_blk) (\<lambda>b.
     let offs = smodw blk 4096; chunk_index = offs div 8; chunk_offset = unat (offs mod 8) in
     mbind (buf_get64 b chunk_index) (\<lambda>val.
     mthen (massert (val AND push_bit chunk_offset 1 \<noteq> 0))
     (mthen (buf_put64 b chunk_index (val AND NOT (push_bit chunk_offset 1)))
     (mthen (buffer_cache_blk_write b)
     (mthen (buffer_cache_blk_release b) (mret 0)))))))"

section \<open>Inodes on disk\<close>

text \<open>The pointer to the disk inode is the byte at which it starts in the buffer.\<close>

definition read_disk_inode :: "u64 \<Rightarrow> u32 \<Rightarrow> (nat \<times> nat) fsm" where
  "read_disk_inode dev ino =
     mbind (read_superblock dev) (\<lambda>sb.
     let blk = ucast (1 + 1 + s_imap_blocks sb + s_bmap_blocks sb) + ucast (ino div 3);
         idx = unat (ino mod 3) in
     mbind (buffer_cache_blk_read dev blk) (\<lambda>b. mret (idx * DINODE_SIZE, b)))"

definition inode_update :: "nat \<Rightarrow> unit fsm" where
  "inode_update ip =
     mbind (get_inode ip) (\<lambda>i.
     mbind (read_disk_inode (i_dev i) (inum i)) (\<lambda>(dip, bp).
     mthen (upd_buf bp (\<lambda>b. b\<lparr>b_data := put_dinode (b_data b) dip i\<rparr>))
     (mthen (buffer_cache_blk_write bp)
     (buffer_cache_blk_release bp))))"

text \<open>The search of \<^verbatim>\<open>inode_get\<close>: a slot that is in use for the inode, or the first free slot.\<close>

fun inode_scan :: "fsst \<Rightarrow> u64 \<Rightarrow> u32 \<Rightarrow> nat list \<Rightarrow> nat option \<Rightarrow> nat + nat option" where
  "inode_scan s dev num [] free = Inr free"
| "inode_scan s dev num (i # is) free =
     (let ip = inodes s i in
      if 0 < iref ip \<and> i_dev ip = dev \<and> inum ip = num then Inl i
      else inode_scan s dev num is (if free = None \<and> iref ip = 0 then Some i else free))"

definition inode_get :: "u64 \<Rightarrow> u32 \<Rightarrow> nat fsm" where
  "inode_get dev num =
     mthen (fhold MIc)
     (mbind (mget (\<lambda>s. inode_scan s dev num [0..<NINODE] None)) (\<lambda>r.
        case r of
          Inl ip \<Rightarrow> mthen (upd_inode ip (\<lambda>i. i\<lparr>iref := iref i + 1\<rparr>)) (mthen (frelease MIc) (mret ip))
        | Inr None \<Rightarrow> mstop Kassert
        | Inr (Some ip) \<Rightarrow>
            mthen (upd_inode ip (\<lambda>i. i\<lparr>i_dev := dev, inum := num, iref := 1, iflags := 0\<rparr>))
            (mthen (frelease MIc) (mret ip))))"

section \<open>From offsets to blocks\<close>

text \<open>
  The result parameter is passed in and returned.  Where the code indexes the address array or the
  index block outside their bounds the run ends with a fault.
\<close>

definition bmap :: "nat \<Rightarrow> u64 \<Rightarrow> u64 \<Rightarrow> u64 fsm" where
  "bmap ip addr blkp =
     mbind (get_inode ip) (\<lambda>i.
     if sint addr < 12 then
       mthen (mguard (0 \<le> sint addr))
       (let blk = i_addr i ! unat addr in
        if blk = 0 then
          mbind (find_free_data_block (i_dev i)) (\<lambda>r. case r of None \<Rightarrow> mstop Kassert | Some bp \<Rightarrow>
          mbind (get_buf bp) (\<lambda>b.
          mthen (upd_inode ip (\<lambda>i. i\<lparr>i_addr := (i_addr i)[unat addr := b_blockno b]\<rparr>))
          (mthen (buffer_cache_blk_release bp) (mret (b_blockno b)))))
        else mret blk)
     else (let addr = addr - 12 in
       if addr < 192 then
         let blk = i_addr i ! (unat (addr div 64) + FS_IADDR_IN_DIRECT_MIN) in
         mbind (if blk = 0 then
             mbind (find_free_data_block (i_dev i)) (\<lambda>r. case r of None \<Rightarrow> mstop Kassert | Some nbp \<Rightarrow>
             mbind (get_buf nbp) (\<lambda>b.
             mthen (mguard (unat addr < FS_IADDR_NR))
             (mthen (upd_inode ip (\<lambda>i. i\<lparr>i_addr := (i_addr i)[unat addr := b_blockno b]\<rparr>))
             (mthen (buffer_cache_blk_release nbp) (mret (b_blockno b))))))
           else mret blk) (\<lambda>blk.
         mbind (buffer_cache_blk_read (i_dev i) blk) (\<lambda>bp.
         mbind (buf_get64 bp addr) (\<lambda>v.
         mbind (if v = 0 then
             mbind (find_free_data_block (i_dev i)) (\<lambda>r. case r of None \<Rightarrow> mstop Kassert | Some nbp \<Rightarrow>
             mbind (get_buf nbp) (\<lambda>b.
             mthen (buf_put64 bp addr (b_blockno b))
             (mthen (buffer_cache_blk_release nbp) (mret (b_blockno b)))))
           else mret v) (\<lambda>res.
         mthen (buffer_cache_blk_release bp) (mret res)))))
       else mret blkp))"

definition inode_truncate :: "nat \<Rightarrow> unit fsm" where
  "inode_truncate ip =
     mthen (mfor_each [0..<FS_IADDR_DIRECT_NR] (\<lambda>i.
       mbind (get_inode ip) (\<lambda>p.
       mwhen (i_addr p ! i \<noteq> 0)
         (mthen (release_data_block (i_dev p) (i_addr p ! i))
         (upd_inode ip (\<lambda>p. p\<lparr>i_addr := (i_addr p)[i := 0]\<rparr>))))))
     (mthen (mfor_each [0..<FS_IADDR_IN_DIRECT_NR] (\<lambda>i.
       mbind (get_inode ip) (\<lambda>p.
       let blk = i_addr p ! (FS_IADDR_IN_DIRECT_MIN + i) in
       mthen (mwhen (blk \<noteq> 0)
         (mbind (buffer_cache_blk_read (i_dev p) blk) (\<lambda>bp.
          mthen (mfor_each [0..<IADDRS_PER_BLOCK] (\<lambda>j.
            mbind (get_buf bp) (\<lambda>b.
            mwhen (get64 (b_data b) (j * 8) \<noteq> 0)
              (mthen (release_data_block (i_dev p) (get64 (b_data b) (j * 8)))
              (upd_buf bp (\<lambda>b. b\<lparr>b_data := put64 (b_data b) (j * 8) 0\<rparr>))))))
          (buffer_cache_blk_release bp))))
       (mthen (release_data_block (i_dev p) blk)
       (upd_inode ip (\<lambda>p. p\<lparr>i_addr := (i_addr p)[FS_IADDR_IN_DIRECT_MIN + i := 0]\<rparr>))))))
     (mthen (upd_inode ip (\<lambda>p. p\<lparr>i_size := 0\<rparr>))
     (inode_update ip)))"

section \<open>References and locks\<close>

definition inode_put :: "nat \<Rightarrow> unit fsm" where
  "inode_put ip =
     mthen (fhold MIc)
     (mbind (get_inode ip) (\<lambda>i.
     mthen (mwhen (iref i = 1 \<and> iflags i AND I_VALID \<noteq> 0 \<and> i_nlink i = 0)
       (mthen (massert (iflags i AND I_BUSY = 0))
       (mthen (upd_inode ip (\<lambda>i. i\<lparr>iflags := iflags i OR I_BUSY\<rparr>))
       (mthen (frelease MIc)
       (mthen (inode_truncate ip)
       (mthen (inode_update ip)
       (mthen (fhold MIc)
       (mthen (upd_inode ip (\<lambda>i. i\<lparr>iflags := 0\<rparr>))
       (fwakeup (WqInode ip))))))))))
     (mthen (upd_inode ip (\<lambda>i. i\<lparr>iref := iref i - 1\<rparr>))
     (frelease MIc))))"

definition inode_allocate :: "u64 \<Rightarrow> u32 \<Rightarrow> nat option fsm" where
  "inode_allocate dev mode =
     mbind (read_superblock dev) (\<lambda>sb.
     mbind (get_free_inode dev) (\<lambda>r. case r of None \<Rightarrow> mret None | Some num \<Rightarrow>
     mbind (read_disk_inode dev num) (\<lambda>(dip, bp).
     mthen (upd_buf bp (\<lambda>b. b\<lparr>b_data := put_bytes (b_data b) dip (replicate DINODE_SIZE 0)\<rparr>))
     (mthen (upd_buf bp (\<lambda>b. b\<lparr>b_data := put32 (b_data b) dip mode\<rparr>))
     (mthen (buffer_cache_blk_write bp)
     (mthen (buffer_cache_blk_release bp)
     (mbind (inode_get dev num) (\<lambda>ip. mret (Some ip)))))))))"

definition inode_duplicate :: "nat \<Rightarrow> nat fsm" where
  "inode_duplicate ip =
     mthen (fhold MIc)
     (mthen (upd_inode ip (\<lambda>i. i\<lparr>iref := iref i + 1\<rparr>))
     (mthen (frelease MIc) (mret ip)))"

definition inode_lock :: "nat \<Rightarrow> unit fsm" where
  "inode_lock ip =
     mbind (get_inode ip) (\<lambda>i.
     mthen (massert (0 < iref i))
     (mthen (fhold MIc)
     (if iflags i AND I_BUSY \<noteq> 0 then mstop Kblocked
      else
        mthen (upd_inode ip (\<lambda>i. i\<lparr>iflags := iflags i OR I_BUSY\<rparr>))
        (mthen (mwhen (iflags i AND I_VALID = 0)
          (mbind (read_superblock (i_dev i)) (\<lambda>sb.
           mbind (read_disk_inode (i_dev i) (inum i)) (\<lambda>(dip, bp).
           mbind (get_buf bp) (\<lambda>b.
           mthen (upd_inode ip (load_dinode (b_data b) dip))
           (mthen (buffer_cache_blk_release bp)
           (upd_inode ip (\<lambda>i. i\<lparr>iflags := iflags i OR I_VALID\<rparr>))))))))
        (frelease MIc)))))"

definition inode_unlock :: "nat \<Rightarrow> unit fsm" where
  "inode_unlock ip =
     mthen (fhold MIc)
     (mbind (get_inode ip) (\<lambda>i.
     mthen (massert (iflags i AND I_BUSY \<noteq> 0))
     (mthen (upd_inode ip (\<lambda>i. i\<lparr>iflags := iflags i AND NOT I_BUSY\<rparr>))
     (mthen (fwakeup (WqInode ip))
     (frelease MIc)))))"

section \<open>Reading and writing\<close>

text \<open>
  The destination and the source are lists of bytes.  The number of bytes of one turn is never 0 in a
  run that goes on: \<^verbatim>\<open>memmove\<close> does not return for a length of 0.
\<close>

definition turn_bytes :: "u64 \<Rightarrow> u64 \<Rightarrow> u64" where
  "turn_bytes offs remains = (let room = 512 - smodw offs 512 in if room < remains then room else remains)"

lemma turn_bytes_le: "turn_bytes offs remains \<le> remains"
  by (auto simp: turn_bytes_def Let_def)

lemma turn_less: "turn_bytes offs remains \<noteq> 0 \<Longrightarrow> unat (remains - turn_bytes offs remains) < unat remains"
  using turn_bytes_le [of offs remains] by (simp add: unat_sub word_le_nat_alt unat_gt_0 [symmetric] diff_less)

function inode_read_loop :: "nat \<Rightarrow> u64 \<Rightarrow> u64 \<Rightarrow> u8 list \<Rightarrow> u8 list fsm" where
  "inode_read_loop ip offs remains dst =
     (if remains = 0 then mret dst
      else (let n = turn_bytes offs remains in
        mbind (bmap ip (sdivw offs 512) 0) (\<lambda>blk.
        mbind (get_inode ip) (\<lambda>i.
        mbind (buffer_cache_blk_read (i_dev i) blk) (\<lambda>bp.
        mthen (massert (n \<le> remains))
        (mbind (get_buf bp) (\<lambda>b.
        mthen (mguard (unat (smodw offs 512) + unat n \<le> length (b_data b)))
        (mthen (buffer_cache_blk_release bp)
        (if n = 0 then mstop Kfault
         else inode_read_loop ip (offs + n) (remains - n)
           (dst @ get_bytes (unat n) (b_data b) (unat (smodw offs 512)))))))))))) "
  by auto

termination by (relation "measure (\<lambda>(ip, offs, remains, dst). unat remains)") (auto simp: turn_less)

definition inode_read :: "nat \<Rightarrow> u64 \<Rightarrow> u64 \<Rightarrow> (u64 \<times> u8 list) fsm" where
  "inode_read ip offs counts =
     mbind (get_inode ip) (\<lambda>i.
     mthen (massert (i_mode i \<noteq> FS_IMODE_DEV))
     (if i_size i < offs \<or> offs + counts < offs then mret (- 6, [])
      else (let counts = (if i_size i < offs + counts then i_size i - offs else counts) in
        mbind (inode_read_loop ip offs counts []) (\<lambda>dst. mret (counts, dst)))))"

function inode_write_loop :: "nat \<Rightarrow> u8 list \<Rightarrow> u64 \<Rightarrow> u64 \<Rightarrow> u64 fsm" where
  "inode_write_loop ip src offs remains =
     (if remains = 0 then mret offs
      else (let n = turn_bytes offs remains in
        mbind (bmap ip (sdivw offs 512) 0) (\<lambda>blk.
        mbind (get_inode ip) (\<lambda>i.
        mbind (buffer_cache_blk_read (i_dev i) blk) (\<lambda>bp.
        mthen (massert (n \<le> remains))
        (mbind (get_buf bp) (\<lambda>b.
        mthen (mguard (unat (smodw offs 512) + unat n \<le> length (b_data b) \<and> unat n \<le> length src))
        (if n = 0 then mstop Kfault
         else
           mthen (upd_buf bp (\<lambda>b. b\<lparr>b_data := put_bytes (b_data b) (unat (smodw offs 512)) (take (unat n) src)\<rparr>))
           (mthen (buffer_cache_blk_write bp)
           (mthen (buffer_cache_blk_release bp)
           (inode_write_loop ip (drop (unat n) src) (offs + n) (remains - n)))))))))))) "
  by auto

termination by (relation "measure (\<lambda>(ip, src, offs, remains). unat remains)") (auto simp: turn_less)

declare inode_read_loop.simps [simp del] inode_write_loop.simps [simp del]

definition inode_write :: "nat \<Rightarrow> u8 list \<Rightarrow> u64 \<Rightarrow> u64 \<Rightarrow> u64 fsm" where
  "inode_write ip src offs counts =
     mbind (get_inode ip) (\<lambda>i.
     mthen (massert (i_mode i \<noteq> FS_IMODE_DEV))
     (if i_size i < offs \<or> offs + counts < offs then mret (- 6)
      else if FS_MAXFILE_SIZE < offs + counts then mret (- 6)
      else
        mbind (inode_write_loop ip src offs counts) (\<lambda>offs.
        mbind (get_inode ip) (\<lambda>i.
        mthen (mwhen (0 < counts \<and> i_size i < offs)
          (mthen (upd_inode ip (\<lambda>i. i\<lparr>i_size := offs\<rparr>)) (inode_update ip)))
        (mret counts)))))"

record stat =
  st_mode :: u32
  st_dev :: u64
  st_rdev :: u64
  st_ino :: u32
  st_nlink :: u64
  st_size :: u64

definition inode_get_stat :: "nat \<Rightarrow> stat fsm" where
  "inode_get_stat ip = mbind (get_inode ip) (\<lambda>i.
     mret \<lparr>st_mode = i_mode i, st_dev = i_dev i, st_rdev = i_rdev i, st_ino = inum i, st_nlink = i_nlink i,
       st_size = i_size i\<rparr>)"

section \<open>Directories\<close>

text \<open>
  The loops over a directory advance by one entry.  The offset would start again from 0 after the last
  offset of 64 bits; \<^verbatim>\<open>inode_read\<close> refuses that entry before.
\<close>

lemma offs_less: "unat offs + 64 < 2 ^ 64 \<Longrightarrow> 2 ^ 64 - unat (offs + 64 :: u64) < 2 ^ 64 - unat offs"
  by (simp add: unat_word_ariths)

function dirlookup_loop :: "nat \<Rightarrow> u8 list \<Rightarrow> u64 \<Rightarrow> (nat \<times> u64) option fsm" where
  "dirlookup_loop dp name offs =
     mbind (get_inode dp) (\<lambda>d.
     if \<not> offs < i_size d then mret None
     else
       mbind (inode_read dp offs 64) (\<lambda>(rd_bytes, de).
       mthen (massert (rd_bytes = 64))
       (if d_ino de \<noteq> 0 \<and> strncmp (cstr name) (cstr (d_name de)) FNAME_MAX = 0 then
          mbind (get_inode dp) (\<lambda>d. mbind (inode_get (i_dev d) (d_ino de)) (\<lambda>ip. mret (Some (ip, offs))))
        else if unat offs + 64 < 2 ^ 64 then dirlookup_loop dp name (offs + 64)
        else mstop Kblocked)))"
  by auto

termination by (relation "measure (\<lambda>(dp, name, offs). 2 ^ 64 - unat offs)") (auto intro!: offs_less [simplified])

definition inode_dirlookup :: "nat \<Rightarrow> u8 list \<Rightarrow> (nat \<times> u64) option fsm" where
  "inode_dirlookup dp name =
     mbind (get_inode dp) (\<lambda>d. mthen (massert (i_mode d = FS_IMODE_DIR)) (dirlookup_loop dp name 0))"

text \<open>The search for an empty entry; it returns the offset and the entry read last.\<close>

function empty_dirent_loop :: "nat \<Rightarrow> u64 \<Rightarrow> u8 list \<Rightarrow> (u64 \<times> u8 list) fsm" where
  "empty_dirent_loop dp offs de =
     mbind (get_inode dp) (\<lambda>d.
     if \<not> offs < i_size d then mret (offs, de)
     else
       mbind (inode_read dp offs 64) (\<lambda>(rd_bytes, de).
       mthen (massert (rd_bytes = 64))
       (if d_ino de = 0 then mret (offs, de)
        else if unat offs + 64 < 2 ^ 64 then empty_dirent_loop dp (offs + 64) de
        else mstop Kblocked)))"
  by auto

termination by (relation "measure (\<lambda>(dp, offs, de). 2 ^ 64 - unat offs)") (auto intro!: offs_less [simplified])

declare dirlookup_loop.simps [simp del] empty_dirent_loop.simps [simp del]

definition inode_add_directory_entry :: "nat \<Rightarrow> u8 list \<Rightarrow> u32 \<Rightarrow> int fsm" where
  "inode_add_directory_entry dp name num =
     mbind (inode_dirlookup dp name) (\<lambda>r. case r of
       Some (ip, _) \<Rightarrow> mthen (inode_put ip) (mret (- EEXIST))
     | None \<Rightarrow>
         mbind (mget junk_de) (\<lambda>de0.
         mbind (empty_dirent_loop dp 0 de0) (\<lambda>(offs, de).
         let de = set_d_name (set_d_ino de num) name in
         mbind (inode_write dp de offs 64) (\<lambda>rd_bytes.
         mthen (massert (rd_bytes = 64)) (mret 0)))))"

section \<open>Paths\<close>

text \<open>
  A path is the list of its bytes before the null byte.  \<open>skip_element\<close> returns the next element, cut to
  59 bytes, and the rest of the path; storing the element and its null byte needs room in the array of
  the caller.
\<close>

definition skip_element :: "u8 list \<Rightarrow> (u8 list \<times> u8 list) option" where
  "skip_element path =
     (let path = dropWhile (\<lambda>c. c = 47) path in
      if path = [] then None
      else (let e = takeWhile (\<lambda>c. c \<noteq> 47) path; path = dropWhile (\<lambda>c. c \<noteq> 47) path
            in Some (take FNAME_MAX e, dropWhile (\<lambda>c. c = 47) path)))"

lemma skip_element_less: "skip_element path = Some (e, path') \<Longrightarrow> length path' < length path"
proof -
  assume a: "skip_element path = Some (e, path')"
  let ?p = "dropWhile (\<lambda>c. c = 47) path"
  have "?p \<noteq> []" and p': "path' = dropWhile (\<lambda>c. c = 47) (dropWhile (\<lambda>c. c \<noteq> 47) ?p)"
    using a by (auto simp: skip_element_def Let_def split: if_splits)
  then obtain c cs where c: "?p = c # cs" by (cases ?p) auto
  have "length path' \<le> length (dropWhile (\<lambda>c. c \<noteq> 47) ?p)" unfolding p' by (rule length_dropWhile_le)
  also have "\<dots> < length ?p"
    using c hd_dropWhile [of "\<lambda>c. c = 47" path] length_dropWhile_le [of "\<lambda>c. c \<noteq> 47" cs] by auto
  also have "\<dots> \<le> length path" by (rule length_dropWhile_le)
  finally show ?thesis .
qed

function path_walk :: "bool \<Rightarrow> nat \<Rightarrow> nat \<Rightarrow> u8 list \<Rightarrow> (nat \<times> u8 list) option fsm" where
  "path_walk nameiparent cap ip path =
     (case skip_element path of
        None \<Rightarrow> if nameiparent then mthen (inode_put ip) (mret None) else mret (Some (ip, []))
      | Some (name, path') \<Rightarrow>
          mthen (mguard (length name < cap))
          (mthen (inode_lock ip)
          (mbind (get_inode ip) (\<lambda>i.
             if i_mode i \<noteq> FS_IMODE_DIR then mthen (inode_unlock ip) (mthen (inode_put ip) (mret None))
             else if nameiparent \<and> path' = [] then mthen (inode_unlock ip) (mret (Some (ip, name)))
             else
               mbind (inode_dirlookup ip name) (\<lambda>r. case r of
                 None \<Rightarrow> mthen (inode_unlock ip) (mthen (inode_put ip) (mret None))
               | Some (next, _) \<Rightarrow>
                   mthen (inode_unlock ip) (mthen (inode_put ip) (path_walk nameiparent cap next path')))))))"
  by auto

termination by (relation "measure (\<lambda>(n, c, ip, path). length path)") (auto dest: skip_element_less)

declare path_walk.simps [simp del]

definition inode_path2inode :: "u8 list \<Rightarrow> bool \<Rightarrow> nat \<Rightarrow> (nat \<times> u8 list) option fsm" where
  "inode_path2inode path nameiparent cap =
     mthen (massert (path \<noteq> [] \<and> hd path = 47))
     (mbind (inode_get ROOT_DEV ROOT_DENT_INO) (\<lambda>ip. path_walk nameiparent cap ip path))"

definition inode_namei :: "u8 list \<Rightarrow> nat option fsm" where
  "inode_namei path = mbind (inode_path2inode path False 60) (\<lambda>r. mret (map_option fst r))"

definition inode_nameiparent :: "u8 list \<Rightarrow> nat \<Rightarrow> (nat \<times> u8 list) option fsm" where
  "inode_nameiparent path cap = inode_path2inode path True cap"

definition inode_cache_init :: "unit fsm" where
  "inode_cache_init =
     mthen (mutex_init_fs MIc)
     (mfor_each [0..<NINODE] (\<lambda>i.
        mthen (upd_inode i (\<lambda>_. inode0))
        (mmod (wqs_update (\<lambda>w. w(WqInode i := []))))))"

end
