(* ===== verification/Kuart.thy ===== *)
theory Kuart
  imports Kdevsw
begin

text \<open>
  The serial console of the x64 machine (\<^verbatim>\<open>hal/x64/console.c\<close>) on the first serial port.  A reader
  that finds no character and a writer that finds the transmitter busy sleep until the interrupt
  handler wakes them.
\<close>

abbreviation (input) CON_COMBASE :: u16 where "CON_COMBASE \<equiv> 0x3f8"
abbreviation (input) UART_LSR :: u16 where "UART_LSR \<equiv> 5"

definition port_in :: "u16 \<Rightarrow> u8 fsm" where
  "port_in p = mbind (mget prt) (\<lambda>ps. case in_port_byte p ps of
     Ok (v, ps') \<Rightarrow> mthen (mmod (prt_update (\<lambda>_. ps'))) (mret v) | Stop e \<Rightarrow> mstop e)"

definition port_out :: "u16 \<Rightarrow> u8 \<Rightarrow> unit fsm" where
  "port_out p v = mbind (mget prt) (\<lambda>ps. case out_port_byte p v ps of
     Ok (_, ps') \<Rightarrow> mmod (prt_update (\<lambda>_. ps')) | Stop e \<Rightarrow> mstop e)"

fun console_read_loop :: "nat \<Rightarrow> u8 list \<Rightarrow> u8 list fsm" where
  "console_read_loop 0 dst = mret dst"
| "console_read_loop (Suc remains) dst =
     mbind (port_in (CON_COMBASE + UART_LSR)) (\<lambda>lsr.
       if lsr AND 1 = 0 then mstop Kblocked
       else mbind (port_in CON_COMBASE) (\<lambda>r. console_read_loop remains (dst @ [if r = 13 then 10 else r])))"

definition x64_console_read :: "u64 \<Rightarrow> (u64 \<times> u8 list) fsm" where
  "x64_console_read counts = mbind (console_read_loop (unat counts) []) (\<lambda>dst. mret (counts, dst))"

fun console_write_loop :: "nat \<Rightarrow> u8 list \<Rightarrow> unit fsm" where
  "console_write_loop 0 src = mret ()"
| "console_write_loop (Suc remains) src =
     mbind (port_in (CON_COMBASE + UART_LSR)) (\<lambda>lsr.
       if lsr AND 0x20 = 0 then mstop Kblocked
       else case src of
         [] \<Rightarrow> mstop Kfault
       | c # src' \<Rightarrow> mthen (port_out CON_COMBASE c) (console_write_loop remains src'))"

definition x64_console_write :: "u8 list \<Rightarrow> u64 \<Rightarrow> u64 fsm" where
  "x64_console_write src counts = mthen (console_write_loop (unat counts) src) (mret counts)"

definition x64_uart_handler :: "int fsm" where
  "x64_uart_handler =
     mbind fsave (\<lambda>psw.
     mbind (port_in (CON_COMBASE + 2)) (\<lambda>iir.
     let intr_id = iir AND 6 in
     mthen (mwhen (intr_id AND 4 \<noteq> 0) (fwakeup WqRx))
     (mthen (mwhen (intr_id AND 2 \<noteq> 0) (fwakeup WqTx))
     (mthen (frestore psw) (mret 0)))))"

text \<open>The registration of the interrupt handler is an argument; it belongs to the interrupt manager.\<close>

definition x64_console_init :: "int fsm \<Rightarrow> int fsm" where
  "x64_console_init register_handler =
     mthen (mmod (wqs_update (\<lambda>w. w(WqRx := []))))
     (mthen (mmod (wqs_update (\<lambda>w. w(WqTx := []))))
     (let baud_setting = word_of_int (1846154 div 16 div 115200) :: u16 in
     mthen (port_out (CON_COMBASE + 1) 0)
     (mthen (port_out (CON_COMBASE + 4) (0 OR 3))
     (mthen (port_out CON_COMBASE (ucast (baud_setting AND 0xff)))
     (mthen (port_out (CON_COMBASE + 1) (ucast (drop_bit 8 baud_setting)))
     (mthen (port_out (CON_COMBASE + 3) 3)
     (mthen register_handler
     (mthen (port_out (CON_COMBASE + 2) 0)
     (mthen (port_out (CON_COMBASE + 1) (1 OR 2))
     (mthen (port_out (CON_COMBASE + 4) (8 OR 3))
     (register_device_driver CONS_DEV
        (drv0\<lparr>d_read := Some Console_read, d_write := Some Console_write\<rparr>) 0)))))))))))"

lemma runs_port [mrun]:
  "runs (port_in p) s v s' \<longleftrightarrow> v = p_in (prt s) p (p_pos (prt s) p) (p_out (prt s)) \<and>
     s' = s\<lparr>prt := (prt s)\<lparr>p_pos := (p_pos (prt s))(p := Suc (p_pos (prt s) p))\<rparr>\<rparr>"
  "runs (port_out p v) s u s' \<longleftrightarrow> s' = s\<lparr>prt := (prt s)\<lparr>p_out := p_out (prt s) @ [(p, v)]\<rparr>\<rparr>"
  by (auto simp: port_in_def port_out_def in_port_byte_def out_port_byte_def mrun)

end
