(* ===== verification/Kfile.thy ===== *)
theory Kfile
  imports Kinode Kuart
begin

text \<open>
  The table of open files (\<^verbatim>\<open>fs/file.c\<close>) and the file system calls of a thread (\<^verbatim>\<open>fs/fs.c\<close>).  A
  descriptor of a thread points to an entry of the file table, and an entry to an inode; several
  descriptors may share an entry, which counts them.
\<close>

abbreviation (input) MAX_FD_TABLE_SIZE :: nat where "MAX_FD_TABLE_SIZE \<equiv> 1024"
abbreviation (input) THR_FDS_NR :: nat where "THR_FDS_NR \<equiv> 32"
abbreviation (input) FREAD :: u32 where "FREAD \<equiv> 1"
abbreviation (input) FWRITE :: u32 where "FWRITE \<equiv> 2"
abbreviation (input) O_CREATE :: u32 where "O_CREATE \<equiv> 0x10"
abbreviation (input) O_RDONLY :: u32 where "O_RDONLY \<equiv> 1"

section \<open>The file table\<close>

definition fdtable_init :: "unit fsm" where
  "fdtable_init =
     mthen (mutex_init_fs MFd)
     (mfor_each [0..<MAX_FD_TABLE_SIZE] (\<lambda>i.
        upd_file i (\<lambda>f. f\<lparr>f_flags := 0, f_count := 0, f_inode := None, f_offset := 0\<rparr>)))"

definition fdtable_alloc_new_fd :: "nat option fsm" where
  "fdtable_alloc_new_fd =
     mthen (fhold MFd)
     (mbind (mfor [0..<MAX_FD_TABLE_SIZE] (\<lambda>i.
        mbind (get_file i) (\<lambda>f.
          if f_count f = 0 then mthen (upd_file i (\<lambda>f. f\<lparr>f_count := 1\<rparr>)) (mret (Some i))
          else mret None))) (\<lambda>r.
      mthen (frelease MFd) (mret r)))"

definition fdtable_duplicate_fd :: "nat \<Rightarrow> nat fsm" where
  "fdtable_duplicate_fd f =
     mthen (fhold MFd)
     (mbind (get_file f) (\<lambda>fp.
     mthen (massert (0 < f_count fp))
     (mthen (upd_file f (\<lambda>f. f\<lparr>f_count := f_count f + 1\<rparr>))
     (mthen (frelease MFd) (mret f)))))"

definition fdtable_close_fd :: "nat \<Rightarrow> unit fsm" where
  "fdtable_close_fd f =
     mthen (fhold MFd)
     (mbind (get_file f) (\<lambda>fp.
     mthen (massert (0 < f_count fp))
     (mthen (upd_file f (\<lambda>f. f\<lparr>f_count := f_count f - 1\<rparr>))
     (mbind (get_file f) (\<lambda>fp.
     mthen (mwhen (\<not> 0 < f_count fp)
       (mthen (massert (f_count fp = 0))
       (mbind (deref (f_inode fp)) inode_put)))
     (frelease MFd))))))"

text \<open>The calls through the function pointers of a character device.\<close>

definition call_read :: "devfn option \<Rightarrow> u64 \<Rightarrow> (u64 \<times> u8 list) fsm" where
  "call_read fn n = (case fn of Some Console_read \<Rightarrow> x64_console_read n | _ \<Rightarrow> mstop Kfault)"

definition call_write :: "devfn option \<Rightarrow> u8 list \<Rightarrow> u64 \<Rightarrow> u64 fsm" where
  "call_write fn src n = (case fn of Some Console_write \<Rightarrow> x64_console_write src n | _ \<Rightarrow> mstop Kfault)"

text \<open>
  The result is the return code, the byte count where it was stored, and the bytes.
\<close>

definition fd_file_read :: "nat \<Rightarrow> u64 \<Rightarrow> (int \<times> u64 option \<times> u8 list) fsm" where
  "fd_file_read f n =
     mbind (get_file f) (\<lambda>fp.
     if f_flags fp AND FREAD = 0 then mret (EPERM, None, [])
     else
       mthen (massert (f_inode fp \<noteq> None))
       (mbind (deref (f_inode fp)) (\<lambda>ip.
       mthen (inode_lock ip)
       (mbind (get_inode ip) (\<lambda>i.
          if i_mode i = FS_IMODE_DEV then
            mbind (devsw_get_handle (i_rdev i)) (\<lambda>drv.
            mbind (get_drv drv) (\<lambda>d.
              if d_dev d = 0 then mthen (inode_unlock ip) (mret (ENODEV, None, []))
              else
                mthen (inode_unlock ip)
                (mbind (call_read (d_read d) n) (\<lambda>(cnt, bytes).
                mthen (inode_lock ip)
                (mbind (get_drv drv) (\<lambda>d.
                mthen (devsw_put_handle (d_dev d))
                (mthen (inode_unlock ip) (mret (0, Some cnt, bytes)))))))))
          else
            mbind (inode_read ip (f_offset fp) n) (\<lambda>(rd_count, bytes).
              if 0 < sint rd_count then
                mthen (upd_file f (\<lambda>fp. fp\<lparr>f_offset := f_offset fp + rd_count\<rparr>))
                (mthen (inode_unlock ip) (mret (0, Some rd_count, bytes)))
              else mthen (inode_unlock ip) (mret (sint (ucast rd_count :: u32), None, bytes))))))))"

definition fd_file_write :: "nat \<Rightarrow> u8 list \<Rightarrow> u64 \<Rightarrow> (int \<times> u64 option) fsm" where
  "fd_file_write f src n =
     mbind (get_file f) (\<lambda>fp.
     if f_flags fp AND FWRITE = 0 then mret (EPERM, None)
     else
       mbind (deref (f_inode fp)) (\<lambda>ip.
       mthen (inode_lock ip)
       (mbind (get_inode ip) (\<lambda>i.
          if i_mode i = FS_IMODE_DEV then
            mbind (devsw_get_handle (i_rdev i)) (\<lambda>drv.
            mbind (get_drv drv) (\<lambda>d.
              if d_dev d = 0 then mthen (inode_unlock ip) (mret (ENODEV, None))
              else
                mthen (inode_unlock ip)
                (mbind (call_write (d_write d) src n) (\<lambda>cnt.
                mthen (inode_lock ip)
                (mbind (get_drv drv) (\<lambda>d.
                mthen (devsw_put_handle (d_dev d))
                (mthen (inode_unlock ip) (mret (0, Some cnt)))))))))
          else
            mbind (inode_write ip src (f_offset fp) n) (\<lambda>wr_count.
              if 0 < sint wr_count then
                mthen (upd_file f (\<lambda>fp. fp\<lparr>f_offset := f_offset fp + wr_count\<rparr>))
                (mthen (inode_unlock ip) (mret (0, Some wr_count)))
              else mthen (inode_unlock ip) (mret (sint (ucast wr_count :: u32), None)))))))"

definition fd_file_stat :: "nat \<Rightarrow> stat fsm" where
  "fd_file_stat f =
     mbind (get_file f) (\<lambda>fp.
     mthen (massert (f_inode fp \<noteq> None))
     (mbind (deref (f_inode fp)) (\<lambda>ip.
     mthen (inode_lock ip)
     (mbind (inode_get_stat ip) (\<lambda>st.
     mthen (inode_unlock ip) (mret st))))))"

end
