(* ===== verification/Kfs.thy ===== *)
theory Kfs
  imports Kfile
begin

text \<open>
  The file system calls (\<^verbatim>\<open>fs/fs.c\<close>).  A call returns an \<^verbatim>\<open>int\<close>, negative for most errors.
\<close>

section \<open>Descriptors of the thread\<close>

fun alloc_fd_loop :: "(nat \<Rightarrow> nat option) \<Rightarrow> nat list \<Rightarrow> nat option" where
  "alloc_fd_loop t [] = None"
| "alloc_fd_loop t (fd # r) = (if t fd = None then Some fd else alloc_fd_loop t r)"

definition set_fd :: "nat \<Rightarrow> nat option \<Rightarrow> unit fsm" where
  "set_fd fd v = mmod (\<lambda>s. s\<lparr>fds := (fds s)(cur s := (fds s (cur s))(fd := v))\<rparr>)"

definition alloc_new_fd :: "nat \<Rightarrow> int fsm" where
  "alloc_new_fd f =
     mbind (mget (\<lambda>s. alloc_fd_loop (fds s (cur s)) [0..<THR_FDS_NR])) (\<lambda>r. case r of
       Some fd \<Rightarrow> mthen (set_fd fd (Some f)) (mret (int fd))
     | None \<Rightarrow> mret (- ENOENT))"

text \<open>The checks at the start of every call with a descriptor.\<close>

definition with_fd :: "int \<Rightarrow> 'a \<Rightarrow> 'a \<Rightarrow> (nat \<Rightarrow> 'a fsm) \<Rightarrow> 'a fsm" where
  "with_fd fd einval ebadf k =
     (if fd < 0 \<or> int THR_FDS_NR \<le> fd then mret einval
      else mbind (mget (\<lambda>s. fds s (cur s) (nat fd))) (\<lambda>f. case f of None \<Rightarrow> mret ebadf | Some f \<Rightarrow> k f))"

definition fs_dup :: "int \<Rightarrow> int fsm" where
  "fs_dup fd = with_fd fd (- EINVAL) (- EBADF) (\<lambda>f.
     mbind (alloc_new_fd f) (\<lambda>new_fd.
       if new_fd < 0 then mret new_fd
       else mthen (fdtable_duplicate_fd f) (mret new_fd)))"

text \<open>\<^verbatim>\<open>rdcnt\<close> is not initialised; it is returned as it is when no count was stored.\<close>

definition fs_read :: "int \<Rightarrow> u64 \<Rightarrow> (int \<times> u8 list) fsm" where
  "fs_read fd counts = with_fd fd (- EINVAL, []) (- EBADF, []) (\<lambda>f.
     mbind (mget junk_cnt) (\<lambda>junk.
     mbind (fd_file_read f counts) (\<lambda>(rc, rdcnt, bytes).
       mret (if rc = 0 then sint (ucast (case rdcnt of Some c \<Rightarrow> c | None \<Rightarrow> junk) :: u32) else rc, bytes))))"

definition fs_write :: "int \<Rightarrow> u8 list \<Rightarrow> u64 \<Rightarrow> int fsm" where
  "fs_write fd src counts = with_fd fd (- EINVAL) (- EBADF) (\<lambda>f.
     mbind (mget junk_cnt) (\<lambda>junk.
     mbind (fd_file_write f src counts) (\<lambda>(rc, wrcnt).
       mret (if rc = 0 then sint (ucast (case wrcnt of Some c \<Rightarrow> c | None \<Rightarrow> junk) :: u32) else rc))))"

definition fs_close :: "int \<Rightarrow> int fsm" where
  "fs_close fd = with_fd fd (- EINVAL) (- EBADF) (\<lambda>f.
     mthen (set_fd (nat fd) None)
     (mthen (fdtable_close_fd f) (mret 0)))"

definition fs_lseek :: "int \<Rightarrow> u64 \<Rightarrow> u32 \<Rightarrow> u64 fsm" where
  "fs_lseek fd offs whence = with_fd fd (word_of_int (- EINVAL)) (word_of_int (- EBADF)) (\<lambda>f.
     mbind (get_file f) (\<lambda>fp.
     let new = (if whence = 1 then f_offset fp + offs else offs) in
     mthen (massert (f_inode fp \<noteq> None))
     (mbind (deref (f_inode fp)) (\<lambda>ip.
     mthen (inode_lock ip)
     (mbind (get_inode ip) (\<lambda>i.
     let new = (if whence = 2 then i_size i + offs else new);
         new = (if sint new < 0 then 0 else new) in
     mthen (inode_unlock ip)
     (mthen (upd_file f (\<lambda>fp. fp\<lparr>f_offset := new\<rparr>)) (mret new))))))))"

definition fs_fstat :: "int \<Rightarrow> (int \<times> stat option) fsm" where
  "fs_fstat fd = with_fd fd (- EINVAL, None) (- EBADF, None) (\<lambda>f.
     mbind (get_file f) (\<lambda>fp.
     mthen (massert (f_inode fp \<noteq> None))
     (mbind (fd_file_stat f) (\<lambda>st. mret (0, Some st)))))"

section \<open>Names\<close>

text \<open>
  The assertion in \<^verbatim>\<open>isdirempty\<close> asks that the entry is \<^emph>\<open>not\<close> read in full, so it fails on every
  directory with an entry.
\<close>

function isdirempty_loop :: "nat \<Rightarrow> u64 \<Rightarrow> u8 list \<Rightarrow> bool fsm" where
  "isdirempty_loop dp offs de =
     mbind (get_inode dp) (\<lambda>d.
     if \<not> offs < i_size d then mret True
     else
       mbind (inode_read dp offs 64) (\<lambda>(rd_bytes, bytes).
       mthen (massert (rd_bytes \<noteq> 64))
       (let de = bytes @ drop (length bytes) de in
        if (strncmp (cstr [46]) (cstr (d_name de)) FNAME_MAX = 0 \<or> strncmp (cstr [46, 46]) (cstr (d_name de)) FNAME_MAX = 0) \<or>
           d_ino de = 0 then
          (if unat offs + 64 < 2 ^ 64 then isdirempty_loop dp (offs + 64) de else mstop Kblocked)
        else mret False)))"
  by auto

termination by (relation "measure (\<lambda>(dp, offs, de). 2 ^ 64 - unat offs)") (auto intro!: offs_less [simplified])

declare isdirempty_loop.simps [simp del]

definition isdirempty :: "nat \<Rightarrow> bool fsm" where
  "isdirempty dp = mbind (mget junk_de) (\<lambda>de. isdirempty_loop dp 0 de)"

definition create :: "u8 list \<Rightarrow> u32 \<Rightarrow> u64 \<Rightarrow> nat option fsm" where
  "create path typ dev =
     mbind (inode_nameiparent path FNAME_MAX) (\<lambda>r. case r of None \<Rightarrow> mret None | Some (dp, name) \<Rightarrow>
     mthen (inode_lock dp)
     (mbind (inode_dirlookup dp name) (\<lambda>r. case r of
        Some (ip, _) \<Rightarrow>
          mthen (inode_unlock dp)
          (mthen (inode_put dp)
          (mthen (inode_lock ip)
          (mbind (get_inode ip) (\<lambda>i.
             if typ = FS_IMODE_FILE \<and> i_mode i = FS_IMODE_FILE then mret (Some ip)
             else mthen (inode_unlock ip) (mthen (inode_put ip) (mret None))))))
      | None \<Rightarrow>
          mbind (get_inode dp) (\<lambda>d.
          mbind (inode_allocate (i_dev d) typ) (\<lambda>r. case r of None \<Rightarrow> mstop Kassert | Some ip \<Rightarrow>
          mthen (inode_lock ip)
          (mthen (upd_inode ip (\<lambda>i. i\<lparr>i_dev := dev, i_nlink := 1\<rparr>))
          (mthen (inode_update ip)
          (mthen (mwhen (typ = FS_IMODE_DIR)
            (mthen (upd_inode dp (\<lambda>d. d\<lparr>i_nlink := i_nlink d + 1\<rparr>))
            (mthen (inode_update dp)
            (mbind (get_inode ip) (\<lambda>i. mbind (inode_add_directory_entry ip [46] (inum i)) (\<lambda>rc.
               if rc < 0 then mstop Kpanic
               else mbind (get_inode dp) (\<lambda>d. mbind (inode_add_directory_entry ip [46, 46] (inum d)) (\<lambda>rc.
                 if rc < 0 then mstop Kpanic else mret ()))))))))
          (mbind (get_inode ip) (\<lambda>i. mbind (inode_add_directory_entry dp name (inum i)) (\<lambda>rc.
             if rc < 0 then mstop Kpanic
             else mthen (inode_unlock dp) (mthen (inode_put dp) (mret (Some ip))))))))))))))"

definition fs_open :: "u8 list \<Rightarrow> u32 \<Rightarrow> int fsm" where
  "fs_open path omode =
     (let put_out = (\<lambda>ip. mthen (inode_unlock ip) (mthen (inode_put ip) (mret (- 1)))) in
     mbind (if omode AND O_CREATE \<noteq> 0 then mbind (create path FS_IMODE_FILE ROOT_DEV) (\<lambda>r. mret (map_option (\<lambda>ip. (ip, False)) r))
            else mbind (inode_namei path) (\<lambda>r. case r of None \<Rightarrow> mret None | Some ip \<Rightarrow>
              mthen (inode_lock ip)
              (mbind (get_inode ip) (\<lambda>i. mret (Some (ip, i_mode i = FS_IMODE_DIR \<and> omode \<noteq> O_RDONLY)))))) (\<lambda>r.
     case r of None \<Rightarrow> mret (- 1) | Some (ip, refuse) \<Rightarrow>
       if refuse then put_out ip
       else
         mbind fdtable_alloc_new_fd (\<lambda>r. case r of None \<Rightarrow> put_out ip | Some f \<Rightarrow>
         mbind (alloc_new_fd f) (\<lambda>fd.
           if fd < 0 then mthen (fdtable_close_fd f) (put_out ip)
           else
             mthen (inode_unlock ip)
             (mthen (upd_file f (\<lambda>fp. fp\<lparr>f_inode := Some ip, f_offset := 0, f_flags := omode\<rparr>))
             (mret fd))))))"

definition fs_link :: "u8 list \<Rightarrow> u8 list \<Rightarrow> int fsm" where
  "fs_link old new =
     mbind (inode_namei old) (\<lambda>r. case r of None \<Rightarrow> mret (- 1) | Some ip \<Rightarrow>
     mthen (inode_lock ip)
     (mbind (get_inode ip) (\<lambda>i.
        if i_mode i = FS_IMODE_DIR then mthen (inode_unlock ip) (mthen (inode_put ip) (mret (- 1)))
        else
          let error_out =
            mthen (inode_lock ip)
            (mthen (upd_inode ip (\<lambda>i. i\<lparr>i_nlink := i_nlink i - 1\<rparr>))
            (mthen (inode_update ip)
            (mthen (inode_unlock ip)
            (mthen (inode_put ip) (mret (- 1)))))) in
          mthen (upd_inode ip (\<lambda>i. i\<lparr>i_nlink := i_nlink i + 1\<rparr>))
          (mthen (inode_unlock ip)
          (mthen (inode_put ip)
          (mbind (inode_nameiparent new FNAME_MAX) (\<lambda>r. case r of None \<Rightarrow> error_out | Some (dp, name) \<Rightarrow>
          mthen (inode_lock dp)
          (mbind (get_inode dp) (\<lambda>d.
           mbind (get_inode ip) (\<lambda>i.
             if i_dev d \<noteq> i_dev i then mthen (inode_unlock dp) (mthen (inode_put dp) error_out)
             else
               mbind (inode_add_directory_entry dp name (inum i)) (\<lambda>rc.
               mthen (inode_unlock dp)
               (mthen (inode_put dp)
               (if rc < 0 then error_out else mthen (inode_put ip) (mret 0))))))))))))))"

definition fs_unlink :: "u8 list \<Rightarrow> int fsm" where
  "fs_unlink path =
     mbind (inode_nameiparent path FNAME_MAX) (\<lambda>r. case r of None \<Rightarrow> mret (- 1) | Some (dp, name) \<Rightarrow>
     let error_out = mthen (inode_unlock dp) (mthen (inode_put dp) (mret (- 1))) in
     mthen (inode_lock dp)
     (if strncmp (cstr [46]) (cstr name) FNAME_MAX = 0 \<or> strncmp (cstr [46, 46]) (cstr name) FNAME_MAX = 0 then error_out
      else
        mbind (inode_dirlookup dp name) (\<lambda>r. case r of None \<Rightarrow> error_out | Some (ip, d_off) \<Rightarrow>
        mthen (inode_lock ip)
        (mbind (get_inode ip) (\<lambda>i.
        mthen (massert (0 < sint (i_nlink i)))
        (mbind (if i_mode i = FS_IMODE_DIR then isdirempty ip else mret True) (\<lambda>removable.
           if \<not> removable then mthen (inode_unlock ip) (mthen (inode_put ip) error_out)
           else
             mbind (inode_write dp (replicate DIRENT_SIZE 0) d_off 64) (\<lambda>wr_len.
             mthen (massert (wr_len = 64))
             (mthen (mwhen (i_mode i = FS_IMODE_DIR)
               (mthen (upd_inode dp (\<lambda>d. d\<lparr>i_nlink := i_nlink d - 1\<rparr>)) (inode_update dp)))
             (mthen (inode_unlock dp)
             (mthen (inode_put dp)
             (mthen (upd_inode ip (\<lambda>i. i\<lparr>i_nlink := i_nlink i - 1\<rparr>))
             (mthen (inode_update ip)
             (mthen (inode_unlock ip)
             (mthen (inode_put ip) (mret 0))))))))))))))))"

end
