(* ===== verification/Kfdcount.thy ===== *)
theory Kfdcount
  imports Kfs
begin

text \<open>
  Descriptors and file table: how many descriptors share an entry of the file table.  The functions
  of the layers below do not touch the table (\<open>fdk\<close>), so only the calls that open, duplicate and
  close descriptors matter.
\<close>

section \<open>What leaves the descriptors alone\<close>

definition fdk :: "fsst \<Rightarrow> fsst \<Rightarrow> bool" where
  "fdk s s' = (files s' = files s \<and> fds s' = fds s \<and> cur s' = cur s)"

lemma fdk_po: "reflp fdk" "transp fdk"
  by (auto simp: fdk_def intro: reflpI transpI)

named_theorems fdks

lemmas fdk_rules = keeps_refl [OF fdk_po(1)] keeps_mbind [OF fdk_po(2)] keeps_mthen [OF fdk_po(2)] keeps_if
  keeps_mfor [OF fdk_po] keeps_mfor_each [OF fdk_po]

lemma keeps_case_bnode:
  "keeps R m \<Longrightarrow> (\<And>x. keeps R (f x)) \<Longrightarrow> (\<And>x. keeps R (g x)) \<Longrightarrow>
     keeps R (case p of BcHead \<Rightarrow> m | BcMru x \<Rightarrow> f x | BcLink x \<Rightarrow> g x)"
  by (cases p) auto

lemmas keeps_cases = keeps_case_option keeps_case_prod keeps_case_sum keeps_case_bnode keeps_let

lemma fdk_basic [fdks]:
  "keeps fdk (fhold m)" "keeps fdk (frelease m)" "keeps fdk fsave" "keeps fdk (frestore e)" "keeps fdk (fwakeup q)"
  "keeps fdk (get_buf b)" "keeps fdk (get_drv d)" "keeps fdk (get_inode ip)" "keeps fdk (get_file f)"
  "keeps fdk (upd_drv d fd)" "keeps fdk (upd_buf b fb)" "keeps fdk (upd_inode ip fi)" "keeps fdk (deref p)"
  "keeps fdk (mmod (bc_update g))" "keeps fdk (mmod (img_update h))" "keeps fdk (mmod (prt_update j))"
  by (auto simp: keeps_def mrun fdk_def)

lemma fdk_devsw [fdks]: "keeps fdk (devsw_get_handle dev)" "keeps fdk (devsw_put_handle dev)"
  unfolding devsw_get_handle_def devsw_put_handle_def by (intro fdk_rules fdks)+

lemma fdk_loops [fdks]: "keeps fdk (memide_read_loop b i a r)" "keeps fdk (memide_write_loop b i a r)"
proof -
  show "keeps fdk (memide_read_loop b i a r)"
  proof (induction b i a r rule: memide_read_loop.induct)
    case (1 b i a r)
    show ?case by (subst memide_read_loop.simps) (intro fdk_rules keeps_cases fdks; use 1 in simp)
  qed
  show "keeps fdk (memide_write_loop b i a r)"
  proof (induction b i a r rule: memide_write_loop.induct)
    case (1 b i a r)
    show ?case by (subst memide_write_loop.simps) (intro fdk_rules keeps_cases fdks; use 1 in simp)
  qed
qed

lemma fdk_rw [fdks]: "keeps fdk (memide_rw d b)"
  unfolding memide_rw_def memide_write_sector_def memide_read_sector_def by (intro fdk_rules keeps_cases fdks)

lemma fdk_call [fdks]: "keeps fdk (call_blkrw fn d b)"
  unfolding call_blkrw_def by (cases fn) (auto split: devfn.split intro!: fdk_rules fdks)

lemma fdk_blkio [fdks]:
  "keeps fdk (buffer_cache_blk_get dev n)" "keeps fdk (buffer_cache_blk_read dev n)" "keeps fdk (buffer_cache_blk_write b)"
  "keeps fdk (buffer_cache_blk_release b)"
proof -
  show "keeps fdk (buffer_cache_blk_get dev n)"
    unfolding buffer_cache_blk_get_def by (intro fdk_rules keeps_cases fdks)
  then show "keeps fdk (buffer_cache_blk_read dev n)"
    unfolding buffer_cache_blk_read_def by (intro fdk_rules keeps_cases fdks)
  show "keeps fdk (buffer_cache_blk_write b)" "keeps fdk (buffer_cache_blk_release b)"
    unfolding buffer_cache_blk_write_def buffer_cache_blk_release_def by (intro fdk_rules keeps_cases fdks)+
qed

lemma fdk_bitmap [fdks]:
  "keeps fdk (read_superblock dev)" "keeps fdk (buf_get64 b k)" "keeps fdk (buf_put64 b k v)"
  unfolding read_superblock_def buf_get64_def buf_put64_def by (intro fdk_rules keeps_cases fdks)+

lemma fdk_alloc [fdks]:
  "keeps fdk (get_free_inode dev)" "keeps fdk (find_free_data_block dev)" "keeps fdk (release_data_block dev blk)"
  "keeps fdk (read_disk_inode dev ino)"
  unfolding get_free_inode_def find_free_data_block_def release_data_block_def read_disk_inode_def
  by (intro fdk_rules keeps_cases fdks)+

lemma fdk_inode [fdks]: "keeps fdk (inode_update ip)" "keeps fdk (inode_get dev num)" "keeps fdk (bmap ip a b)"
  unfolding inode_update_def inode_get_def bmap_def by (intro fdk_rules keeps_cases fdks)+

lemma fdk_truncate [fdks]: "keeps fdk (inode_truncate ip)"
  unfolding inode_truncate_def by (intro fdk_rules keeps_cases fdks)

lemma fdk_ref [fdks]:
  "keeps fdk (inode_put ip)" "keeps fdk (inode_allocate dev mode)" "keeps fdk (inode_lock ip)" "keeps fdk (inode_unlock ip)"
  unfolding inode_put_def inode_allocate_def inode_lock_def inode_unlock_def by (intro fdk_rules keeps_cases fdks)+

lemma fdk_read_loop [fdks]: "keeps fdk (inode_read_loop ip offs n dst)"
proof (induction ip offs n dst rule: inode_read_loop.induct)
  case (1 ip offs n dst)
  show ?case by (subst inode_read_loop.simps) (intro fdk_rules keeps_cases fdks; use 1 in simp)
qed

lemma fdk_write_loop [fdks]: "keeps fdk (inode_write_loop ip src offs n)"
proof (induction ip src offs n rule: inode_write_loop.induct)
  case (1 ip src offs n)
  show ?case by (subst inode_write_loop.simps) (intro fdk_rules keeps_cases fdks; use 1 in simp)
qed

lemma fdk_rdwr [fdks]: "keeps fdk (inode_read ip offs n)" "keeps fdk (inode_write ip src offs n)" "keeps fdk (inode_get_stat ip)"
  unfolding inode_read_def inode_write_def inode_get_stat_def by (intro fdk_rules keeps_cases fdks)+

lemma fdk_dir_loops [fdks]: "keeps fdk (dirlookup_loop dp name offs)" "keeps fdk (empty_dirent_loop dp offs de)"
  "keeps fdk (isdirempty_loop dp offs de)"
proof -
  show "keeps fdk (dirlookup_loop dp name offs)"
  proof (induction dp name offs rule: dirlookup_loop.induct)
    case (1 dp name offs)
    show ?case by (subst dirlookup_loop.simps) (intro fdk_rules keeps_cases fdks; use 1 in simp)
  qed
  show "keeps fdk (empty_dirent_loop dp offs de)"
  proof (induction dp offs de rule: empty_dirent_loop.induct)
    case (1 dp offs de)
    show ?case by (subst empty_dirent_loop.simps) (intro fdk_rules keeps_cases fdks; use 1 in simp)
  qed
  show "keeps fdk (isdirempty_loop dp offs de)"
  proof (induction dp offs de rule: isdirempty_loop.induct)
    case (1 dp offs de)
    show ?case by (subst isdirempty_loop.simps) (intro fdk_rules keeps_cases fdks; use 1 in simp)
  qed
qed

lemma fdk_dir [fdks]: "keeps fdk (inode_dirlookup dp name)" "keeps fdk (isdirempty dp)"
  unfolding inode_dirlookup_def isdirempty_def by (intro fdk_rules keeps_cases fdks)+

lemma fdk_add [fdks]: "keeps fdk (inode_add_directory_entry dp name num)"
  unfolding inode_add_directory_entry_def by (intro fdk_rules keeps_cases fdks)

lemma fdk_walk [fdks]: "keeps fdk (path_walk np cap ip path)"
proof (induction np cap ip path rule: path_walk.induct)
  case (1 np cap ip path)
  show ?case by (subst path_walk.simps) (intro fdk_rules keeps_cases fdks; use 1 in simp)
qed

lemma fdk_paths [fdks]: "keeps fdk (inode_namei path)" "keeps fdk (inode_nameiparent path cap)"
  unfolding inode_namei_def inode_nameiparent_def inode_path2inode_def by (intro fdk_rules keeps_cases fdks)+

lemma fdk_names [fdks]: "keeps fdk (create path typ dev)" "keeps fdk (fs_link old new)" "keeps fdk (fs_unlink path)"
  unfolding create_def fs_link_def fs_unlink_def by (intro fdk_rules keeps_cases fdks)+

section \<open>Counting descriptors\<close>

text \<open>The descriptors, over all threads, that point to an entry of the file table.\<close>

definition refs :: "fsst \<Rightarrow> nat \<Rightarrow> (nat \<times> nat) set" where
  "refs s f = {(t, d). fds s t d = Some f}"

definition fd_inv :: "fsst \<Rightarrow> bool" where
  "fd_inv s = (\<forall>f. finite (refs s f) \<and> f_count (files s f) = int (card (refs s f)))"

lemma fd_inv_fdk: "fdk s s' \<Longrightarrow> fd_inv s \<Longrightarrow> fd_inv s'"
  by (simp add: fdk_def fd_inv_def refs_def)

lemma refs_set:
  "refs (s\<lparr>fds := (fds s)(t := (fds s t)(d := Some g))\<rparr>) f =
     (if f = g then insert (t, d) (refs s f) else refs s f - {(t, d)})"
  "refs (s\<lparr>fds := (fds s)(t := (fds s t)(d := None))\<rparr>) f = refs s f - {(t, d)}"
  by (auto simp: refs_def split: if_splits)

lemma alloc_fd_loop_Some: "alloc_fd_loop t xs = Some d \<Longrightarrow> d \<in> set xs \<and> t d = None"
  by (induction t xs rule: alloc_fd_loop.induct) (auto split: if_splits)

section \<open>The calls\<close>

text \<open>Calls that only move the offset of an open file.\<close>

definition fdc :: "fsst \<Rightarrow> fsst \<Rightarrow> bool" where
  "fdc s s' = (fds s' = fds s \<and> cur s' = cur s \<and> (\<forall>f. f_count (files s' f) = f_count (files s f)))"

lemma fdc_po: "reflp fdc" "transp fdc"
  by (auto simp: fdc_def intro: reflpI transpI)

lemmas fdc_rules = keeps_refl [OF fdc_po(1)] keeps_mbind [OF fdc_po(2)] keeps_mthen [OF fdc_po(2)] keeps_if

lemma fdk_fdc: "keeps fdk m \<Longrightarrow> keeps fdc m"
  by (auto simp: keeps_def fdk_def fdc_def)

lemma fd_inv_fdc: "fdc s s' \<Longrightarrow> fd_inv s \<Longrightarrow> fd_inv s'"
  by (simp add: fdc_def fd_inv_def refs_def)

lemma fdk_port [fdks]: "keeps fdk (port_in p)" "keeps fdk (port_out p v)"
  by (auto simp: keeps_def mrun fdk_def)

lemma fdk_console [fdks]: "keeps fdk (call_read fn n)" "keeps fdk (call_write fn src n)"
proof -
  have "keeps fdk (console_read_loop k dst)" for k dst
    by (induction k arbitrary: dst) (auto intro!: fdk_rules fdks)
  moreover have "keeps fdk (console_write_loop k src)" for k src
    by (induction k arbitrary: src) (auto split: list.split intro!: fdk_rules fdks)
  ultimately show "keeps fdk (call_read fn n)" "keeps fdk (call_write fn src n)"
    unfolding call_read_def call_write_def x64_console_read_def x64_console_write_def
    by (cases fn; auto split: devfn.split intro!: fdk_rules keeps_cases)+
qed

lemma fdc_upd_file: "(\<And>fp. f_count (g fp) = f_count fp) \<Longrightarrow> keeps fdc (upd_file f g)"
  by (auto simp: keeps_def mrun fdc_def)

lemmas fdcs = fdks [THEN fdk_fdc]

lemma fdc_file [fdks]: "keeps fdk (fd_file_stat f)"
  unfolding fd_file_stat_def by (intro fdk_rules keeps_cases fdks)

lemma fdc_rdwr: "keeps fdc (fd_file_read f n)" "keeps fdc (fd_file_write f src n)"
  unfolding fd_file_read_def fd_file_write_def
  by (intro fdc_rules keeps_cases fdcs fdc_upd_file; simp)+

lemma keeps_with_fd: "reflp R \<Longrightarrow> transp R \<Longrightarrow> (\<And>f. keeps R (k f)) \<Longrightarrow> keeps R (with_fd fd e1 e2 k)"
  unfolding with_fd_def by (intro keeps_refl keeps_if keeps_mbind keeps_case_option; simp)

lemma fdc_calls:
  "keeps fdc (fs_read fd n)" "keeps fdc (fs_write fd src n)" "keeps fdc (fs_lseek fd offs whence)" "keeps fdc (fs_fstat fd)"
  unfolding fs_read_def fs_write_def fs_lseek_def fs_fstat_def
  by (intro keeps_with_fd fdc_po fdc_rules keeps_cases fdcs fdc_rdwr fdc_upd_file fdk_fdc [OF fdc_file]; simp)+

lemma fdtable_alloc_loop:
  assumes "runs (mfor xs (\<lambda>i. mbind (get_file i) (\<lambda>f.
      if f_count f = 0 then mthen (upd_file i (\<lambda>f. f\<lparr>f_count := 1\<rparr>)) (mret (Some i)) else mret None))) s r s'"
  shows "case r of None \<Rightarrow> s' = s | Some f \<Rightarrow>
    f_count (files s f) = 0 \<and> s' = s\<lparr>files := (files s)(f := (files s f)\<lparr>f_count := 1\<rparr>)\<rparr>"
  using assms by (induction xs arbitrary: s) (auto simp: mrun split: if_splits option.splits)

lemma fdtable_alloc_run:
  assumes "runs fdtable_alloc_new_fd s r s'"
  shows "case r of None \<Rightarrow> fdk s s' | Some f \<Rightarrow> f_count (files s f) = 0 \<and> fds s' = fds s \<and> cur s' = cur s \<and>
    files s' = (files s)(f := (files s f)\<lparr>f_count := 1\<rparr>)"
  using assms unfolding fdtable_alloc_new_fd_def runs_mthen runs_mbind
  by (auto dest!: fdtable_alloc_loop simp: mrun fdk_def split: option.splits)

lemma alloc_new_fd_run:
  assumes "runs (alloc_new_fd f) s fd s'"
  shows "fd < 0 \<and> s' = s \<or> (\<exists>d. fd = int d \<and> d < THR_FDS_NR \<and> fds s (cur s) d = None \<and>
    s' = s\<lparr>fds := (fds s)(cur s := (fds s (cur s))(d := Some f))\<rparr>)"
  using assms unfolding alloc_new_fd_def set_fd_def
  by (auto simp: mrun split: option.splits dest: alloc_fd_loop_Some)

lemma fd_close_run:
  assumes "runs (fdtable_close_fd f) s u s'"
  shows "fds s' = fds s \<and> cur s' = cur s \<and>
    files s' = (files s)(f := (files s f)\<lparr>f_count := f_count (files s f) - 1\<rparr>)"
proof -
  define t where "t = s\<lparr>held := insert MFd (held s), files := (files s)(f := (files s f)\<lparr>f_count := f_count (files s f) - 1\<rparr>)\<rparr>"
  have "keeps fdk (mbind (get_file f) (\<lambda>fp. mthen (mwhen (\<not> 0 < f_count fp)
      (mthen (massert (f_count fp = 0)) (mbind (deref (f_inode fp)) inode_put))) (frelease MFd)))"
    by (intro fdk_rules fdks)
  moreover have "runs (mbind (get_file f) (\<lambda>fp. mthen (mwhen (\<not> 0 < f_count fp)
      (mthen (massert (f_count fp = 0)) (mbind (deref (f_inode fp)) inode_put))) (frelease MFd))) t u s'"
    using assms unfolding fdtable_close_fd_def t_def
    by (simp add: runs_mthen [of "fhold MFd"] runs_fhold runs_mbind [of "get_file f"] runs_fget
        runs_mthen [of "massert _"] runs_massert runs_mthen [of "upd_file _ _"] runs_upd)
  ultimately have "fdk t s'" by (rule keepsD)
  then show ?thesis by (simp add: fdk_def t_def)
qed

section \<open>Sequences of calls\<close>

datatype fscall =
    Open "u8 list" u32 | Dup int | Read int u64 | Write int "u8 list" u64 | Close int
  | Link "u8 list" "u8 list" | Unlink "u8 list" | Seek int u64 u32 | Stat int

fun fs_call :: "fscall \<Rightarrow> unit fsm" where
  "fs_call (Open path omode) = mthen (fs_open path omode) (mret ())"
| "fs_call (Dup fd) = mthen (fs_dup fd) (mret ())"
| "fs_call (Read fd n) = mthen (fs_read fd n) (mret ())"
| "fs_call (Write fd src n) = mthen (fs_write fd src n) (mret ())"
| "fs_call (Close fd) = mthen (fs_close fd) (mret ())"
| "fs_call (Link old new) = mthen (fs_link old new) (mret ())"
| "fs_call (Unlink path) = mthen (fs_unlink path) (mret ())"
| "fs_call (Seek fd offs whence) = mthen (fs_lseek fd offs whence) (mret ())"
| "fs_call (Stat fd) = mthen (fs_fstat fd) (mret ())"

text \<open>The start-up of \<^verbatim>\<open>kern/main.c\<close> for the file system.\<close>

definition fs_init :: "unit fsm" where
  "fs_init = mthen devsw_init (mthen buffer_cache_init (mthen inode_cache_init fdtable_init))"

text \<open>
  The states after start-up: threads take turns and make calls; in between, devices and what lies in
  uninitialised memory may be anything.
\<close>

inductive fsreach :: "fsst \<Rightarrow> bool" where
  boot: "runs fs_init (fs0 im p) () s \<Longrightarrow> fsreach s"
| call: "fsreach s \<Longrightarrow> runs (fs_call c) s () s' \<Longrightarrow> fsreach s'"
| switch: "fsreach s \<Longrightarrow> fsreach (s\<lparr>cur := t\<rparr>)"
| world: "fsreach s \<Longrightarrow> fsreach (s\<lparr>drvs := d, img := im, prt := p, junk_de := de, junk_cnt := n\<rparr>)"

lemma with_fd_run:
  assumes "runs (with_fd fd e1 e2 k) s r s'"
  shows "s' = s \<or> (\<exists>f. fds s (cur s) (nat fd) = Some f \<and> runs (k f) s r s')"
  using assms unfolding with_fd_def by (cases "fds s (cur s) (nat fd)") (auto simp: mrun split: if_splits)

lemma fd_inv_dup:
  assumes I: "fd_inv s" and r: "runs (fs_dup fd) s r s'"
  shows "fd_inv s'"
proof (cases "s' = s")
  case False
  then obtain f d where f: "fds s (cur s) d = None"
      "fds s' = (fds s)(cur s := (fds s (cur s))(d := Some f))"
      "files s' = (files s)(f := (files s f)\<lparr>f_count := f_count (files s f) + 1\<rparr>)"
  proof -
    obtain f where f: "runs (mbind (alloc_new_fd f) (\<lambda>new_fd. if new_fd < 0 then mret new_fd
        else mthen (fdtable_duplicate_fd f) (mret new_fd))) s r s'"
      using with_fd_run [OF r [unfolded fs_dup_def]] False by auto
    then obtain fd t where t: "runs (alloc_new_fd f) s fd t"
        "runs (if fd < 0 then mret fd else mthen (fdtable_duplicate_fd f) (mret fd)) t r s'" by (auto simp: runs_mbind)
    from alloc_new_fd_run [OF t(1)] show ?thesis
    proof (elim disjE exE conjE)
      assume "fd < 0" "t = s"
      then show ?thesis using t(2) False by (simp add: mrun)
    next
      fix d assume d: "fd = int d" "fds s (cur s) d = None" "t = s\<lparr>fds := (fds s)(cur s := (fds s (cur s))(d := Some f))\<rparr>"
      obtain x where "runs (fdtable_duplicate_fd f) t x s'" using t(2) d(1) by (auto simp: runs_mthen runs_mret)
      then have "fds s' = fds t \<and> files s' = (files t)(f := (files t f)\<lparr>f_count := f_count (files t f) + 1\<rparr>)"
        by (simp add: fdtable_duplicate_fd_def mrun)
      then show ?thesis using d by (intro that [of d f]) simp_all
    qed
  qed
  have "refs s' g = (if g = f then insert (cur s, d) (refs s g) else refs s g)" for g
    using f(1,2) by (auto simp: refs_def split: if_splits)
  moreover have "(cur s, d) \<notin> refs s f" using f(1) by (simp add: refs_def)
  ultimately show ?thesis using I f(3) by (auto simp: fd_inv_def)
qed (simp add: I)

lemma fd_inv_close:
  assumes I: "fd_inv s" and r: "runs (fs_close fd) s r s'"
  shows "fd_inv s'"
proof (cases "s' = s")
  case False
  then obtain f where f: "fds s (cur s) (nat fd) = Some f"
      "fds s' = (fds s)(cur s := (fds s (cur s))(nat fd := None))"
      "files s' = (files s)(f := (files s f)\<lparr>f_count := f_count (files s f) - 1\<rparr>)"
  proof -
    obtain f where f: "fds s (cur s) (nat fd) = Some f" "runs (mthen (set_fd (nat fd) None) (mthen (fdtable_close_fd f) (mret 0))) s r s'"
      using with_fd_run [OF r [unfolded fs_close_def]] False by auto
    then obtain u where "runs (fdtable_close_fd f) (s\<lparr>fds := (fds s)(cur s := (fds s (cur s))(nat fd := None))\<rparr>) u s'"
      by (auto simp: runs_mthen runs_mret set_fd_def runs_mmod)
    from fd_close_run [OF this] f(1) show ?thesis by (intro that [of f]) simp_all
  qed
  have "refs s' g = refs s g - {(cur s, nat fd)}" for g
    using f(2) by (auto simp: refs_def split: if_splits)
  moreover have "(cur s, nat fd) \<in> refs s g \<longleftrightarrow> g = f" for g using f(1) by (auto simp: refs_def)
  moreover have "card (refs s f) \<noteq> 0" using I calculation(2) by (auto simp: fd_inv_def card_eq_0_iff)
  ultimately show ?thesis using I f(3) by (auto simp: fd_inv_def card_Diff_singleton_if of_nat_diff)
qed (simp add: I)

text \<open>The end of \<^verbatim>\<open>fs_open\<close>, once an entry of the file table is taken.\<close>

lemma fd_inv_install:
  assumes I: "fd_inv t" and f: "f_count (files t f) = 0" "fds t1 = fds t" "cur t1 = cur t"
      "files t1 = (files t)(f := (files t f)\<lparr>f_count := 1\<rparr>)"
    and P: "keeps fdk put_out" and g: "\<And>fp. f_count (g fp) = f_count fp"
    and r: "runs (mbind (alloc_new_fd f) (\<lambda>fd. if fd < 0 then mthen (fdtable_close_fd f) put_out
      else mthen (inode_unlock ip) (mthen (upd_file f g) (mret fd)))) t1 r s'"
  shows "fd_inv s'"
proof -
  obtain fd t2 where n: "runs (alloc_new_fd f) t1 fd t2" and c: "runs (if fd < 0 then mthen (fdtable_close_fd f) put_out
      else mthen (inode_unlock ip) (mthen (upd_file f g) (mret fd))) t2 r s'"
    using r by (auto simp: runs_mbind)
  have e: "refs t f = {}" using I f(1) by (auto simp: fd_inv_def card_eq_0_iff)
  show ?thesis
  proof (cases "fd < 0")
    case True
    then have "t2 = t1" using alloc_new_fd_run [OF n] by auto
    then obtain t3 where 3: "runs (fdtable_close_fd f) t1 () t3" "runs put_out t3 r s'"
      using c True by (auto simp: runs_mthen [of "fdtable_close_fd f"])
    have "fd_inv t3" using I f fd_close_run [OF 3(1)] by (simp add: fd_inv_def refs_def)
    then show ?thesis using fd_inv_fdk [OF keepsD [OF P 3(2)]] by simp
  next
    case False
    then obtain d where d: "fds t (cur t) d = None" "t2 = t1\<lparr>fds := (fds t)(cur t := (fds t (cur t))(d := Some f))\<rparr>"
      using alloc_new_fd_run [OF n] f(2,3) by auto
    obtain u t3 where 3: "runs (inode_unlock ip) t2 u t3" "s' = t3\<lparr>files := (files t3)(f := g (files t3 f))\<rparr>"
      using c False by (auto simp: mrun)
    have k: "fdk t2 t3" by (rule keepsD [OF fdk_ref(4) 3(1)])
    have "refs s' h = (if h = f then insert (cur t, d) (refs t h) else refs t h)" for h
      using k 3(2) d by (auto simp: refs_def fdk_def split: if_splits)
    moreover have "f_count (files s' h) = (if h = f then 1 else f_count (files t h))" for h
      using k 3(2) d(2) f(4) g by (simp add: fdk_def)
    ultimately show ?thesis using I e by (simp add: fd_inv_def)
  qed
qed

lemma fd_inv_open:
  assumes I: "fd_inv s" and r: "runs (fs_open path omode) s r s'"
  shows "fd_inv s'"
proof -
  let ?put = "\<lambda>ip. mthen (inode_unlock ip) (mthen (inode_put ip) (mret (- 1 :: int)))"
  have P: "keeps fdk (?put ip)" for ip by (intro fdk_rules fdks)
  define lookup where "lookup = (if omode AND O_CREATE \<noteq> 0
    then mbind (create path FS_IMODE_FILE ROOT_DEV) (\<lambda>r. mret (map_option (\<lambda>ip. (ip, False)) r))
    else mbind (inode_namei path) (\<lambda>r. case r of None \<Rightarrow> mret None | Some ip \<Rightarrow>
      mthen (inode_lock ip)
      (mbind (get_inode ip) (\<lambda>i. mret (Some (ip, i_mode i = FS_IMODE_DIR \<and> omode \<noteq> O_RDONLY))))))"
  have L: "keeps fdk lookup" unfolding lookup_def by (intro fdk_rules keeps_cases fdks)
  obtain x t where x: "runs lookup s x t" and y: "runs (case x of None \<Rightarrow> mret (- 1) | Some (ip, refuse) \<Rightarrow>
       if refuse then ?put ip
       else mbind fdtable_alloc_new_fd (\<lambda>r. case r of None \<Rightarrow> ?put ip | Some f \<Rightarrow>
         mbind (alloc_new_fd f) (\<lambda>fd.
           if fd < 0 then mthen (fdtable_close_fd f) (?put ip)
           else mthen (inode_unlock ip)
             (mthen (upd_file f (\<lambda>fp. fp\<lparr>f_inode := Some ip, f_offset := 0, f_flags := omode\<rparr>)) (mret fd))))) t r s'"
    using r unfolding fs_open_def Let_def lookup_def [symmetric] runs_mbind by blast
  have It: "fd_inv t" using fd_inv_fdk [OF keepsD [OF L x] I] .
  consider "x = None" | ip where "x = Some (ip, True)" | ip where "x = Some (ip, False)" by (cases x) auto
  then show ?thesis
  proof cases
    case 1
    then show ?thesis using y It by (simp add: mrun)
  next
    case 2
    then show ?thesis using y fd_inv_fdk [OF keepsD [OF P] It] by simp
  next
    case 3
    then obtain a t1 where a: "runs fdtable_alloc_new_fd t a t1" and b: "runs (case a of None \<Rightarrow> ?put ip | Some f \<Rightarrow>
       mbind (alloc_new_fd f) (\<lambda>fd.
         if fd < 0 then mthen (fdtable_close_fd f) (?put ip)
         else mthen (inode_unlock ip)
           (mthen (upd_file f (\<lambda>fp. fp\<lparr>f_inode := Some ip, f_offset := 0, f_flags := omode\<rparr>)) (mret fd)))) t1 r s'"
      using y by (auto simp: runs_mbind)
    show ?thesis
    proof (cases a)
      case None
      then have "fd_inv t1" using fdtable_alloc_run [OF a] fd_inv_fdk It by auto
      then show ?thesis using b None fd_inv_fdk [OF keepsD [OF P]] by simp
    next
      case (Some f)
      then show ?thesis using fdtable_alloc_run [OF a] b by (intro fd_inv_install [OF It _ _ _ _ P]) auto
    qed
  qed
qed

lemma fd_inv_call:
  assumes I: "fd_inv s" and r: "runs (fs_call c) s () s'"
  shows "fd_inv s'"
proof (cases c)
  case (Open p m)
  then show ?thesis using r fd_inv_open [OF I] by (auto simp: mrun)
next
  case (Dup d)
  then show ?thesis using r fd_inv_dup [OF I] by (auto simp: mrun)
next
  case (Close d)
  then show ?thesis using r fd_inv_close [OF I] by (auto simp: mrun)
next
  case (Link x y)
  then show ?thesis using r fd_inv_fdk [OF keepsD [OF fdk_names(2)] I] by (auto simp: mrun)
next
  case (Unlink x)
  then show ?thesis using r fd_inv_fdk [OF keepsD [OF fdk_names(3)] I] by (auto simp: mrun)
next
  case (Read d n)
  then show ?thesis using r fd_inv_fdc [OF keepsD [OF fdc_calls(1)] I] by (auto simp: mrun)
next
  case (Write d x n)
  then show ?thesis using r fd_inv_fdc [OF keepsD [OF fdc_calls(2)] I] by (auto simp: mrun)
next
  case (Seek d n w)
  then show ?thesis using r fd_inv_fdc [OF keepsD [OF fdc_calls(3)] I] by (auto simp: mrun)
next
  case (Stat d)
  then show ?thesis using r fd_inv_fdc [OF keepsD [OF fdc_calls(4)] I] by (auto simp: mrun)
qed

section \<open>Start-up\<close>

lemma inode_cache_init_ok:
  "\<exists>s'. runs inode_cache_init s () s' \<and> files s' = files s \<and> fds s' = fds s \<and> held s' \<subseteq> held s \<and> (\<forall>a < NINODE. inodes s' a = inode0) \<and>
    bc s' = bc s \<and> bufs s' = bufs s \<and> drvs s' = drvs s \<and> img s' = img s \<and> cur s' = cur s"
proof -
  have "\<exists>s'. runs (mfor_each [0..<NINODE] (\<lambda>i. mthen (upd_inode i (\<lambda>_. inode0)) (mmod (wqs_update (\<lambda>w. w(WqInode i := []))))))
      (held_update (\<lambda>h. h - {MIc}) s) () s' \<and> (files s' = files s \<and> fds s' = fds s \<and> held s' \<subseteq> held s \<and> (\<forall>a < NINODE. inodes s' a = inode0) \<and>
      bc s' = bc s \<and> bufs s' = bufs s \<and> drvs s' = drvs s \<and> img s' = img s \<and> cur s' = cur s)"
    by (rule runs_mfor_each_upt [where P = "\<lambda>n t. files t = files s \<and> fds t = fds s \<and> held t \<subseteq> held s \<and> (\<forall>a < n. inodes t a = inode0) \<and>
        bc t = bc s \<and> bufs t = bufs s \<and> drvs t = drvs s \<and> img t = img s \<and> cur t = cur s"]) (auto simp: mrun)
  then show ?thesis unfolding inode_cache_init_def mutex_init_fs_def by (auto simp: mrun)
qed

lemma fdtable_init_ok:
  "\<exists>s'. runs fdtable_init s () s' \<and> fds s' = fds s \<and> (\<forall>f < MAX_FD_TABLE_SIZE. files s' f = file0) \<and>
    (\<forall>f \<ge> MAX_FD_TABLE_SIZE. files s' f = files s f) \<and> held s' \<subseteq> held s \<and> inodes s' = inodes s \<and>
    bc s' = bc s \<and> bufs s' = bufs s \<and> drvs s' = drvs s \<and> img s' = img s \<and> cur s' = cur s"
proof -
  have "\<exists>s'. runs (mfor_each [0..<MAX_FD_TABLE_SIZE] (\<lambda>i. upd_file i (\<lambda>f. f\<lparr>f_flags := 0, f_count := 0, f_inode := None, f_offset := 0\<rparr>)))
      (held_update (\<lambda>h. h - {MFd}) s) () s' \<and> (fds s' = fds s \<and> (\<forall>f < MAX_FD_TABLE_SIZE. files s' f = file0) \<and>
      (\<forall>f \<ge> MAX_FD_TABLE_SIZE. files s' f = files s f) \<and> held s' \<subseteq> held s \<and> inodes s' = inodes s \<and>
      bc s' = bc s \<and> bufs s' = bufs s \<and> drvs s' = drvs s \<and> img s' = img s \<and> cur s' = cur s)"
    by (rule runs_mfor_each_upt [where P = "\<lambda>i t. fds t = fds s \<and> (\<forall>f < i. files t f = file0) \<and>
        (\<forall>f \<ge> i. files t f = files s f) \<and> held t \<subseteq> held s \<and> inodes t = inodes s \<and>
        bc t = bc s \<and> bufs t = bufs s \<and> drvs t = drvs s \<and> img t = img s \<and> cur t = cur s"]) (auto simp: mrun file0_def less_Suc_eq)
  then show ?thesis unfolding fdtable_init_def mutex_init_fs_def by (auto simp: mrun)
qed

text \<open>Start-up followed by the driver of the memory disk, which \<^verbatim>\<open>hal_kernel_init\<close> registers.\<close>

definition fs_boot :: "unit fsm" where
  "fs_boot = mthen fs_init (mthen memide_init (mret ()))"

lemma buffer_cache_frame:
  assumes "bc s' = bc s" "bufs s' = bufs s"
  shows "bc_ring (bc s') = bc_ring (bc s)" "bufs_ok s' = bufs_ok s" "lent s' = lent s" "clean s' = clean s"
  using assms by (simp_all add: bufs_ok_def lent_def clean_def busy_def dirty_def holds_blk_def)

lemma fs_boot_ok:
  assumes "length im < 2 ^ 64"
  shows "\<exists>s. runs fs_boot (fs0 im p) () s \<and> bc_room 1023 s \<and> img s = im \<and> view s = disk_blk im \<and> held s = {} \<and>
    (\<forall>a < NINODE. inodes s a = inode0) \<and> files s = (\<lambda>_. file0) \<and> fds s = (\<lambda>_ _. None) \<and> cur s = 0"
proof -
  obtain s1 where 1: "runs devsw_init (fs0 im p) () s1" "held s1 = {}" "drvs s1 = (\<lambda>_. drv0)" "bufs s1 = (\<lambda>_. buf0)"
      "img s1 = im" "files s1 = (\<lambda>_. file0)" "fds s1 = (\<lambda>_ _. None)" "cur s1 = 0"
    using devsw_init_ok [of "fs0 im p"] by (auto simp: fs0_def)
  have "\<And>b. b_flags (bufs s1 b) = 0 \<and> length (b_data (bufs s1 b)) = BSIZE" using 1(4) by (simp add: buf0_def)
  from buffer_cache_init_ok [OF this] obtain s2 where
    2: "runs buffer_cache_init s1 () s2" "bc_ring (bc s2)" "bufs_ok s2" "lent s2 = {}" "clean s2 = {..<NBUF}"
      "held s2 = {}" "drvs s2 = (\<lambda>_. drv0)" "img s2 = im" "files s2 = (\<lambda>_. file0)" "fds s2 = (\<lambda>_ _. None)" "cur s2 = 0"
    using 1 by auto
  obtain s3 where 3: "runs inode_cache_init s2 () s3" "files s3 = files s2" "fds s3 = fds s2" "held s3 = {}" "\<forall>a < NINODE. inodes s3 a = inode0"
      "bc s3 = bc s2" "bufs s3 = bufs s2" "drvs s3 = drvs s2" "img s3 = img s2" "cur s3 = cur s2"
    using inode_cache_init_ok [of s2] 2(6) by auto
  obtain s4 where 4: "runs fdtable_init s3 () s4" "fds s4 = fds s3" "\<forall>f < MAX_FD_TABLE_SIZE. files s4 f = file0"
      "\<forall>f \<ge> MAX_FD_TABLE_SIZE. files s4 f = files s3 f" "held s4 = {}" "inodes s4 = inodes s3"
      "bc s4 = bc s3" "bufs s4 = bufs s3" "drvs s4 = drvs s3" "img s4 = img s3" "cur s4 = cur s3"
    using fdtable_init_ok [of s3] 3(4) by auto
  have "files s4 f = file0" for f using 4(3,4) 2(9) 3(2) by (cases "f < MAX_FD_TABLE_SIZE") auto
  then have fl: "files s4 = (\<lambda>_. file0)" by blast
  have e: "bc s4 = bc s2" "bufs s4 = bufs s2" using 3 4 by simp_all
  note F = buffer_cache_frame [OF e]
  obtain d where 5: "runs memide_init s4 0 (s4\<lparr>drvs := d\<rparr>)" "bc_room 1023 (s4\<lparr>drvs := d\<rparr>)" "view (s4\<lparr>drvs := d\<rparr>) = disk_blk im"
    using memide_init_ok [of s4] F 2 3 4 assms by auto
  have "runs fs_boot (fs0 im p) () (s4\<lparr>drvs := d\<rparr>)"
    unfolding fs_boot_def fs_init_def
    by (rule runs_mthenI [OF runs_mthenI [OF 1(1) runs_mthenI [OF 2(1) runs_mthenI [OF 3(1) 4(1)]]] runs_mthenI [OF 5(1)]]) (simp add: runs_mret)
  then show ?thesis using 2 3 4 5(2,3) fl by (intro exI [of _ "s4\<lparr>drvs := d\<rparr>"]) simp
qed

lemma fs_init_ok: "\<exists>s. runs fs_init (fs0 im p) () s \<and> fds s = (\<lambda>_ _. None) \<and> files s = (\<lambda>_. file0)"
proof -
  obtain s1 where 1: "runs devsw_init (fs0 im p) () s1" "bufs s1 = (\<lambda>_. buf0)" "files s1 = (\<lambda>_. file0)" "fds s1 = (\<lambda>_ _. None)"
    using devsw_init_ok [of "fs0 im p"] by (auto simp: fs0_def)
  have "\<And>b. b_flags (bufs s1 b) = 0 \<and> length (b_data (bufs s1 b)) = BSIZE" using 1(2) by (simp add: buf0_def)
  from buffer_cache_init_ok [OF this] obtain s2 where 2: "runs buffer_cache_init s1 () s2" "files s2 = files s1" "fds s2 = fds s1"
    by auto
  obtain s3 where 3: "runs inode_cache_init s2 () s3" "files s3 = files s2" "fds s3 = fds s2"
    using inode_cache_init_ok [of s2] by auto
  obtain s4 where 4: "runs fdtable_init s3 () s4" "fds s4 = fds s3" "\<forall>f < MAX_FD_TABLE_SIZE. files s4 f = file0"
      "\<forall>f \<ge> MAX_FD_TABLE_SIZE. files s4 f = files s3 f"
    using fdtable_init_ok [of s3] by auto
  have "files s4 f = file0" for f using 4(3,4) 1(3) 2(2) 3(2) by (cases "f < MAX_FD_TABLE_SIZE") auto
  then have "files s4 = (\<lambda>_. file0)" by blast
  moreover have "runs fs_init (fs0 im p) () s4"
    unfolding fs_init_def by (rule runs_mthenI [OF 1(1) runs_mthenI [OF 2(1) runs_mthenI [OF 3(1) 4(1)]]])
  ultimately show ?thesis using 1 2 3 4 by auto
qed

text \<open>
  C14: In every state the file system calls of any number of threads reach, an entry of the file table
  counts exactly the descriptors, over all threads, that point to it; an entry is free when no
  descriptor points to it, so it is never given out while one still does.
\<close>

theorem fd_counts:
  "fsreach s \<Longrightarrow> finite (refs s f) \<and> f_count (files s f) = int (card (refs s f))"
proof -
  assume "fsreach s"
  then have "fd_inv s"
  proof induction
    case (boot im p s)
    then have "fds s = (\<lambda>_ _. None)" "files s = (\<lambda>_. file0)"
      using fs_init_ok [of im p] by (auto dest: runs_det)
    then show ?case by (simp add: fd_inv_def refs_def file0_def)
  next
    case (call s c s')
    then show ?case using fd_inv_call by blast
  qed (auto simp: fd_inv_def refs_def)
  then show ?thesis by (simp add: fd_inv_def)
qed

theorem fd_counts_witness: "\<exists>s. fsreach s \<and> f_count (files s 3) = int (card (refs s 3))"
proof -
  obtain s where "runs fs_init (fs0 [] p0) () s" using fs_init_ok by blast
  then have "fsreach s" by (rule fsreach.boot)
  then show ?thesis using fd_counts [of s 3] by blast
qed

end
