(* ===== verification/Kfileio.thy ===== *)
theory Kfileio
  imports Kinode
begin

text \<open>
  Reading and writing the bytes of a file through the buffer cache.  A byte of a file is the byte of
  the block its offset falls in; \<open>fbyte\<close> says so on the contents of the cache.  The theorems are for
  the direct blocks of files on the root device.
\<close>

section \<open>Offsets\<close>

lemma sint_small: "unat (w :: u64) < 2 ^ 63 \<Longrightarrow> sint w = int (unat w)"
proof -
  assume "unat w < 2 ^ 63"
  then have "int (unat w) < int (2 ^ 63)" by (simp only: of_nat_less_iff)
  then have "uint w < 2 ^ 63" by simp
  moreover have "- (2 ^ 63) \<le> uint w" by (rule order.trans [OF _ uint_nonnegative]) simp
  ultimately have "signed_take_bit 63 (uint w) = uint w" by (intro signed_take_bit_int_eq_self)
  then show ?thesis by (simp add: sint_uint)
qed

lemma signed_nat: "int n sdiv 512 = int (n div 512)" "int n smod 512 = int (n mod 512)"
  by (simp_all add: signed_divide_int_eq_divide_int smod_mod_positive sgn_if zdiv_int zmod_int)

lemma offs_split:
  assumes "unat offs < 2 ^ 63"
  shows "sdivw offs 512 = of_nat (unat offs div 512)" "smodw offs 512 = of_nat (unat offs mod 512)"
  unfolding sdivw_def smodw_def sint_small [OF assms] signed_nat by (simp_all only: of_int_of_nat_eq)

lemma unat_offs_mod: "unat (of_nat (unat (offs :: u64) mod 512) :: u64) = unat offs mod 512"
  by (simp add: unat_of_nat)

lemma turn_bytes_unat:
  assumes "unat offs < 2 ^ 63"
  shows "unat (turn_bytes offs remains) = min (512 - unat offs mod 512) (unat remains)"
proof -
  let ?m = "of_nat (unat offs mod 512) :: u64"
  have m: "unat ?m = unat offs mod 512" by (rule unat_offs_mod)
  then have "?m \<le> 512" by (simp add: word_le_nat_alt)
  then have r: "unat (512 - ?m) = 512 - unat offs mod 512" using m by (simp add: unat_sub)
  have "turn_bytes offs remains = (if 512 - ?m < remains then 512 - ?m else remains)"
    unfolding turn_bytes_def Let_def offs_split(2) [OF assms] ..
  then show ?thesis unfolding word_less_nat_alt r min_def by (auto simp only: if_distrib [of unat] r split: if_splits)
qed

section \<open>The blocks of a file\<close>

definition fbyte :: "fsst \<Rightarrow> inode \<Rightarrow> nat \<Rightarrow> u8" where
  "fbyte s i k = view s (i_addr i ! (k div BSIZE)) ! (k mod BSIZE)"

text \<open>The blocks of the offsets from \<open>a\<close> up to \<open>b\<close> are allocated direct blocks of the disk.\<close>

definition blocks_ok :: "fsst \<Rightarrow> inode \<Rightarrow> nat \<Rightarrow> nat \<Rightarrow> bool" where
  "blocks_ok s i a b = (\<forall>k. a \<le> k \<and> k < b \<longrightarrow> k div BSIZE < FS_IADDR_DIRECT_NR \<and>
     i_addr i ! (k div BSIZE) \<noteq> 0 \<and> in_img s (i_addr i ! (k div BSIZE)))"

lemma blocks_okD:
  assumes "blocks_ok s i a b" "a < b"
  shows "a div 512 < 12" "i_addr i ! (a div 512) \<noteq> 0" "in_img s (i_addr i ! (a div 512))"
  using assms by (auto simp: blocks_ok_def)

lemma blocks_ok_mono: "blocks_ok s i a b \<Longrightarrow> a \<le> a' \<Longrightarrow> b' \<le> b \<Longrightarrow> blocks_ok s i a' b'"
  by (auto simp: blocks_ok_def)

lemma blocks_ok_cong: "in_img s' = in_img s \<Longrightarrow> blocks_ok s' i a b = blocks_ok s i a b"
  by (simp add: blocks_ok_def)

lemma bmap_direct:
  assumes "j < FS_IADDR_DIRECT_NR" "i_addr (inodes s ip) ! j \<noteq> 0"
  shows "runs (bmap ip (of_nat j) b) s (i_addr (inodes s ip) ! j) s"
proof -
  have "unat (of_nat j :: u64) = j" using assms(1) by (simp add: unat_of_nat)
  moreover have "sint (of_nat j :: u64) = int j" using sint_small [of "of_nat j"] calculation assms(1) by simp
  ultimately show ?thesis using assms by (auto simp: bmap_def mrun Let_def)
qed

lemma length_view:
  assumes "bufs_ok s" "in_img s n"
  shows "length (view s n) = BSIZE"
proof (cases rule: view_cases [of s n])
  case (1 b)
  then show ?thesis using assms view_dirty [of s b n] by (simp add: bufs_ok_def)
next
  case 2
  then show ?thesis using view_disk [of s n] length_disk_blk [OF assms(2)] by simp
qed

lemma div_mod_add:
  assumes "k mod 512 + j < (512 :: nat)"
  shows "(k + j) div 512 = k div 512" "(k + j) mod 512 = k mod 512 + j"
proof -
  define q r where "q = k div 512" and "r = k mod 512"
  have "k = r + q * 512" by (simp add: q_def r_def)
  then have e: "k + j = (r + j) + q * 512" by simp
  have "r + j < 512" using assms by (simp add: r_def)
  then have "(k + j) div 512 = q" "(k + j) mod 512 = r + j" unfolding e by simp_all
  then show "(k + j) div 512 = k div 512" "(k + j) mod 512 = k mod 512 + j" by (simp_all add: q_def r_def)
qed

lemma view_bytes:
  assumes "bufs_ok s" "in_img s (i_addr i ! (k div 512))" "k mod 512 + n \<le> 512"
  shows "get_bytes n (view s (i_addr i ! (k div 512))) (k mod 512) = map (fbyte s i) [k..<k + n]"
proof (rule nth_equalityI)
  show "length (get_bytes n (view s (i_addr i ! (k div 512))) (k mod 512)) = length (map (fbyte s i) [k..<k + n])"
    using assms length_view [OF assms(1,2)] by (simp add: get_bytes_def)
  fix j assume "j < length (get_bytes n (view s (i_addr i ! (k div 512))) (k mod 512))"
  then have j: "j < n" "k mod 512 + j < 512" using assms(3) by (auto simp: get_bytes_def)
  then show "get_bytes n (view s (i_addr i ! (k div 512))) (k mod 512) ! j = map (fbyte s i) [k..<k + n] ! j"
    using j assms length_view [OF assms(1,2)] div_mod_add [OF j(2)] by (simp add: get_bytes_def fbyte_def)
qed

section \<open>Reading\<close>

lemma same_above_inode: "same_above s s' \<Longrightarrow> inodes s' = inodes s" "same_above s s' \<Longrightarrow> in_img s' = in_img s"
  by (auto simp: same_above_def in_img_def)

lemma turn_facts:
  assumes "unat offs + unat remains < 2 ^ 63" "remains \<noteq> 0"
  defines "n \<equiv> turn_bytes offs remains"
  shows "n \<noteq> 0" "unat (smodw offs 512) = unat offs mod 512" "unat offs mod 512 + unat n \<le> 512" "unat n \<le> unat remains"
    "unat (offs + n) = unat offs + unat n" "unat (remains - n) = unat remains - unat n"
    "unat n = min (512 - unat offs mod 512) (unat remains)"
proof -
  have o: "unat offs < 2 ^ 63" and r: "0 < unat remains" using assms by (auto simp: unat_gt_0)
  show n: "unat n = min (512 - unat offs mod 512) (unat remains)" unfolding n_def by (rule turn_bytes_unat [OF o])
  have m: "unat offs mod 512 < 512" by simp
  then show "n \<noteq> 0" using n r by auto
  show "unat offs mod 512 + unat n \<le> 512" "unat n \<le> unat remains" using n m by auto
  show "unat (smodw offs 512) = unat offs mod 512" unfolding offs_split(2) [OF o] by (rule unat_offs_mod)
  show "unat (offs + n) = unat offs + unat n" "unat (remains - n) = unat remains - unat n"
    using assms(1) n turn_bytes_le [of offs remains] by (auto simp: n_def unat_word_ariths unat_sub)
qed

text \<open>One turn of the loop, when the block is there.\<close>

lemma inode_read_turn:
  assumes r: "remains \<noteq> 0" "unat offs + unat remains < 2 ^ 63"
    and B: "unat offs div 512 < 12" "i_addr (inodes s ip) ! (unat offs div 512) \<noteq> 0" "i_dev (inodes s ip) = ROOT_DEV"
    and p: "runs (buffer_cache_blk_read ROOT_DEV (i_addr (inodes s ip) ! (unat offs div 512))) s b s1"
      "length (b_data (bufs s1 b)) = 512" "runs (buffer_cache_blk_release b) s1 () s2"
    and rest: "runs (inode_read_loop ip (offs + turn_bytes offs remains) (remains - turn_bytes offs remains)
      (dst @ get_bytes (unat (turn_bytes offs remains)) (b_data (bufs s1 b)) (unat offs mod 512))) s2 y t"
  shows "runs (inode_read_loop ip offs remains dst) s y t"
proof -
  have o: "unat offs < 2 ^ 63" using r by simp
  note T = turn_facts [OF r(2,1)]
  show ?thesis
    unfolding inode_read_loop.simps [of ip offs remains dst] offs_split(1) [OF o] Let_def get_inode_def get_buf_def
    by (subst if_not_P [OF r(1)], rule runs_mbindI [OF bmap_direct [OF B(1,2)]], rule runs_mgetI, unfold B(3),
        rule runs_mbindI [OF p(1)], rule runs_mthenI [where s' = s1], simp add: mrun turn_bytes_le, rule runs_mgetI,
        rule runs_mthenI [where s' = s1], simp add: mrun T p(2), rule runs_mthenI [OF p(3)])
      (use T(1,2) rest in simp)
qed

lemma inode_read_loop_ok:
  assumes "bc_room k s" "i_dev (inodes s ip) = ROOT_DEV" "unat offs + unat remains < 2 ^ 63"
    "blocks_ok s (inodes s ip) (unat offs) (unat offs + unat remains)"
  shows "\<exists>s'. runs (inode_read_loop ip offs remains dst) s
      (dst @ map (fbyte s (inodes s ip)) [unat offs..<unat offs + unat remains]) s' \<and>
    bc_room k s' \<and> view s' = view s \<and> same_above s s'"
  using assms
proof (induction ip offs remains dst arbitrary: s rule: inode_read_loop.induct)
  case (1 ip offs remains dst)
  let ?i = "inodes s ip" and ?o = "unat offs" and ?n = "turn_bytes offs remains"
  show ?case
  proof (cases "remains = 0")
    case True
    then show ?thesis using 1(2) by (subst inode_read_loop.simps) (auto simp: mrun intro!: exI [of _ s])
  next
    case False
    then have r: "?o < ?o + unat remains" by (simp add: unat_gt_0)
    note T = turn_facts [OF 1(4) False] and B = blocks_okD [OF 1(5) r]
    obtain b s1 s2 where p: "runs (buffer_cache_blk_read ROOT_DEV (i_addr ?i ! (?o div 512))) s b s1"
        "b_data (bufs s1 b) = view s (i_addr ?i ! (?o div 512))" "runs (buffer_cache_blk_release b) s1 () s2"
        "bc_room k s2" "view s2 = view s" "same_above s s2" by (rule peek_steps [OF 1(2) B(3)])
    have bok: "bufs_ok s" using 1(2) by (simp add: bc_room_def bc_inv_def)
    have i2: "inodes s2 = inodes s" "in_img s2 = in_img s" using same_above_inode [OF p(6)] by auto
    have fb: "fbyte s2 ?i = fbyte s ?i" by (simp add: fbyte_def fun_eq_iff p(5))
    have e: "unat (offs + ?n) + unat (remains - ?n) = ?o + unat remains" using T by simp
    have B': "blocks_ok s2 (inodes s2 ip) (unat (offs + ?n)) (unat (offs + ?n) + unat (remains - ?n))"
      unfolding i2(1) T(5,6) blocks_ok_cong [OF i2(2)] by (rule blocks_ok_mono [OF 1(5)]) (use T(4) in simp_all)
    let ?dst = "dst @ get_bytes (unat ?n) (b_data (bufs s1 b)) (?o mod 512)"
    have "\<exists>s'. runs (inode_read_loop ip (offs + ?n) (remains - ?n) ?dst) s2
        (?dst @ map (fbyte s ?i) [?o + unat ?n..<?o + unat remains]) s' \<and> bc_room k s' \<and> view s' = view s2 \<and> same_above s2 s'"
      using 1(1) [OF False refl T(1) p(4) _ _ B', of "bufs s1 b"] 1(3,4) T(4) unfolding fb i2(1) T(2,5,6) by simp
    then obtain s' where s': "runs (inode_read_loop ip (offs + ?n) (remains - ?n) ?dst) s2
        (?dst @ map (fbyte s ?i) [?o + unat ?n..<?o + unat remains]) s'" "bc_room k s'" "view s' = view s2" "same_above s2 s'"
      by blast
    have "runs (inode_read_loop ip offs remains dst) s (?dst @ map (fbyte s ?i) [?o + unat ?n..<?o + unat remains]) s'"
      by (rule inode_read_turn [OF False 1(4) B(1,2) 1(3) p(1) _ p(3) s'(1)]) (simp add: p(2) length_view [OF bok B(3)])
    moreover have "get_bytes (unat ?n) (b_data (bufs s1 b)) (?o mod 512) = map (fbyte s ?i) [?o..<?o + unat ?n]"
      unfolding p(2) by (rule view_bytes [OF bok B(3) T(3)])
    moreover have "[?o..<?o + unat remains] = [?o..<?o + unat ?n] @ [?o + unat ?n..<?o + unat remains]"
      using T(4) upt_add_eq_append [of ?o "?o + unat ?n" "unat remains - unat ?n"] by simp
    ultimately show ?thesis using s'(2,3) p(5) same_above_trans [OF p(6) s'(4)] by (intro exI [of _ s']) simp
  qed
qed

lemma blocks_ok_size:
  assumes "blocks_ok s i 0 z"
  shows "z \<le> 6144"
proof (rule ccontr)
  assume "\<not> z \<le> 6144"
  then have "6144 div 512 < (12 :: nat)" using assms unfolding blocks_ok_def by (metis leI zero_le)
  then show False by simp
qed

lemma inode_read_ok:
  assumes R: "bc_room k s" and i: "i = inodes s ip" "i_dev i = ROOT_DEV" "i_mode i \<noteq> FS_IMODE_DEV"
    and B: "blocks_ok s i 0 (unat (i_size i))" and o: "offs \<le> i_size i" "unat offs + unat counts < 2 ^ 64"
  defines "n \<equiv> min (unat counts) (unat (i_size i) - unat offs)"
  shows "\<exists>s'. runs (inode_read ip offs counts) s (of_nat n, map (fbyte s i) [unat offs..<unat offs + n]) s' \<and>
    view s' = view s \<and> same_above s s' \<and> bc_room k s'"
proof -
  have z: "unat (i_size i) \<le> 6144" by (rule blocks_ok_size [OF B])
  have ol: "unat offs \<le> unat (i_size i)" using o(1) by (simp add: word_le_nat_alt)
  have "unat (offs + counts) = unat offs + unat counts" using o(2) by (simp add: unat_word_ariths)
  then have c: "\<not> offs + counts < offs" "(i_size i < offs + counts) = (unat (i_size i) < unat offs + unat counts)"
    by (simp_all add: word_less_nat_alt)
  let ?c = "if i_size i < offs + counts then i_size i - offs else counts"
  have uc: "unat ?c = n" using c(2) ol o(1) by (auto simp: n_def unat_sub)
  have cn: "?c = of_nat n" unfolding uc [symmetric] by simp
  have nb: "unat offs + n \<le> unat (i_size i)" using ol by (simp add: n_def)
  obtain s' where s': "runs (inode_read_loop ip offs ?c []) s ([] @ map (fbyte s i) [unat offs..<unat offs + unat ?c]) s'"
      "bc_room k s'" "view s' = view s" "same_above s s'"
    using inode_read_loop_ok [of k s ip offs ?c "[]"] R i blocks_ok_mono [OF B, of "unat offs" "unat offs + unat ?c"] nb z uc by auto
  have "runs (inode_read ip offs counts) s (?c, map (fbyte s i) [unat offs..<unat offs + n]) s'"
    unfolding inode_read_def get_inode_def
    by (rule runs_mgetI, rule runs_mthenI [where s' = s], use i in \<open>simp add: mrun\<close>)
      (use s'(1) uc c o(1) i in \<open>auto simp: Let_def runs_mret not_less intro!: runs_mbindI [where s' = s']\<close>)
  then show ?thesis using s' cn by auto
qed


section \<open>Writing\<close>

text \<open>A file of \<open>z\<close> bytes: its blocks are there, and different offsets do not share a block by accident.\<close>

definition file_ok :: "fsst \<Rightarrow> inode \<Rightarrow> nat \<Rightarrow> bool" where
  "file_ok s i z = (blocks_ok s i 0 z \<and> (\<forall>j < z. \<forall>j' < z. i_addr i ! (j div BSIZE) = i_addr i ! (j' div BSIZE) \<longrightarrow>
     j div BSIZE = j' div BSIZE))"

text \<open>How many blocks a piece of a file touches.\<close>

definition nturns :: "nat \<Rightarrow> nat \<Rightarrow> nat" where
  "nturns a r = (if r = 0 then 0 else (a mod BSIZE + r + 511) div BSIZE)"

lemma nturns_turn:
  assumes "0 < r"
  shows "Suc (nturns (a + min (512 - a mod 512) r) (r - min (512 - a mod 512) r)) \<le> nturns a r"
proof (cases "512 - a mod 512 < r")
  case True
  define q m where "q = a div 512" and "m = a mod 512"
  have m: "m < 512" "a = q * 512 + m" by (simp_all add: q_def m_def)
  then have "(a + (512 - m)) mod 512 = 0" by simp
  then show ?thesis using True m(1) unfolding m_def [symmetric] nturns_def by (auto simp: m_def [symmetric])
next
  case False
  then show ?thesis using assms by (simp add: nturns_def)
qed

lemma bc_room_mono: "bc_room k s \<Longrightarrow> k' \<le> k \<Longrightarrow> bc_room k' s"
  by (auto simp: bc_room_def)

lemma nth_put_bytes:
  assumes "k + length bs \<le> length d" "i < length d"
  shows "put_bytes d k bs ! i = (if k \<le> i \<and> i < k + length bs then bs ! (i - k) else d ! i)"
  using assms by (auto simp: put_bytes_def nth_append)

lemma inode_write_turn:
  assumes r: "remains \<noteq> 0" "unat offs + unat remains < 2 ^ 63" "unat remains \<le> length src"
    and B: "unat offs div 512 < 12" "i_addr (inodes s ip) ! (unat offs div 512) \<noteq> 0" "i_dev (inodes s ip) = ROOT_DEV"
    and p: "runs (buffer_cache_blk_read ROOT_DEV (i_addr (inodes s ip) ! (unat offs div 512))) s b s1"
      "length (b_data (bufs s1 b)) = 512"
      "runs (buffer_cache_blk_write b) (s1\<lparr>bufs := (bufs s1)(b := (bufs s1 b)\<lparr>b_data :=
         put_bytes (b_data (bufs s1 b)) (unat offs mod 512) (take (unat (turn_bytes offs remains)) src)\<rparr>)\<rparr>) b s2"
      "runs (buffer_cache_blk_release b) s2 () s3"
    and rest: "runs (inode_write_loop ip (drop (unat (turn_bytes offs remains)) src) (offs + turn_bytes offs remains)
      (remains - turn_bytes offs remains)) s3 y t"
  shows "runs (inode_write_loop ip src offs remains) s y t"
proof -
  have o: "unat offs < 2 ^ 63" using r by simp
  note T = turn_facts [OF r(2,1)]
  have l: "unat (turn_bytes offs remains) \<le> length src" using T(4) r(3) by simp
  show ?thesis
    unfolding inode_write_loop.simps [of ip src offs remains] offs_split(1) [OF o] Let_def get_inode_def get_buf_def
    by (subst if_not_P [OF r(1)], rule runs_mbindI [OF bmap_direct [OF B(1,2)]], rule runs_mgetI, unfold B(3),
        rule runs_mbindI [OF p(1)], rule runs_mthenI [where s' = s1], simp add: mrun turn_bytes_le, rule runs_mgetI,
        rule runs_mthenI [where s' = s1], simp add: mrun T(2,3) p(2) l, subst if_not_P [OF T(1)],
        rule runs_mthenI [OF _ runs_mthenI [OF p(3) runs_mthenI [OF p(4) rest]]])
      (use T(2) in \<open>simp add: runs_upd\<close>)
qed

text \<open>The effect of one turn on the bytes of the file.\<close>

lemma fbyte_turn:
  assumes v: "view s3 = (view s)(i_addr i ! (a div 512) := put_bytes (view s (i_addr i ! (a div 512))) (a mod 512) bs)"
    and l: "length (view s (i_addr i ! (a div 512))) = 512" "a mod 512 + length bs \<le> 512"
    and F: "file_ok s i z" and a: "a < z" "j < z"
  shows "fbyte s3 i j = (if a \<le> j \<and> j < a + length bs then bs ! (j - a) else fbyte s i j)"
proof (cases "j div 512 = a div 512")
  case True
  then have e: "a \<le> j \<longleftrightarrow> a mod 512 \<le> j mod 512" "j < a + length bs \<longleftrightarrow> j mod 512 < a mod 512 + length bs"
    "j - a = j mod 512 - a mod 512"
  proof -
    define q am jm where "q = a div 512" and "am = a mod 512" and "jm = j mod 512"
    have "a = q * 512 + am" by (simp add: q_def am_def)
    moreover have "j = q * 512 + jm" unfolding q_def True [symmetric] jm_def by simp
    ultimately show "a \<le> j \<longleftrightarrow> a mod 512 \<le> j mod 512" "j < a + length bs \<longleftrightarrow> j mod 512 < a mod 512 + length bs"
      "j - a = j mod 512 - a mod 512" unfolding am_def [symmetric] jm_def [symmetric] by simp_all
  qed
  have "fbyte s3 i j = put_bytes (view s (i_addr i ! (a div 512))) (a mod 512) bs ! (j mod 512)"
    unfolding fbyte_def v True by simp
  also have "\<dots> = (if a mod 512 \<le> j mod 512 \<and> j mod 512 < a mod 512 + length bs then bs ! (j mod 512 - a mod 512)
      else view s (i_addr i ! (a div 512)) ! (j mod 512))"
    by (rule nth_put_bytes) (use l in simp_all)
  finally show ?thesis unfolding e by (simp add: fbyte_def True)
next
  case False
  then have "i_addr i ! (j div 512) \<noteq> i_addr i ! (a div 512)" using F a by (auto simp: file_ok_def)
  then have "fbyte s3 i j = fbyte s i j" by (simp add: fbyte_def v)
  moreover have "\<not> (a \<le> j \<and> j < a + length bs)"
  proof
    assume "a \<le> j \<and> j < a + length bs"
    then obtain d where "j = a + d" "d < length bs" by (metis add_less_cancel_left le_Suc_ex)
    then show False using False div_mod_add(1) [of a d] l(2) by simp
  qed
  ultimately show ?thesis by auto
qed

lemma inode_write_loop_ok:
  assumes "bc_room (k + nturns (unat offs) (unat remains)) s" "i_dev (inodes s ip) = ROOT_DEV" "z < 2 ^ 63"
    "unat offs + unat remains \<le> z" "file_ok s (inodes s ip) z" "unat remains \<le> length src"
  shows "\<exists>s'. runs (inode_write_loop ip src offs remains) s (offs + remains) s' \<and> bc_room k s' \<and> same_above s s' \<and>
    (\<forall>j < z. fbyte s' (inodes s ip) j =
       (if unat offs \<le> j \<and> j < unat offs + unat remains then src ! (j - unat offs) else fbyte s (inodes s ip) j)) \<and>
    (\<forall>m. m \<notin> (\<lambda>j. i_addr (inodes s ip) ! (j div BSIZE)) ` {unat offs..<unat offs + unat remains} \<longrightarrow> view s' m = view s m)"
  using assms
proof (induction ip src offs remains arbitrary: s rule: inode_write_loop.induct)
  case (1 ip src offs remains)
  let ?i = "inodes s ip" and ?o = "unat offs" and ?n = "turn_bytes offs remains"
  show ?case
  proof (cases "remains = 0")
    case True
    then show ?thesis using 1(2) by (subst inode_write_loop.simps) (auto simp: mrun nturns_def)
  next
    case False
    then have r: "?o < ?o + unat remains" "0 < unat remains" by (simp_all add: unat_gt_0)
    have sm: "unat offs + unat remains < 2 ^ 63" using 1(4,5) by simp
    note T = turn_facts [OF sm False]
    have bl: "blocks_ok s ?i ?o (?o + unat remains)" using blocks_ok_mono 1(5,6) unfolding file_ok_def by blast
    note B = blocks_okD [OF bl r(1)]
    let ?b = "i_addr ?i ! (?o div 512)" and ?bs = "take (unat ?n) src"
    have bok: "bufs_ok s" using 1(2) by (simp add: bc_room_def bc_inv_def)
    have lv: "length (view s ?b) = 512" by (rule length_view [OF bok B(3)])
    have lb: "length ?bs = unat ?n" using T(4) 1(7) by simp
    have ld: "length (put_bytes (view s ?b) (?o mod 512) ?bs) = 512"
      using fbytes.length_put [of "?o mod 512" "unat ?n" "view s ?b" ?bs] lv lb T(3) by simp
    have "Suc (nturns (?o + unat ?n) (unat remains - unat ?n)) \<le> nturns ?o (unat remains)"
      unfolding T(7) by (rule nturns_turn [OF r(2)])
    then have R: "bc_room (Suc (k + nturns (?o + unat ?n) (unat remains - unat ?n))) s"
      by (intro bc_room_mono [OF 1(2)]) simp
    obtain b s1 s2 s3 where p: "runs (buffer_cache_blk_read ROOT_DEV ?b) s b s1" "b_data (bufs s1 b) = view s ?b"
        "runs (buffer_cache_blk_write b) (s1\<lparr>bufs := (bufs s1)(b := (bufs s1 b)\<lparr>b_data := put_bytes (view s ?b) (?o mod 512) ?bs\<rparr>)\<rparr>) b s2"
        "runs (buffer_cache_blk_release b) s2 () s3" "bc_room (k + nturns (?o + unat ?n) (unat remains - unat ?n)) s3"
        "view s3 = (view s)(?b := put_bytes (view s ?b) (?o mod 512) ?bs)" "same_above s s3"
      by (rule poke_steps [OF R B(3) ld])
    have i3: "inodes s3 = inodes s" "in_img s3 = in_img s" using same_above_inode [OF p(7)] by auto
    have F3: "file_ok s3 ?i z" using 1(6) unfolding file_ok_def blocks_ok_cong [OF i3(2)] .
    have fb: "fbyte s3 ?i j = (if ?o \<le> j \<and> j < ?o + unat ?n then src ! (j - ?o) else fbyte s ?i j)" if "j < z" for j
      using fbyte_turn [OF p(6) lv _ 1(6) _ that] lb T(3) r 1(5) by (simp cong: if_cong) auto
    have "\<exists>s'. runs (inode_write_loop ip (drop (unat ?n) src) (offs + ?n) (remains - ?n)) s3 (offs + ?n + (remains - ?n)) s' \<and>
        bc_room k s' \<and> same_above s3 s' \<and>
        (\<forall>j < z. fbyte s' ?i j = (if ?o + unat ?n \<le> j \<and> j < ?o + unat remains then drop (unat ?n) src ! (j - (?o + unat ?n))
           else fbyte s3 ?i j)) \<and>
        (\<forall>m. m \<notin> (\<lambda>j. i_addr ?i ! (j div BSIZE)) ` {?o + unat ?n..<?o + unat remains} \<longrightarrow> view s' m = view s3 m)"
      using 1(1) [OF False refl T(1), of s3] p(5) 1(3-5,7) F3 T(4) unfolding i3(1) T(5,6) by simp
    then obtain s' where s': "runs (inode_write_loop ip (drop (unat ?n) src) (offs + ?n) (remains - ?n)) s3 (offs + remains) s'"
        "bc_room k s'" "same_above s3 s'"
        "\<And>j. j < z \<Longrightarrow> fbyte s' ?i j = (if ?o + unat ?n \<le> j \<and> j < ?o + unat remains then drop (unat ?n) src ! (j - (?o + unat ?n))
           else fbyte s3 ?i j)"
        "\<And>m. m \<notin> (\<lambda>j. i_addr ?i ! (j div BSIZE)) ` {?o + unat ?n..<?o + unat remains} \<Longrightarrow> view s' m = view s3 m" by auto
    have "runs (inode_write_loop ip src offs remains) s (offs + remains) s'"
      using p lv by (intro inode_write_turn [OF False sm 1(7) B(1,2) 1(3) p(1) _ _ p(4) s'(1)]) simp_all
    moreover have "fbyte s' ?i j = (if ?o \<le> j \<and> j < ?o + unat remains then src ! (j - ?o) else fbyte s ?i j)" if "j < z" for j
      unfolding s'(4) [OF that] fb [OF that] using T(4) 1(7) by (auto simp: nth_drop)
    moreover have "view s' m = view s m" if m: "m \<notin> (\<lambda>j. i_addr ?i ! (j div BSIZE)) ` {?o..<?o + unat remains}" for m
    proof -
      have "m \<noteq> ?b" using m r(1) by auto
      moreover have "m \<notin> (\<lambda>j. i_addr ?i ! (j div BSIZE)) ` {?o + unat ?n..<?o + unat remains}" using m by auto
      ultimately show ?thesis using s'(5) p(6) by simp
    qed
    ultimately show ?thesis using s'(2) same_above_trans [OF p(7) s'(3)] by blast
  qed
qed


section \<open>A file on a small disk\<close>

definition demo_inode :: inode where
  "demo_inode = inode0\<lparr>i_mode := FS_IMODE_FILE, i_dev := ROOT_DEV, i_size := 600, i_addr := [1, 2] @ replicate 14 0\<rparr>"

lemma bc_room_inodes: "bc_room k (s\<lparr>inodes := f\<rparr>) = bc_room k s"
  by (simp add: bc_room_def bc_inv_def bufs_ok_def disk_ready_def lent_def clean_def busy_def dirty_def holds_blk_def)

lemma view_inodes: "view (s\<lparr>inodes := f\<rparr>) = view s"
  by (auto simp: view_def dirty_def holds_blk_def fun_eq_iff split: option.split)

lemma demo_state:
  obtains s where "runs disk_init (fs0 (replicate 1536 7) p0) () s" "bc_room 1023 (s\<lparr>inodes := \<lambda>_. demo_inode\<rparr>)"
    "file_ok (s\<lparr>inodes := \<lambda>_. demo_inode\<rparr>) demo_inode 600" "\<forall>j < 600. fbyte (s\<lparr>inodes := \<lambda>_. demo_inode\<rparr>) demo_inode j = 7"
proof -
  obtain s where s: "runs disk_init (fs0 (replicate 1536 7) p0) () s" "bc_room 1023 s" "img s = replicate 1536 7"
      "view s = disk_blk (replicate 1536 7)"
    using disk_init_ok [of "replicate 1536 7" p0] by auto
  have d: "j div 512 = (if j < 512 then 0 else 1)" if "j < 600" for j :: nat using that by auto
  have A: "i_addr demo_inode ! (j div 512) = (if j < 512 then 1 else 2)" if "j < 600" for j
    unfolding d [OF that] by (simp add: demo_inode_def)
  have "blocks_ok (s\<lparr>inodes := \<lambda>_. demo_inode\<rparr>) demo_inode 0 600"
    using s(3) by (auto simp: blocks_ok_def d in_img_def demo_inode_def)
  moreover have "j div 512 = j' div 512" if "j < 600" "j' < 600" "i_addr demo_inode ! (j div 512) = i_addr demo_inode ! (j' div 512)" for j j'
    using that(3) unfolding d [OF that(1)] d [OF that(2)] by (auto simp: demo_inode_def split: if_splits)
  ultimately have "file_ok (s\<lparr>inodes := \<lambda>_. demo_inode\<rparr>) demo_inode 600" unfolding file_ok_def by blast
  moreover have "\<forall>j < 600. fbyte (s\<lparr>inodes := \<lambda>_. demo_inode\<rparr>) demo_inode j = 7"
    by (auto simp: fbyte_def view_inodes s(4) A disk_blk_def get_bytes_def)
  ultimately show ?thesis using that s by (auto simp: bc_room_inodes)
qed



end
