(* ===== verification/Kpath.thy ===== *)
theory Kpath
  imports Kfs Kfileio
begin

text \<open>
  Paths, the inode cache, and the calls on descriptors and directories on every branch.
\<close>

section \<open>The elements of a path\<close>

text \<open>The elements \<^verbatim>\<open>inode_path2inode\<close> walks along: \<^verbatim>\<open>skip_element\<close> until it finds none.\<close>

function path_elems :: "u8 list \<Rightarrow> u8 list list" where
  "path_elems path = (case skip_element path of None \<Rightarrow> [] | Some (e, path') \<Rightarrow> e # path_elems path')"
  by auto

termination by (relation "measure length") (auto dest: skip_element_less)

declare path_elems.simps [simp del]

definition slash :: u8 where
  "slash = 47"

fun path_of :: "(nat \<times> u8 list) list \<Rightarrow> nat \<Rightarrow> u8 list" where
  "path_of [] n = replicate n slash"
| "path_of ((k, e) # es) n = replicate (Suc k) slash @ e @ path_of es n"

lemma dropWhile_slashes: "dropWhile (\<lambda>c. c = 47) (replicate n slash @ xs) = dropWhile (\<lambda>c. c = 47) xs"
  by (induction n) (auto simp: slash_def)

lemma path_of_hd: "path_of es n = [] \<or> hd (path_of es n) = 47"
  by (cases es; cases n) (auto simp: slash_def)

lemma skip_path_of:
  assumes "e \<noteq> []" "47 \<notin> set e" "length e \<le> FNAME_MAX" "rest = [] \<or> hd rest = 47"
  shows "skip_element (replicate k slash @ e @ rest) = Some (e, dropWhile (\<lambda>c. c = 47) rest)"
proof -
  have d: "dropWhile (\<lambda>c. c = 47) (replicate k slash @ e @ rest) = e @ rest"
    using assms(1,2) unfolding dropWhile_slashes by (cases e) auto
  have t: "takeWhile (\<lambda>c. c \<noteq> 47) (e @ rest) = e" "dropWhile (\<lambda>c. c \<noteq> 47) (e @ rest) = rest"
    using assms(2,4) by (cases rest; auto simp: takeWhile_append dropWhile_append)+
  show ?thesis using assms(1,3) by (simp add: skip_element_def d t)
qed

lemma skip_slashes: "skip_element (dropWhile (\<lambda>c. c = 47) path) = skip_element path"
  by (simp add: skip_element_def)

lemma skip_None: "skip_element (replicate n slash) = None"
  using dropWhile_slashes [of n "[]"] by (simp add: skip_element_def)

text \<open>
  C24: Taking a path apart gives back its elements: however many slashes stand before the elements
  and at the end, the walk along a path sees exactly the names it is made of, in order.
\<close>

theorem path_roundtrip:
  assumes "\<forall>(k, e) \<in> set es. e \<noteq> [] \<and> 47 \<notin> set e \<and> length e \<le> FNAME_MAX"
  shows "path_elems (path_of es n) = map snd es"
  using assms
proof (induction es)
  case Nil
  then show ?case by (subst path_elems.simps) (simp add: skip_None)
next
  case (Cons a es)
  obtain k e where a: "a = (k, e)" by (cases a)
  have "skip_element (path_of (a # es) n) = Some (e, dropWhile (\<lambda>c. c = 47) (path_of es n))"
    using Cons.prems path_of_hd [of es n] skip_path_of [of e "path_of es n" "Suc k"] by (simp add: a)
  moreover have "path_elems (dropWhile (\<lambda>c. c = 47) (path_of es n)) = path_elems (path_of es n)"
    unfolding path_elems.simps [of "dropWhile _ _"] path_elems.simps [of "path_of es n"] skip_slashes ..
  ultimately show ?case using Cons by (subst path_elems.simps) (simp add: a)
qed

theorem path_roundtrip_witness:
  "path_elems [47, 47, 68, 69, 86, 47, 67, 79, 78, 47] = [[68, 69, 86], [67, 79, 78]]"
  using path_roundtrip [of "[(1, [68, 69, 86]), (0, [67, 79, 78])]" 1] by (simp add: slash_def)

section \<open>Bad descriptors\<close>

text \<open>
  C25: A call with a descriptor that is out of range returns \<^verbatim>\<open>-EINVAL\<close>, one with a descriptor that is
  not open returns \<^verbatim>\<open>-EBADF\<close>, and neither changes anything.
\<close>

theorem bad_descriptor:
  assumes "fd < 0 \<or> 32 \<le> fd \<or> fds s (cur s) (nat fd) = None"
  defines "e \<equiv> (if fd < 0 \<or> 32 \<le> fd then - EINVAL else - EBADF)"
  shows "fs_dup fd s = Ok (e, s) \<and> fs_read fd n s = Ok ((e, []), s) \<and> fs_write fd src n s = Ok (e, s) \<and>
    fs_close fd s = Ok (e, s) \<and> fs_lseek fd offs whence s = Ok (word_of_int e, s) \<and> fs_fstat fd s = Ok ((e, None), s)"
  using assms by (auto simp: fs_dup_def fs_read_def fs_write_def fs_close_def fs_lseek_def fs_fstat_def with_fd_def mexec)

theorem bad_descriptor_witness: "fs_close 3 (fs0 [] p0) = Ok (- EBADF, fs0 [] p0) \<and> fs_read 40 10 (fs0 [] p0) = Ok ((- EINVAL, []), fs0 [] p0)"
  using bad_descriptor [of 3 "fs0 [] p0"] bad_descriptor [of 40 "fs0 [] p0" 10] by (simp add: fs0_def)

section \<open>Removing directories\<close>

text \<open>
  C26: \<^verbatim>\<open>isdirempty\<close> stops the kernel on every directory that has an entry: its assertion asks for a short
  read where a full one succeeds.  Every directory \<^verbatim>\<open>create\<close> makes has two entries, so no directory can be
  removed.
\<close>

theorem isdirempty_never_returns:
  assumes "bc_room k s" "i_dev (inodes s ip) = ROOT_DEV" "i_mode (inodes s ip) = FS_IMODE_DIR"
    "blocks_ok s (inodes s ip) 0 (unat (i_size (inodes s ip)))" "64 \<le> unat (i_size (inodes s ip))"
  shows "isdirempty ip s = Stop Kassert"
proof -
  let ?i = "inodes s ip"
  have m: "min (unat (64 :: u64)) (unat (i_size ?i) - unat (0 :: u64)) = 64" using assms(5) by simp
  obtain bytes s' where r: "runs (inode_read ip 0 64) s (64, bytes) s'"
    using inode_read_ok [OF assms(1) refl assms(2) _ assms(4), of 0 64] assms(3) unfolding m by (auto simp: word_le_nat_alt)
  have "0 < i_size ?i" using assms(5) by (simp add: word_less_nat_alt)
  then show ?thesis
    using runsD [OF r] by (simp add: isdirempty_def isdirempty_loop.simps [of ip 0] mexec get_inode_def)
qed

theorem isdirempty_never_returns_witness: "\<exists>s. bc_room 1023 s \<and> i_mode (inodes s 0) = FS_IMODE_DIR \<and> isdirempty 0 s = Stop Kassert"
proof -
  obtain s where s: "bc_room 1023 (s\<lparr>inodes := \<lambda>_. demo_inode\<rparr>)" "file_ok (s\<lparr>inodes := \<lambda>_. demo_inode\<rparr>) demo_inode 600"
    by (rule demo_state)
  let ?i = "demo_inode\<lparr>i_mode := 1\<rparr>"
  let ?s = "s\<lparr>inodes := \<lambda>_. ?i\<rparr>"
  have "blocks_ok ?s ?i 0 (unat (i_size ?i))" using s(2) by (simp add: file_ok_def blocks_ok_def in_img_def demo_inode_def)
  moreover have "bc_room 1023 ?s" using s(1) by (simp add: bc_room_inodes)
  ultimately show ?thesis using isdirempty_never_returns [of 1023 ?s 0] by (auto simp: demo_inode_def intro!: exI [of _ ?s])
qed

section \<open>References to inodes\<close>

definition names :: "fsst \<Rightarrow> nat \<Rightarrow> u64 \<Rightarrow> u32 \<Rightarrow> bool" where
  "names s a dev num = (0 < iref (inodes s a) \<and> i_dev (inodes s a) = dev \<and> inum (inodes s a) = num)"

text \<open>No inode is in two slots of the cache.\<close>

definition icache_inv :: "fsst \<Rightarrow> bool" where
  "icache_inv s = (MIc \<notin> held s \<and> (\<forall>a < NINODE. 0 \<le> iref (inodes s a)) \<and>
     (\<forall>a < NINODE. \<forall>b < NINODE. \<forall>dev num. names s a dev num \<longrightarrow> names s b dev num \<longrightarrow> b = a))"

lemma inode_scan_eq:
  "inode_scan s dev num xs free =
     (case find (\<lambda>a. names s a dev num) xs of Some a \<Rightarrow> Inl a
      | None \<Rightarrow> Inr (case free of Some f \<Rightarrow> Some f | None \<Rightarrow> find (\<lambda>a. iref (inodes s a) = 0) xs))"
  by (induction xs arbitrary: free) (auto simp: names_def Let_def split: option.split)

lemma inode_get_eq:
  assumes "MIc \<notin> held s"
  shows "inode_get dev num s =
    (case find (\<lambda>a. names s a dev num) [0..<NINODE] of
       Some ip \<Rightarrow> Ok (ip, s\<lparr>inodes := (inodes s)(ip := (inodes s ip)\<lparr>iref := iref (inodes s ip) + 1\<rparr>)\<rparr>)
     | None \<Rightarrow> (case find (\<lambda>a. iref (inodes s a) = 0) [0..<NINODE] of
         Some ip \<Rightarrow> Ok (ip, s\<lparr>inodes := (inodes s)(ip := (inodes s ip)\<lparr>i_dev := dev, inum := num, iref := 1, iflags := 0\<rparr>)\<rparr>)
       | None \<Rightarrow> Stop Kassert))"
proof -
  have h: "held s - {MIc} = held s" using assms by auto
  have n: "names (held_update (insert MIc) s) = names s" by (simp add: names_def fun_eq_iff)
  show ?thesis
    using assms by (auto simp: inode_get_def mexec fhold_def frelease_def upd_inode_def inode_scan_eq n h split: option.split)
qed

lemma icache_inv_upd:
  assumes I: "icache_inv s" and i: "iref i = iref (inodes s ip) + 1" "i_dev i = dev" "inum i = num" "ip < NINODE"
    and u: "\<forall>a < NINODE. names s a dev num \<longrightarrow> a = ip"
  shows "icache_inv (s\<lparr>inodes := (inodes s)(ip := i)\<rparr>)"
proof -
  let ?s = "s\<lparr>inodes := (inodes s)(ip := i)\<rparr>"
  have P: "\<And>a. a < NINODE \<Longrightarrow> 0 \<le> iref (inodes s a)" and M: "MIc \<notin> held s"
    and U: "\<And>a b d n. a < NINODE \<Longrightarrow> b < NINODE \<Longrightarrow> names s a d n \<Longrightarrow> names s b d n \<Longrightarrow> b = a"
    using I unfolding icache_inv_def by blast+
  have nm: "names ?s a d n \<longleftrightarrow> (if a = ip then d = dev \<and> n = num else names s a d n)" for a d n
    using P [OF i(4)] i(1-3) by (auto simp: names_def)
  have "\<forall>a < NINODE. 0 \<le> iref (inodes ?s a)" using P i(1,4) by (simp add: order.trans [OF _ P [OF i(4)]])
  moreover have "b = a" if "a < NINODE" "b < NINODE" "names ?s a d n" "names ?s b d n" for a b d n
    using that(3,4) U [OF that(1,2)] u that(1,2) unfolding nm by metis
  ultimately show ?thesis using M unfolding icache_inv_def by simp
qed

lemma inode_get_ok:
  assumes I: "icache_inv s"
  shows "if \<exists>a < NINODE. names s a dev num \<or> iref (inodes s a) = 0 then
      \<exists>ip s'. inode_get dev num s = Ok (ip, s') \<and> ip < NINODE \<and> icache_inv s' \<and> names s' ip dev num \<and>
        iref (inodes s' ip) = iref (inodes s ip) + 1 \<and> (\<forall>a. a \<noteq> ip \<longrightarrow> inodes s' a = inodes s a) \<and>
        (\<forall>a < NINODE. names s a dev num \<longrightarrow> a = ip)
    else inode_get dev num s = Stop Kassert"
proof -
  have M: "MIc \<notin> held s" using I by (simp add: icache_inv_def)
  have res: ?thesis
    if e: "inode_get dev num s = Ok (ip, s\<lparr>inodes := (inodes s)(ip := i)\<rparr>)" and ip: "ip < NINODE" "names s ip dev num \<or> iref (inodes s ip) = 0"
      and i: "iref i = iref (inodes s ip) + 1" "i_dev i = dev" "inum i = num" and u: "\<forall>a < NINODE. names s a dev num \<longrightarrow> a = ip" for ip i
  proof -
    let ?t = "s\<lparr>inodes := (inodes s)(ip := i)\<rparr>"
    have c: "\<exists>a < NINODE. names s a dev num \<or> iref (inodes s a) = 0" using ip by blast
    have "icache_inv ?t" by (rule icache_inv_upd [OF I i ip(1) u])
    moreover have "names ?t ip dev num" "iref (inodes ?t ip) = iref (inodes s ip) + 1" "\<forall>a. a \<noteq> ip \<longrightarrow> inodes ?t a = inodes s a"
      using i ip(2) by (auto simp: names_def)
    ultimately show ?thesis unfolding if_P [OF c] using e ip(1) u by blast
  qed
  show ?thesis
  proof (cases "find (\<lambda>a. names s a dev num) [0..<NINODE]")
    case (Some ip)
    then have ip: "ip < NINODE" "names s ip dev num" using find_SomeD [OF Some] by auto
    have e: "inode_get dev num s = Ok (ip, s\<lparr>inodes := (inodes s)(ip := (inodes s ip)\<lparr>iref := iref (inodes s ip) + 1\<rparr>)\<rparr>)"
      by (simp only: Some inode_get_eq [OF M] option.case)
    have i: "i_dev (inodes s ip) = dev" "inum (inodes s ip) = num" using ip(2) by (simp_all add: names_def)
    have u: "\<forall>a < NINODE. names s a dev num \<longrightarrow> a = ip" using I ip unfolding icache_inv_def by blast
    show ?thesis by (rule res [OF e ip(1) _ _ _ _ u]) (simp_all add: ip(2) i)
  next
    case None
    then have nn: "\<forall>a < NINODE. \<not> names s a dev num" by (simp add: find_None_iff)
    show ?thesis
    proof (cases "find (\<lambda>a. iref (inodes s a) = 0) [0..<NINODE]")
      case f: None
      then have "\<not> (\<exists>a < NINODE. names s a dev num \<or> iref (inodes s a) = 0)" using nn by (auto simp: find_None_iff)
      then show ?thesis unfolding inode_get_eq [OF M] None f by (simp only: if_False option.case)
    next
      case f: (Some ip)
      then have ip: "ip < NINODE" "iref (inodes s ip) = 0" using find_SomeD [OF f] by auto
      show ?thesis
        by (rule res [of ip "(inodes s ip)\<lparr>i_dev := dev, inum := num, iref := 1, iflags := 0\<rparr>"])
          (use ip nn in \<open>simp_all add: None f inode_get_eq [OF M]\<close>)
    qed
  qed
qed

text \<open>
  C15: \<^verbatim>\<open>inode_get\<close> keeps one copy of every inode: it returns the slot the inode is in, with one more
  reference, and a free slot set up for it when there is none; no other slot changes, and afterwards
  still no inode is in two slots.  It stops only when all slots are taken by other inodes.
\<close>

theorem inode_get_correct:
  assumes I: "icache_inv s"
  shows "if \<exists>a < NINODE. names s a dev num \<or> iref (inodes s a) = 0 then
      \<exists>ip s'. inode_get dev num s = Ok (ip, s') \<and> ip < NINODE \<and> icache_inv s' \<and> names s' ip dev num \<and>
        iref (inodes s' ip) = iref (inodes s ip) + 1 \<and> (\<forall>a. a \<noteq> ip \<longrightarrow> inodes s' a = inodes s a) \<and>
        (\<forall>a < NINODE. names s a dev num \<longrightarrow> a = ip)
    else inode_get dev num s = Stop Kassert"
  by (rule inode_get_ok [OF assms])

theorem inode_get_correct_witness:
  "\<exists>ip s'. inode_get 1 2 (fs0 [] p0) = Ok (ip, s') \<and> icache_inv s' \<and> names s' ip 1 2 \<and> iref (inodes s' ip) = 1"
proof -
  have "icache_inv (fs0 [] p0)" by (simp add: icache_inv_def fs0_def names_def inode0_def)
  moreover have "\<exists>a < NINODE. names (fs0 [] p0) a 1 2 \<or> iref (inodes (fs0 [] p0) a) = 0" by (intro exI [of _ 0]) (simp add: fs0_def inode0_def)
  ultimately show ?thesis using inode_get_correct [of "fs0 [] p0" 1 2] by (auto simp: fs0_def inode0_def)
qed

end
