(* ===== verification/Kirq.thy ===== *)
theory Kirq
  imports Kwalk
begin

text \<open>
  The interrupt manager of \<^verbatim>\<open>kern/irq.c\<close>: the lines with their handlers, the controllers behind them
  and the routines that find out which line is pending.  Function pointers are addresses; the code they
  point to is an argument of the operations (\<open>irqcode\<close>), and it acts on the whole state of the manager,
  so a handler may also change registrations.  What \<^verbatim>\<open>kmalloc\<close> returns is an argument.
\<close>

section \<open>Data\<close>

record exception_frame =
  e_rax :: u64
  e_rbx :: u64
  e_rcx :: u64
  e_rdx :: u64
  e_rbp :: u64
  e_rsi :: u64
  e_rdi :: u64
  e_r8 :: u64
  e_r9 :: u64
  e_r10 :: u64
  e_r11 :: u64
  e_r12 :: u64
  e_r13 :: u64
  e_r14 :: u64
  e_r15 :: u64
  e_trapno :: u64
  e_errno :: u64
  e_rip :: u64
  e_cs :: u64
  e_rflags :: u64
  e_rsp :: u64
  e_ss :: u64

abbreviation (input) IRQ_ATTR_EXCLUSIVE :: u32 where "IRQ_ATTR_EXCLUSIVE \<equiv> 1"
abbreviation (input) IRQ_ATTR_NON_NESTABLE :: u32 where "IRQ_ATTR_NON_NESTABLE \<equiv> 2"
abbreviation (input) IRQ_ATTR_HANDLER_MASK :: u32 where "IRQ_ATTR_HANDLER_MASK \<equiv> 0xf"
abbreviation (input) IRQ_FOUND :: int where "IRQ_FOUND \<equiv> 0"
abbreviation (input) IRQ_NOT_FOUND :: int where "IRQ_NOT_FOUND \<equiv> 1"
abbreviation (input) IRQ_HANDLED :: int where "IRQ_HANDLED \<equiv> 0"
abbreviation (input) IRQ_NOT_HANDLED :: int where "IRQ_NOT_HANDLED \<equiv> 1"
abbreviation (input) NR_IRQS :: nat where "NR_IRQS \<equiv> 256"

text \<open>The list nodes: the heads in the manager and its lines, the links in handler entries and finders.\<close>

datatype irqnode = FindHead | FinderLink nat | LineHead nat | EntLink nat

record irq_handler_ent =
  he_handler :: "nat option"
  he_private :: nat

record irq_line =
  il_nr :: int
  il_attr :: u32
  il_prio :: int
  il_ctrlrp :: "nat option"

record 's irq_ctrlr =
  config_irq :: "(int \<Rightarrow> u32 \<Rightarrow> int \<Rightarrow> ('s, int) kfun) option"
  enable_irq :: "(int \<Rightarrow> ('s, unit) kfun) option"
  disable_irq :: "(int \<Rightarrow> ('s, unit) kfun) option"
  get_priority :: "('s, int) kfun option"
  set_priority :: "(int \<Rightarrow> ('s, unit) kfun) option"
  eoi :: "(int \<Rightarrow> ('s, unit) kfun) option"

record 's irqcode =
  handler_at :: "nat \<Rightarrow> int \<Rightarrow> exception_frame \<Rightarrow> nat \<Rightarrow> ('s, int) kfun"
  finder_at :: "nat \<Rightarrow> exception_frame \<Rightarrow> ('s, int \<times> int) kfun"
  ctrlr_at :: "nat \<Rightarrow> 's irq_ctrlr"

text \<open>
  The state: the interrupt flag of the processor, the nodes, the lines, the entries with those
  that are allocated, the finder structures with their function, the value an uninitialised local
  variable happens to have, the preemption word of the running thread, and the devices.
\<close>

record 'd irqst =
  iflag :: bool
  ilnk :: "irqnode links"
  irqs :: "nat \<Rightarrow> irq_line"
  ients :: "nat \<Rightarrow> irq_handler_ent"
  ilive :: "nat set"
  ifind :: "nat \<Rightarrow> nat option"
  ijunk :: int
  ipreempt :: u64
  idev :: 'd

type_synonym 'd irqcodes = "'d irqst irqcode"

section \<open>Operations\<close>

definition irq_save :: "('d irqst, bool) kfun" where
  "irq_save = mbind (mget iflag) (\<lambda>psw. mthen (mmod (iflag_update (\<lambda>_. False))) (mret psw))"

definition irq_restore :: "bool \<Rightarrow> ('d irqst, unit) kfun" where
  "irq_restore psw = mmod (iflag_update (\<lambda>_. psw))"

definition irq_cli :: "('d irqst, unit) kfun" where
  "irq_cli = mmod (iflag_update (\<lambda>_. False))"

definition irq_sti :: "('d irqst, unit) kfun" where
  "irq_sti = mmod (iflag_update (\<lambda>_. True))"

text \<open>A call through a function pointer.\<close>

definition mcall :: "'f option \<Rightarrow> ('f \<Rightarrow> ('s, 'a) kfun) \<Rightarrow> ('s, 'a) kfun" where
  "mcall p k = (case p of None \<Rightarrow> mstop Kfault | Some f \<Rightarrow> k f)"

definition upd_line :: "nat \<Rightarrow> (irq_line \<Rightarrow> irq_line) \<Rightarrow> ('d irqst, unit) kfun" where
  "upd_line i f = mmod (\<lambda>s. s\<lparr>irqs := (irqs s)(i := f (irqs s i))\<rparr>)"

definition upd_ilnk :: "(irqnode links \<Rightarrow> irqnode links) \<Rightarrow> ('d irqst, unit) kfun" where
  "upd_ilnk f = mmod (ilnk_update f)"

definition invoke_turn :: "'d irqcodes \<Rightarrow> nat \<Rightarrow> int \<Rightarrow> exception_frame \<Rightarrow> irqnode \<Rightarrow> int \<Rightarrow> ('d irqst, int) kfun" where
  "invoke_turn c linep irq exc lp rc =
     (case lp of
        EntLink e \<Rightarrow>
          mbind (mget (\<lambda>s. ients s e)) (\<lambda>entp.
            case he_handler entp of
              None \<Rightarrow> mret rc
            | Some h \<Rightarrow>
                mbind (mget (\<lambda>s. il_attr (irqs s linep))) (\<lambda>attr.
                mthen (mwhen (attr AND IRQ_ATTR_NON_NESTABLE = 0) irq_sti)
                (mbind (handler_at c h irq exc (he_private entp)) (\<lambda>is_handled.
                mthen irq_cli (mret (if is_handled = IRQ_HANDLED then 0 else rc))))))
      | _ \<Rightarrow> mstop Kfault)"

definition invoke_irq_handler :: "'d irqcodes \<Rightarrow> nat \<Rightarrow> int \<Rightarrow> exception_frame \<Rightarrow> ('d irqst, int) kfun" where
  "invoke_irq_handler c linep irq exc =
     mbind irq_save (\<lambda>psw.
     mbind (list_walk ilnk (LineHead linep) (invoke_turn c linep irq exc) ESRCH) (\<lambda>rc.
     mthen (irq_restore psw) (mret rc)))"

definition line_ctrlr :: "'d irqcodes \<Rightarrow> nat \<Rightarrow> ('d irqst, 'd irqst irq_ctrlr) kfun" where
  "line_ctrlr c linep = mbind (mget (\<lambda>s. il_ctrlrp (irqs s linep))) (\<lambda>p.
     case p of None \<Rightarrow> mstop Kfault | Some k \<Rightarrow> mret (ctrlr_at c k))"

definition handle_irq_line :: "'d irqcodes \<Rightarrow> nat \<Rightarrow> int \<Rightarrow> exception_frame \<Rightarrow> ('d irqst, int) kfun" where
  "handle_irq_line c linep irq exc =
     mbind (mget (\<lambda>s. il_ctrlrp (irqs s linep))) (\<lambda>p.
     mthen (massert (case p of
         None \<Rightarrow> False
       | Some k \<Rightarrow> (let ct = ctrlr_at c k in
           (disable_irq ct \<noteq> None \<or> get_priority ct \<noteq> None \<and> set_priority ct \<noteq> None) \<and>
           enable_irq ct \<noteq> None \<and> eoi ct \<noteq> None)))
     (mbind irq_save (\<lambda>psw.
     mbind (line_ctrlr c linep) (\<lambda>ct.
     mbind (if set_priority ct = None
            then mthen (mcall (disable_irq ct) (\<lambda>f. f irq)) (mget ijunk)
            else mbind (mcall (get_priority ct) (\<lambda>f. f)) (\<lambda>prio.
                 mbind (mget (\<lambda>s. il_prio (irqs s linep))) (\<lambda>lprio.
                 mthen (mcall (set_priority ct) (\<lambda>f. f lprio)) (mret prio)))) (\<lambda>prio.
     mbind (line_ctrlr c linep) (\<lambda>ct.
     mthen (mcall (eoi ct) (\<lambda>f. f irq))
     (mbind (invoke_irq_handler c linep irq exc) (\<lambda>rc.
     mbind (mget ijunk) (\<lambda>junk.
     let is_handled = (if rc = 0 then 0 else junk) in
     mbind (line_ctrlr c linep) (\<lambda>ct.
     mthen (if set_priority ct = None then mcall (enable_irq ct) (\<lambda>f. f irq)
            else mcall (set_priority ct) (\<lambda>f. f prio))
     (mthen (irq_restore psw) (mret is_handled))))))))))))"

definition irq_register_ctrlr :: "int \<Rightarrow> nat option \<Rightarrow> ('d irqst, int) kfun" where
  "irq_register_ctrlr irq ctrlrp =
     (if irq < 0 \<or> irq \<ge> int NR_IRQS then mret EINVAL
      else mbind irq_save (\<lambda>psw.
        mthen (upd_line (nat irq) (\<lambda>l. l\<lparr>il_ctrlrp := ctrlrp\<rparr>))
        (mthen (irq_restore psw) (mret 0))))"

definition irq_unregister_ctrlr :: "int \<Rightarrow> ('d irqst, int) kfun" where
  "irq_unregister_ctrlr irq =
     (if irq < 0 \<or> irq \<ge> int NR_IRQS then mret EINVAL
      else mbind irq_save (\<lambda>psw.
        mthen (upd_line (nat irq) (\<lambda>l. l\<lparr>il_ctrlrp := None\<rparr>))
        (mthen (irq_restore psw) (mret 0))))"

text \<open>The second half of \<^verbatim>\<open>irq_register_handler\<close>: a new entry \<open>e\<close> is there, configure the line and link the entry.\<close>

definition install_handler :: "'d irqcodes \<Rightarrow> int \<Rightarrow> u32 \<Rightarrow> int \<Rightarrow> nat \<Rightarrow> nat option \<Rightarrow> nat \<Rightarrow>
    (int \<Rightarrow> u32 \<Rightarrow> int \<Rightarrow> ('d irqst, int) kfun) \<Rightarrow> ('d irqst, int) kfun" where
  "install_handler c irq attr prio private handler e config =
     (let linep = nat irq in
      mthen (mmod (\<lambda>s. s\<lparr>ilive := insert e (ilive s)\<rparr>))
      (mthen (upd_ilnk (\<lambda>h. init_list_node h (EntLink e)))
      (mthen (mmod (\<lambda>s. s\<lparr>ients := (ients s)(e := \<lparr>he_handler = handler, he_private = private\<rparr>)\<rparr>))
      (mthen (upd_line linep (\<lambda>l. l\<lparr>il_attr := attr, il_prio := prio\<rparr>))
      (mbind (config irq attr prio) (\<lambda>rc.
        if rc \<noteq> 0 then mthen (mmod (\<lambda>s. s\<lparr>ilive := ilive s - {e}\<rparr>)) (mret rc)
        else
          mbind (mget (\<lambda>s. list_is_empty (ilnk s) (LineHead linep))) (\<lambda>empty.
          mthen (mwhen empty (mbind (line_ctrlr c linep) (\<lambda>ct. mcall (enable_irq ct) (\<lambda>f. f irq))))
          (mthen (upd_ilnk (\<lambda>h. list_add h (LineHead linep) (EntLink e)))
          (mret 0)))))))))"

text \<open>\<open>mem\<close> is the result of \<^verbatim>\<open>kmalloc\<close>.\<close>

definition irq_register_handler :: "'d irqcodes \<Rightarrow> int \<Rightarrow> u32 \<Rightarrow> int \<Rightarrow> nat \<Rightarrow> nat option \<Rightarrow> nat option \<Rightarrow> ('d irqst, int) kfun" where
  "irq_register_handler c irq attr prio private handler mem =
     (if irq < 0 \<or> irq \<ge> int NR_IRQS then mret EINVAL
      else let handler_attr = attr AND IRQ_ATTR_HANDLER_MASK; linep = nat irq in
        mbind irq_save (\<lambda>psw.
        mbind (mget (\<lambda>s. irqs s linep)) (\<lambda>line.
        mbind (mget (\<lambda>s. list_is_empty (ilnk s) (LineHead linep))) (\<lambda>empty.
        mbind
          (if handler_attr AND IRQ_ATTR_NON_NESTABLE = 0 \<and> il_attr line AND IRQ_ATTR_NON_NESTABLE \<noteq> 0 then mret EINVAL
           else if handler_attr AND IRQ_ATTR_EXCLUSIVE \<noteq> 0 \<and> \<not> empty then mret EBUSY
           else case il_ctrlrp line of
             None \<Rightarrow> mret ENOENT
           | Some k \<Rightarrow>
              (case config_irq (ctrlr_at c k) of
                 None \<Rightarrow> mret ENOENT
               | Some config \<Rightarrow>
                  (case mem of
                     None \<Rightarrow> mret ENOMEM
                   | Some e \<Rightarrow> install_handler c irq attr prio private handler e config)))
          (\<lambda>rc. mthen (irq_restore psw) (mret rc))))))"

definition has_handler :: "'d irqst \<Rightarrow> nat option \<Rightarrow> irqnode \<Rightarrow> bool" where
  "has_handler s handler lp = (case lp of EntLink e \<Rightarrow> he_handler (ients s e) = handler | _ \<Rightarrow> False)"

definition irq_unregister_handler :: "'d irqcodes \<Rightarrow> int \<Rightarrow> nat option \<Rightarrow> ('d irqst, int) kfun" where
  "irq_unregister_handler c irq handler =
     (if irq < 0 \<or> irq \<ge> int NR_IRQS then mret EINVAL
      else let linep = nat irq in
        mbind irq_save (\<lambda>psw.
        mbind (mget (\<lambda>s. list_for_each (ilnk s) (LineHead linep) (has_handler s handler))) (\<lambda>lp.
          case lp of
            Some (EntLink e) \<Rightarrow>
              mthen (upd_ilnk (\<lambda>h. list_del h (EntLink e)))
              (mthen (mmod (\<lambda>s. s\<lparr>ilive := ilive s - {e}\<rparr>))
              (mbind (mget (\<lambda>s. list_is_empty (ilnk s) (LineHead linep))) (\<lambda>empty.
              mthen (mwhen empty (mbind (line_ctrlr c linep) (\<lambda>ct. mcall (disable_irq ct) (\<lambda>f. f irq))))
              (mthen (irq_restore psw) (mret 0)))))
          | Some (LineHead _) \<Rightarrow> mthen (irq_restore psw) (mret ENOENT)
          | _ \<Rightarrow> mstop Kblocked)))"

definition irq_register_pending_irq_finder :: "nat \<Rightarrow> ('d irqst, unit) kfun" where
  "irq_register_pending_irq_finder f =
     mbind irq_save (\<lambda>psw.
     mbind (mget (\<lambda>s. list_is_linked (ilnk s) (FinderLink f))) (\<lambda>linked.
     mthen (massert (\<not> linked))
     (mthen (upd_ilnk (\<lambda>h. list_add h FindHead (FinderLink f)))
     (irq_restore psw))))"

definition irq_unregister_pending_irq_finder :: "nat \<Rightarrow> ('d irqst, unit) kfun" where
  "irq_unregister_pending_irq_finder f =
     mbind irq_save (\<lambda>psw.
     mbind (mget (\<lambda>s. list_is_linked (ilnk s) (FinderLink f))) (\<lambda>linked.
     mthen (massert linked)
     (mthen (upd_ilnk (\<lambda>h. list_del h (FinderLink f)))
     (irq_restore psw))))"

definition find_turn :: "'d irqcodes \<Rightarrow> exception_frame \<Rightarrow> irqnode \<Rightarrow> int \<Rightarrow> ('d irqst, int) kfun" where
  "find_turn c exc lp is_handled =
     (case lp of
        FinderLink f \<Rightarrow>
          mbind (mget (\<lambda>s. ifind s f)) (\<lambda>find_pending.
          mthen (massert (find_pending \<noteq> None))
          (mbind (mcall find_pending (\<lambda>p. finder_at c p exc)) (\<lambda>(rc, irq).
            if rc = IRQ_FOUND then
              mthen (mguard (0 \<le> irq \<and> irq < int NR_IRQS))
              (mbind (handle_irq_line c (nat irq) irq exc) (\<lambda>rc. mret (if rc = 0 then 0 else is_handled)))
            else mret is_handled)))
      | _ \<Rightarrow> mstop Kfault)"

definition irq_handle_irq :: "'d irqcodes \<Rightarrow> exception_frame \<Rightarrow> ('d irqst, int) kfun" where
  "irq_handle_irq c exc =
     mbind irq_save (\<lambda>psw.
     mbind (list_walk ilnk FindHead (find_turn c exc) ESRCH) (\<lambda>is_handled.
     mthen (irq_restore psw) (mret is_handled)))"

definition irq_initialize_manager :: "('d irqst, int) kfun" where
  "irq_initialize_manager =
     mbind irq_save (\<lambda>psw.
     mthen (upd_ilnk (\<lambda>h. init_list_head h FindHead))
     (mthen (mfor_each [0..<NR_IRQS] (\<lambda>i.
        mthen (upd_line i (\<lambda>l. l\<lparr>il_nr := int i, il_attr := 0, il_prio := 0\<rparr>))
        (mthen (upd_ilnk (\<lambda>h. init_list_head h (LineHead i)))
        (upd_line i (\<lambda>l. l\<lparr>il_ctrlrp := None\<rparr>)))))
     (mthen (irq_restore psw) (mret 0))))"

end
