(* ===== verification/Ki8259.thy ===== *)
theory Ki8259
  imports Kirq Kport
begin

text \<open>
  The interrupt controller of the x64 machine, two cascaded 8259 chips (\<^verbatim>\<open>hal/x64/i8259.c\<close>).  The driver
  is modelled on the ports; \<open>on_dev\<close> makes it code of the interrupt manager.
\<close>

abbreviation (input) I8259_PIC1_BASE_ADDR1 :: u16 where "I8259_PIC1_BASE_ADDR1 \<equiv> 0x20"
abbreviation (input) I8259_PIC1_BASE_ADDR2 :: u16 where "I8259_PIC1_BASE_ADDR2 \<equiv> 0x21"
abbreviation (input) I8259_PIC2_BASE_ADDR1 :: u16 where "I8259_PIC2_BASE_ADDR1 \<equiv> 0xA0"
abbreviation (input) I8259_PIC2_BASE_ADDR2 :: u16 where "I8259_PIC2_BASE_ADDR2 \<equiv> 0xA1"
abbreviation (input) I8259_PIC1_ICW3_CODE :: nat where "I8259_PIC1_ICW3_CODE \<equiv> 2"
abbreviation (input) I8259_MAX_IRQ_NR :: nat where "I8259_MAX_IRQ_NR \<equiv> 16"
abbreviation (input) I8259_PIC1_VBASE_ADDR :: u64 where "I8259_PIC1_VBASE_ADDR \<equiv> 0x20"

definition on_dev :: "('d, 'a) kfun \<Rightarrow> ('d irqst, 'a) kfun" where
  "on_dev m s = (case m (idev s) of Ok (x, d) \<Rightarrow> Ok (x, s\<lparr>idev := d\<rparr>) | Stop e \<Rightarrow> Stop e)"

section \<open>The driver\<close>

definition i8259_config_irq :: "int \<Rightarrow> u32 \<Rightarrow> int \<Rightarrow> (ports, int) kfun" where
  "i8259_config_irq irq attr prio = mret 0"

text \<open>A shift of the \<^verbatim>\<open>int\<close> 1 by more than its width is undefined.\<close>

definition i8259_enable_irq :: "int \<Rightarrow> (ports, unit) kfun" where
  "i8259_enable_irq no =
     mthen (massert (no < int I8259_MAX_IRQ_NR))
     (let irq = word_of_int no :: u8 in
      if irq < 8 then
        mbind (in_port_byte I8259_PIC1_BASE_ADDR2) (\<lambda>v. out_port_byte I8259_PIC1_BASE_ADDR2 (v AND NOT (push_bit (unat irq) 1)))
      else mthen (mguard (irq - 8 < 31))
        (mbind (in_port_byte I8259_PIC2_BASE_ADDR2) (\<lambda>v. out_port_byte I8259_PIC2_BASE_ADDR2 (v AND NOT (push_bit (unat (irq - 8)) 1)))))"

definition i8259_disable_irq :: "int \<Rightarrow> (ports, unit) kfun" where
  "i8259_disable_irq no =
     (let irq = word_of_int no :: u8 in
      mthen (massert (irq < 16))
      (if irq < 8 then
         mbind (in_port_byte I8259_PIC1_BASE_ADDR2) (\<lambda>v. out_port_byte I8259_PIC1_BASE_ADDR2 (v OR push_bit (unat irq) 1))
       else
         mbind (in_port_byte I8259_PIC2_BASE_ADDR2) (\<lambda>v. out_port_byte I8259_PIC2_BASE_ADDR2 (v OR push_bit (unat (irq - 8)) 1))))"

definition pic_mk_spec_eoi :: "u8 \<Rightarrow> u8" where
  "pic_mk_spec_eoi irq = (irq AND 0x7) OR 0x60"

definition i8259_eoi_irq :: "int \<Rightarrow> (ports, unit) kfun" where
  "i8259_eoi_irq no =
     (let irq = word_of_int no :: u8 in
      mthen (massert (irq < 16))
      (mthen
        (if irq < 8 then
           mbind (in_port_byte I8259_PIC1_BASE_ADDR2) (\<lambda>mask. massert (mask AND push_bit (unat irq) 1 \<noteq> 0))
         else
           mbind (in_port_byte I8259_PIC2_BASE_ADDR2) (\<lambda>mask. massert (mask AND push_bit (unat (irq - 8)) 1 \<noteq> 0)))
        (if irq < 8 then out_port_byte I8259_PIC1_BASE_ADDR1 (pic_mk_spec_eoi irq)
         else
           mthen (out_port_byte I8259_PIC2_BASE_ADDR1 (pic_mk_spec_eoi irq))
           (out_port_byte I8259_PIC1_BASE_ADDR1 (pic_mk_spec_eoi (of_nat I8259_PIC1_ICW3_CODE))))))"

definition i8259_update_irq_mask :: "u16 \<Rightarrow> (ports, unit) kfun" where
  "i8259_update_irq_mask msk =
     (let i8259_mask = msk AND NOT (push_bit I8259_PIC1_ICW3_CODE 1) in
      mthen (out_port_byte I8259_PIC1_BASE_ADDR2 (ucast i8259_mask))
      (out_port_byte I8259_PIC2_BASE_ADDR2 (ucast (drop_bit 8 i8259_mask))))"

definition mask_all :: "(ports, unit) kfun" where
  "mask_all =
     mthen (mfor_each [0..<I8259_MAX_IRQ_NR] (\<lambda>i. if i = I8259_PIC1_ICW3_CODE then mret () else i8259_disable_irq (int i)))
     (i8259_enable_irq (int I8259_PIC1_ICW3_CODE))"

definition init_i8259_pic :: "(ports, int) kfun" where
  "init_i8259_pic =
     mthen (out_port_byte I8259_PIC1_BASE_ADDR1 0x11)
     (mthen (out_port_byte I8259_PIC1_BASE_ADDR2 0x20)
     (mthen (out_port_byte I8259_PIC1_BASE_ADDR2 (of_nat I8259_PIC1_ICW3_CODE))
     (mthen (out_port_byte I8259_PIC1_BASE_ADDR2 0x11)
     (mthen (out_port_byte I8259_PIC2_BASE_ADDR1 0x11)
     (mthen (out_port_byte I8259_PIC2_BASE_ADDR2 0x28)
     (mthen (out_port_byte I8259_PIC2_BASE_ADDR2 2)
     (mthen (out_port_byte I8259_PIC2_BASE_ADDR2 1)
     (mthen mask_all (mret 0)))))))))"

definition finalize_i8259_pic :: "(ports, unit) kfun" where
  "finalize_i8259_pic = mask_all"

definition i8259_find_pending_irq :: "exception_frame \<Rightarrow> (ports, int \<times> int) kfun" where
  "i8259_find_pending_irq exc =
     (if e_trapno exc < I8259_PIC1_VBASE_ADDR then mret (IRQ_NOT_FOUND, 0)
      else let irq = sint (ucast (e_trapno exc - I8259_PIC1_VBASE_ADDR) :: u32) in
        if irq \<ge> int I8259_MAX_IRQ_NR then mret (IRQ_NOT_FOUND, 0) else mret (IRQ_FOUND, irq))"

definition i8259_ctrlr :: "ports irqst irq_ctrlr" where
  "i8259_ctrlr = \<lparr>
     config_irq = Some (\<lambda>irq attr prio. on_dev (i8259_config_irq irq attr prio)),
     enable_irq = Some (\<lambda>irq. on_dev (i8259_enable_irq irq)),
     disable_irq = Some (\<lambda>irq. on_dev (i8259_disable_irq irq)),
     get_priority = None,
     set_priority = None,
     eoi = Some (\<lambda>irq. on_dev (i8259_eoi_irq irq))\<rparr>"

text \<open>The static structures of the driver have addresses of their own.\<close>

abbreviation (input) I8259_CTRLR :: nat where "I8259_CTRLR \<equiv> 0"
abbreviation (input) I8259_FIND_IRQ :: nat where "I8259_FIND_IRQ \<equiv> 0"
abbreviation (input) I8259_FIND_PENDING :: nat where "I8259_FIND_PENDING \<equiv> 0"

definition x64_init_pic :: "(ports irqst, unit) kfun" where
  "x64_init_pic =
     mthen (on_dev init_i8259_pic)
     (mthen (irq_register_pending_irq_finder I8259_FIND_IRQ)
     (mfor_each [0..<I8259_MAX_IRQ_NR] (\<lambda>i. mthen (irq_register_ctrlr (int i) (Some I8259_CTRLR)) (mret ()))))"

end
