(* ===== verification/Kirqlem.thy ===== *)
theory Kirqlem
  imports Kirq
begin

text \<open>
  What the interrupt manager does: its lists stay well formed, an interrupt reaches the handlers of its
  line once and in order, and the handlers of a line that does not allow nesting run with interrupts off.
\<close>

section \<open>Running\<close>

lemma runs_irq_basic [mrun]:
  "runs irq_save s p s' \<longleftrightarrow> p = iflag s \<and> s' = s\<lparr>iflag := False\<rparr>"
  "runs (irq_restore p) s u s' \<longleftrightarrow> s' = s\<lparr>iflag := p\<rparr>"
  "runs irq_cli s u s' \<longleftrightarrow> s' = s\<lparr>iflag := False\<rparr>"
  "runs irq_sti s u s' \<longleftrightarrow> s' = s\<lparr>iflag := True\<rparr>"
  "runs (upd_line i g) s u s' \<longleftrightarrow> s' = s\<lparr>irqs := (irqs s)(i := g (irqs s i))\<rparr>"
  "runs (upd_ilnk h) s u s' \<longleftrightarrow> s' = s\<lparr>ilnk := h (ilnk s)\<rparr>"
  "runs (mcall q k) t v t' \<longleftrightarrow> (\<exists>f. q = Some f \<and> runs (k f) t v t')"
  by (auto simp: irq_save_def irq_restore_def irq_cli_def irq_sti_def upd_line_def upd_ilnk_def mcall_def mrun split: option.split)

lemma runs_line_ctrlr [mrun]:
  "runs (line_ctrlr c i) s ct s' \<longleftrightarrow> s' = s \<and> (\<exists>k. il_ctrlrp (irqs s i) = Some k \<and> ct = ctrlr_at c k)"
  by (auto simp: line_ctrlr_def mrun split: option.split)

section \<open>Code that leaves the manager alone\<close>

definition same_mgr :: "'d irqst \<Rightarrow> 'd irqst \<Rightarrow> bool" where
  "same_mgr s s' = (ilnk s' = ilnk s \<and> irqs s' = irqs s \<and> ients s' = ients s \<and> ilive s' = ilive s \<and> ifind s' = ifind s \<and> ijunk s' = ijunk s)"

lemma same_mgr_po [simp]: "reflp same_mgr" "transp same_mgr"
  by (auto simp: same_mgr_def intro: reflpI transpI)

definition ctrlr_ok :: "'d irqst irq_ctrlr \<Rightarrow> bool" where
  "ctrlr_ok ct =
     ((\<forall>f i a p. config_irq ct = Some f \<longrightarrow> keeps same_mgr (f i a p)) \<and>
      (\<forall>f i. enable_irq ct = Some f \<longrightarrow> keeps same_mgr (f i)) \<and>
      (\<forall>f i. disable_irq ct = Some f \<longrightarrow> keeps same_mgr (f i)) \<and>
      (\<forall>f. get_priority ct = Some f \<longrightarrow> keeps same_mgr f) \<and>
      (\<forall>f p. set_priority ct = Some f \<longrightarrow> keeps same_mgr (f p)) \<and>
      (\<forall>f i. eoi ct = Some f \<longrightarrow> keeps same_mgr (f i)))"

definition code_ok :: "'d irqcodes \<Rightarrow> bool" where
  "code_ok c =
     ((\<forall>h i x p. keeps same_mgr (handler_at c h i x p)) \<and> (\<forall>f x. keeps same_mgr (finder_at c f x)) \<and>
      (\<forall>k. ctrlr_ok (ctrlr_at c k)))"

lemma keeps_basic:
  "keeps same_mgr irq_save" "keeps same_mgr (irq_restore p)" "keeps same_mgr irq_cli" "keeps same_mgr irq_sti"
  by (auto simp: keeps_def mrun same_mgr_def)

lemma keeps_mcall: "(\<And>f. p = Some f \<Longrightarrow> keeps R (k f)) \<Longrightarrow> keeps R (mcall p k)"
  by (auto simp: keeps_def mrun)

lemmas mgr_rules = keeps_mbind [OF same_mgr_po(2)] keeps_mthen [OF same_mgr_po(2)] keeps_refl [OF same_mgr_po(1)] keeps_if keeps_let
  keeps_list_walk [OF same_mgr_po] keeps_basic keeps_mcall keeps_case_option keeps_case_prod

lemma keeps_case_irqnode:
  "keeps R m \<Longrightarrow> (\<And>f. keeps R (p f)) \<Longrightarrow> (\<And>i. keeps R (q i)) \<Longrightarrow> (\<And>e. keeps R (r e)) \<Longrightarrow>
    keeps R (case n of FindHead \<Rightarrow> m | FinderLink f \<Rightarrow> p f | LineHead i \<Rightarrow> q i | EntLink e \<Rightarrow> r e)"
  by (cases n) auto

lemma keeps_code:
  assumes "code_ok c"
  shows "keeps same_mgr (handler_at c h i x p)" "keeps same_mgr (finder_at c f x)"
    "config_irq (ctrlr_at c k) = Some g1 \<Longrightarrow> keeps same_mgr (g1 i a q)" "enable_irq (ctrlr_at c k) = Some g \<Longrightarrow> keeps same_mgr (g i)"
    "disable_irq (ctrlr_at c k) = Some g \<Longrightarrow> keeps same_mgr (g i)" "get_priority (ctrlr_at c k) = Some g2 \<Longrightarrow> keeps same_mgr g2"
    "set_priority (ctrlr_at c k) = Some g \<Longrightarrow> keeps same_mgr (g i)" "eoi (ctrlr_at c k) = Some g \<Longrightarrow> keeps same_mgr (g i)"
  using assms by (simp_all add: code_ok_def ctrlr_ok_def)

text \<open>A routine that gets the controller of a line.\<close>

lemma keeps_line_ctrlr:
  assumes "\<And>k. keeps same_mgr (f (ctrlr_at c k))"
  shows "keeps same_mgr (mbind (line_ctrlr c i) f)"
  unfolding keeps_def
proof (intro allI impI)
  fix s x s' assume "runs (mbind (line_ctrlr c i) f) s x s'"
  then obtain k where "runs (f (ctrlr_at c k)) s x s'" by (auto simp: mrun)
  then show "same_mgr s s'" using assms keepsD by metis
qed

lemma keeps_invoke_irq_handler:
  assumes "code_ok c"
  shows "keeps same_mgr (invoke_turn c l i x n r)" "keeps same_mgr (invoke_irq_handler c l i x)"
  unfolding invoke_irq_handler_def invoke_turn_def
  by (intro mgr_rules keeps_case_irqnode keeps_code [OF assms])+

lemma keeps_handle_irq_line:
  assumes "code_ok c"
  shows "keeps same_mgr (handle_irq_line c l i x)"
  unfolding handle_irq_line_def
  by (intro keeps_line_ctrlr keeps_invoke_irq_handler mgr_rules; (rule keeps_code [OF assms] assms; assumption?))

lemma keeps_find_turn:
  assumes "code_ok c"
  shows "keeps same_mgr (find_turn c x n r)" "keeps same_mgr (irq_handle_irq c x)"
  unfolding irq_handle_irq_def find_turn_def
  by (intro mgr_rules keeps_case_irqnode keeps_code [OF assms] keeps_handle_irq_line assms)+

section \<open>The lists\<close>

definition iheads :: "irqnode set" where
  "iheads = insert FindHead (LineHead ` {..<NR_IRQS})"

definition iqs :: "nat list \<Rightarrow> (nat \<Rightarrow> nat list) \<Rightarrow> irqnode \<Rightarrow> irqnode list" where
  "iqs fl hl a = (case a of FindHead \<Rightarrow> map FinderLink fl | LineHead i \<Rightarrow> map EntLink (hl i) | _ \<Rightarrow> [])"

definition irq_rep :: "'d irqst \<Rightarrow> nat list \<Rightarrow> (nat \<Rightarrow> nat list) \<Rightarrow> bool" where
  "irq_rep s fl hl = (rings (ilnk s) iheads (iqs fl hl) \<and> (\<forall>i < NR_IRQS. set (hl i) \<subseteq> ilive s) \<and>
     (\<forall>f. f \<notin> set fl \<longrightarrow> unlinked (ilnk s) (FinderLink f)))"

lemma iheads [simp]: "FindHead \<in> iheads" "LineHead i \<in> iheads \<longleftrightarrow> i < NR_IRQS" "EntLink e \<notin> iheads" "FinderLink f \<notin> iheads"
  by (auto simp: iheads_def)

lemma iqs_simps [simp]: "iqs fl hl FindHead = map FinderLink fl" "iqs fl hl (LineHead i) = map EntLink (hl i)"
  by (simp_all add: iqs_def)

lemma iqs_upd:
  "(iqs fl hl)(LineHead i := map EntLink es) = iqs fl (hl(i := es))" "(iqs fl hl)(FindHead := map FinderLink fs) = iqs fs hl"
  by (auto simp: iqs_def fun_eq_iff split: irqnode.split)

lemma used_iqs:
  "EntLink e \<in> used iheads (iqs fl hl) \<longleftrightarrow> (\<exists>i < NR_IRQS. e \<in> set (hl i))"
  "FinderLink f \<in> used iheads (iqs fl hl) \<longleftrightarrow> f \<in> set fl"
  by (auto simp: used_def iheads_def)

lemma irq_rep_same_mgr: "same_mgr s s' \<Longrightarrow> irq_rep s' = irq_rep s"
  by (intro ext) (simp add: same_mgr_def irq_rep_def)

lemma irq_rep_list:
  assumes "irq_rep s fl hl"
  shows "is_list (ilnk s) FindHead (map FinderLink fl)" "i < NR_IRQS \<Longrightarrow> is_list (ilnk s) (LineHead i) (map EntLink (hl i))"
  using assms rings_is_list [of "ilnk s" iheads "iqs fl hl" FindHead] rings_is_list [of "ilnk s" iheads "iqs fl hl" "LineHead i"]
  by (simp_all add: irq_rep_def)

text \<open>Only the fields the lists live in matter.\<close>

lemma irq_rep_cong: "ilnk s' = ilnk s \<Longrightarrow> ilive s \<subseteq> ilive s' \<Longrightarrow> irq_rep s fl hl \<Longrightarrow> irq_rep s' fl hl"
  by (auto simp: irq_rep_def)

lemma irq_rep_add:
  assumes R: "irq_rep s fl hl" and i: "i < NR_IRQS" and e: "e \<notin> ilive s"
  shows "irq_rep (s\<lparr>ilive := insert e (ilive s), ilnk := list_add (init_list_node (ilnk s) (EntLink e)) (LineHead i) (EntLink e)\<rparr>)
    fl (hl(i := hl i @ [e]))"
proof -
  have n: "EntLink e \<notin> used iheads (iqs fl hl)" using R e unfolding irq_rep_def used_iqs by blast
  have "rings (init_list_node (ilnk s) (EntLink e)) iheads (iqs fl hl)"
    using R n rings_cong [of iheads "iqs fl hl" "iqs fl hl" "ilnk s" "init_list_node (ilnk s) (EntLink e)"]
    unfolding irq_rep_def by (metis init_list_node_other)
  from rings_add [OF this _ n, of "LineHead i"] i
  have "rings (list_add (init_list_node (ilnk s) (EntLink e)) (LineHead i) (EntLink e)) iheads (iqs fl (hl(i := hl i @ [e])))"
    by (simp flip: iqs_upd)
  moreover have "list_add (init_list_node (ilnk s) (EntLink e)) (LineHead i) (EntLink e) (FinderLink f) = ilnk s (FinderLink f)" for f
  proof -
    have "l_prev (init_list_node (ilnk s) (EntLink e) (LineHead i)) \<noteq> FinderLink f"
      using is_list_ends(2) [OF irq_rep_list(2) [OF R i]] last_eq_or_in [of "LineHead i" "map EntLink (hl i)"]
      by (auto simp: init_list_node_other)
    then show ?thesis by (simp add: list_add_other init_list_node_other)
  qed
  ultimately show ?thesis using R by (auto simp: irq_rep_def unlinked_def)
qed

lemma irq_rep_del:
  assumes R: "irq_rep s fl hl" and i: "i < NR_IRQS" and e: "e \<in> set (hl i)"
  shows "irq_rep (s\<lparr>ilnk := list_del (ilnk s) (EntLink e), ilive := ilive s - {e}\<rparr>) fl (hl(i := remove1 e (hl i)))"
proof -
  let ?h = "list_del (ilnk s) (EntLink e)"
  have r: "rings (ilnk s) iheads (iqs fl hl)" and L: "is_list (ilnk s) (LineHead i) (map EntLink (hl i))"
    using R i irq_rep_list(2) by (auto simp: irq_rep_def)
  have "rings ?h iheads ((iqs fl hl)(LineHead i := map EntLink (remove1 e (hl i))))"
    using rings_del [OF r, of "LineHead i" "EntLink e"] i e by (simp add: map_remove1_inj inj_def)
  then have 1: "rings ?h iheads (iqs fl (hl(i := remove1 e (hl i))))" by (simp only: iqs_upd)
  have "distinct (hl i)" using is_list_distinct [OF L] by (simp add: distinct_map)
  moreover have "e \<notin> set (hl j)" if "j < NR_IRQS" "j \<noteq> i" for j
    using rings_disjoint [OF r, of "LineHead i" "LineHead j"] that i e by auto
  ultimately have 2: "\<forall>j < NR_IRQS. set ((hl(i := remove1 e (hl i))) j) \<subseteq> ilive s - {e}"
    using R i by (auto simp: irq_rep_def)
  obtain xs ys where xy: "hl i = xs @ e # ys" using e by (auto simp: in_set_conv_decomp)
  have nb: "l_prev (ilnk s (EntLink e)) \<noteq> FinderLink f" "l_next (ilnk s (EntLink e)) \<noteq> FinderLink f" for f
    using is_list_neighbours [of "ilnk s" "LineHead i" "map EntLink xs" "EntLink e" "map EntLink ys"] L
      last_eq_or_in [of "LineHead i" "map EntLink xs"] hd_append_last_in [of "map EntLink ys" "LineHead i"]
    by (auto simp: xy)
  have "?h (FinderLink f) = ilnk s (FinderLink f)" for f
    using nb [of f] by (intro list_del_other) auto
  then show ?thesis using R 1 2 by (simp add: irq_rep_def unlinked_def)
qed

lemma irq_rep_find:
  assumes R: "irq_rep s fl hl"
  shows "f \<notin> set fl \<Longrightarrow> irq_rep (s\<lparr>ilnk := list_add (ilnk s) FindHead (FinderLink f)\<rparr>) (fl @ [f]) hl"
    and "f \<in> set fl \<Longrightarrow> irq_rep (s\<lparr>ilnk := list_del (ilnk s) (FinderLink f)\<rparr>) (remove1 f fl) hl"
proof -
  have r: "rings (ilnk s) iheads (iqs fl hl)" using R by (simp add: irq_rep_def)
  have L: "is_list (ilnk s) FindHead (map FinderLink fl)" by (rule irq_rep_list(1) [OF R])
  {
    assume f: "f \<notin> set fl"
    have n: "FinderLink f \<notin> used iheads (iqs fl hl)" using f by (simp add: used_iqs)
    have 1: "rings (list_add (ilnk s) FindHead (FinderLink f)) iheads (iqs (fl @ [f]) hl)"
      using rings_add [OF r _ n, of FindHead] iqs_upd(2) [of fl hl "fl @ [f]"] by simp
    have "list_add (ilnk s) FindHead (FinderLink f) (FinderLink g) = ilnk s (FinderLink g)" if "g \<noteq> f" "g \<notin> set fl" for g
      using that is_list_ends(2) [OF L] last_eq_or_in [of FindHead "map FinderLink fl"] by (intro list_add_other) auto
    then show "irq_rep (s\<lparr>ilnk := list_add (ilnk s) FindHead (FinderLink f)\<rparr>) (fl @ [f]) hl"
      using R 1 by (auto simp: irq_rep_def unlinked_def)
  next
    assume f: "f \<in> set fl"
    have 1: "rings (list_del (ilnk s) (FinderLink f)) iheads (iqs (remove1 f fl) hl)"
      using rings_del [OF r, of FindHead "FinderLink f"] f iqs_upd(2) [of fl hl "remove1 f fl"] by (simp add: map_remove1_inj inj_def)
    obtain xs ys where xy: "fl = xs @ f # ys" using f by (auto simp: in_set_conv_decomp)
    have d: "distinct fl" using is_list_distinct [OF L] by (simp add: distinct_map)
    have "list_del (ilnk s) (FinderLink f) (FinderLink g) = ilnk s (FinderLink g)" if "g \<noteq> f" "g \<notin> set fl" for g
      using that is_list_neighbours [of "ilnk s" FindHead "map FinderLink xs" "FinderLink f" "map FinderLink ys"] L
        last_eq_or_in [of FindHead "map FinderLink xs"] hd_append_last_in [of "map FinderLink ys" FindHead]
      by (intro list_del_other) (auto simp: xy)
    then show "irq_rep (s\<lparr>ilnk := list_del (ilnk s) (FinderLink f)\<rparr>) (remove1 f fl) hl"
      using R 1 d by (auto simp: irq_rep_def) (metis unlinked_def unlinked_list_del)
  }
qed

section \<open>Registration\<close>

lemma same_mgr_simps:
  assumes "same_mgr s s'"
  shows "ilnk s' = ilnk s" "irqs s' = irqs s" "ients s' = ients s" "ilive s' = ilive s" "ifind s' = ifind s"
  using assms by (simp_all add: same_mgr_def)

text \<open>What registering a handler leaves behind when it gets to the controller.\<close>

lemma irq_rep_fields [simp]: "irq_rep (s\<lparr>iflag := b\<rparr>) = irq_rep s" "irq_rep (s\<lparr>ients := x\<rparr>) = irq_rep s" "irq_rep (s\<lparr>irqs := y\<rparr>) = irq_rep s"
  by (intro ext; simp add: irq_rep_def)+

lemma install_ok:
  fixes c :: "'a irqcodes"
  assumes c: "code_ok c" and R: "irq_rep s fl hl" and i: "nat irq < NR_IRQS" and e: "e \<notin> ilive s"
    and g: "config_irq (ctrlr_at c k) = Some g"
    and r: "runs (install_handler c irq attr prio p h e g) s rc s'"
  shows "if rc = 0 then irq_rep s' fl (hl(nat irq := hl (nat irq) @ [e])) \<and>
      ients s' = (ients s)(e := \<lparr>he_handler = h, he_private = p\<rparr>) \<and> ilive s' = insert e (ilive s)
    else irq_rep s' fl hl \<and> ilive s' = ilive s"
proof -
  let ?s1 = "s\<lparr>ilive := insert e (ilive s), ilnk := init_list_node (ilnk s) (EntLink e),
      ients := (ients s)(e := \<lparr>he_handler = h, he_private = p\<rparr>),
      irqs := (irqs s)(nat irq := (irqs s (nat irq))\<lparr>il_attr := attr, il_prio := prio\<rparr>)\<rparr>"
  define K :: "int \<Rightarrow> ('a irqst, int) kfun" where "K rc =
       (if rc \<noteq> 0 then mthen (mmod (\<lambda>s. s\<lparr>ilive := ilive s - {e}\<rparr>)) (mret rc)
        else mbind (mget (\<lambda>s. list_is_empty (ilnk s) (LineHead (nat irq)))) (\<lambda>empty.
          mthen (mwhen empty (mbind (line_ctrlr c (nat irq)) (\<lambda>ct. mcall (enable_irq ct) (\<lambda>f. f irq))))
          (mthen (upd_ilnk (\<lambda>h. list_add h (LineHead (nat irq)) (EntLink e))) (mret 0))))" for rc
  obtain rc' s2 where s2: "runs (g irq attr prio) ?s1 rc' s2" and k: "runs (K rc') s2 rc s'"
    using r unfolding install_handler_def Let_def K_def [symmetric] by (auto simp: mrun)
  have t: "(rc' \<noteq> 0 \<and> rc = rc' \<and> s' = s2\<lparr>ilive := ilive s2 - {e}\<rparr>) \<or>
      (rc = 0 \<and> (\<exists>s3. (s3 = s2 \<or> (\<exists>k f. enable_irq (ctrlr_at c k) = Some f \<and> runs (f irq) s2 () s3)) \<and>
           s' = s3\<lparr>ilnk := list_add (ilnk s3) (LineHead (nat irq)) (EntLink e)\<rparr>))"
  proof (cases "rc' = 0")
    case True
    show ?thesis
    proof (cases "list_is_empty (ilnk s2) (LineHead (nat irq))")
      case e: True
      from k True e obtain kk f s3 where "enable_irq (ctrlr_at c kk) = Some f" "runs (f irq) s2 () s3" "rc = 0"
          "s' = s3\<lparr>ilnk := list_add (ilnk s3) (LineHead (nat irq)) (EntLink e)\<rparr>"
        unfolding K_def by (auto simp: mrun)
      then show ?thesis by blast
    next
      case ne: False
      from k True ne have "rc = 0" "s' = s2\<lparr>ilnk := list_add (ilnk s2) (LineHead (nat irq)) (EntLink e)\<rparr>"
        unfolding K_def by (auto simp: mrun)
      then show ?thesis by blast
    qed
  next
    case False
    with k have "rc = rc'" "s' = s2\<lparr>ilive := ilive s2 - {e}\<rparr>" unfolding K_def by (simp_all add: mrun)
    with False show ?thesis by blast
  qed
  have m: "same_mgr ?s1 s2" by (rule keepsD [OF keeps_code(3) [OF c g] s2])
  note mm = same_mgr_simps [OF m]
  have n: "EntLink e \<notin> used iheads (iqs fl hl)" using R e unfolding irq_rep_def used_iqs by blast
  have q: "rings (init_list_node (ilnk s) (EntLink e)) iheads (iqs fl hl)"
    using R n rings_cong [of iheads "iqs fl hl" "iqs fl hl" "ilnk s" "init_list_node (ilnk s) (EntLink e)"]
    unfolding irq_rep_def by (metis init_list_node_other)
  from t show ?thesis
  proof (elim disjE conjE)
    assume "rc' \<noteq> 0" "rc = rc'" "s' = s2\<lparr>ilive := ilive s2 - {e}\<rparr>"
    moreover have "irq_rep (s2\<lparr>ilive := ilive s2 - {e}\<rparr>) fl hl"
      using R e q by (auto simp: irq_rep_def mm unlinked_def init_list_node_other)
    ultimately show ?thesis using e by (simp add: mm)
  next
    assume rc: "rc = 0" and "\<exists>s3. (s3 = s2 \<or> (\<exists>k f. enable_irq (ctrlr_at c k) = Some f \<and> runs (f irq) s2 () s3)) \<and>
           s' = s3\<lparr>ilnk := list_add (ilnk s3) (LineHead (nat irq)) (EntLink e)\<rparr>"
    then obtain s3 where en: "s3 = s2 \<or> (\<exists>k f. enable_irq (ctrlr_at c k) = Some f \<and> runs (f irq) s2 () s3)"
      and s3': "s' = s3\<lparr>ilnk := list_add (ilnk s3) (LineHead (nat irq)) (EntLink e)\<rparr>" by blast
    have "same_mgr s2 s3" using en by (auto intro: keepsD [OF keeps_code(4) [OF c]] reflpD [OF same_mgr_po(1)])
    note s3 = this s3'
    have "irq_rep s' fl (hl(nat irq := hl (nat irq) @ [e]))"
      by (rule irq_rep_cong [OF _ _ irq_rep_add [OF R i e]]) (simp_all add: mm same_mgr_simps [OF s3(1)] s3(2))
    then show ?thesis using rc by (simp add: mm same_mgr_simps [OF s3(1)] s3(2))
  qed
qed

definition fresh :: "nat option \<Rightarrow> 'd irqst \<Rightarrow> bool" where
  "fresh mem s = (\<forall>e. mem = Some e \<longrightarrow> e \<notin> ilive s)"

lemma irq_reg_ok:
  assumes c: "code_ok c" and R: "irq_rep s fl hl" and f: "fresh mem s"
    and r: "runs (irq_register_handler c irq attr prio p h mem) s rc s'"
  shows "if rc = 0 then \<exists>e. mem = Some e \<and> 0 \<le> irq \<and> irq < int NR_IRQS \<and> irq_rep s' fl (hl(nat irq := hl (nat irq) @ [e])) \<and>
      ients s' = (ients s)(e := \<lparr>he_handler = h, he_private = p\<rparr>) \<and> ilive s' = insert e (ilive s)
    else irq_rep s' fl hl \<and> ilive s' = ilive s"
proof (cases "irq < 0 \<or> irq \<ge> int NR_IRQS")
  case True
  then show ?thesis using r R unfolding irq_register_handler_def if_P [OF True] by (simp add: mrun)
next
  case i: False
  have "(rc \<noteq> 0 \<and> s' = s) \<or> (\<exists>k g e t. config_irq (ctrlr_at c k) = Some g \<and> mem = Some e \<and>
      runs (install_handler c irq attr prio p h e g) (s\<lparr>iflag := False\<rparr>) rc t \<and> s' = t\<lparr>iflag := iflag s\<rparr>)"
    using r unfolding irq_register_handler_def Let_def if_not_P [OF i] by (auto simp: mrun split: if_splits option.splits)
  then show ?thesis
  proof (elim disjE conjE exE)
    fix k g e t assume a: "config_irq (ctrlr_at c k) = Some g" "mem = Some e"
      "runs (install_handler c irq attr prio p h e g) (s\<lparr>iflag := False\<rparr>) rc t" "s' = t\<lparr>iflag := iflag s\<rparr>"
    have "irq_rep (s\<lparr>iflag := False\<rparr>) fl hl" "nat irq < NR_IRQS" "e \<notin> ilive (s\<lparr>iflag := False\<rparr>)"
      using R i f a(2) by (auto simp: fresh_def)
    from install_ok [OF c this a(1,3)] show ?thesis using a(2,4) i by (auto split: if_splits)
  qed (use R in simp)
qed

lemma find_append_None: "find P xs = None \<Longrightarrow> find P (xs @ ys) = find P ys"
  by (induction xs) (auto split: if_splits)

lemma find_map_ent: "find (has_handler s h) (map EntLink es) = map_option EntLink (find (\<lambda>e. he_handler (ients s e) = h) es)"
  by (induction es) (auto simp: has_handler_def)

lemma irq_unreg_ok:
  assumes c: "code_ok c" and R: "irq_rep s fl hl" and i: "0 \<le> irq" "irq < int NR_IRQS"
    and r: "runs (irq_unregister_handler c irq h) s rc s'"
  shows "case find (\<lambda>e. he_handler (ients s e) = h) (hl (nat irq)) of
      None \<Rightarrow> rc = ENOENT \<and> s' = s
    | Some e \<Rightarrow> rc = 0 \<and> e \<in> set (hl (nat irq)) \<and> irq_rep s' fl (hl(nat irq := remove1 e (hl (nat irq)))) \<and>
        ilive s' = ilive s - {e} \<and> ients s' = ients s"
proof -
  let ?i = "nat irq"
  have n: "?i < NR_IRQS" and nv: "\<not> (irq < 0 \<or> irq \<ge> int NR_IRQS)" using i by auto
  have w: "list_for_each (ilnk s) (LineHead ?i) (has_handler (s\<lparr>iflag := b\<rparr>) h) =
      Some (case find (\<lambda>e. he_handler (ients s e) = h) (hl ?i) of None \<Rightarrow> LineHead ?i | Some e \<Rightarrow> EntLink e)" for b
    unfolding list_for_each_is_list [OF irq_rep_list(2) [OF R n]] find_map_ent by (auto split: option.split)
  note r' = r [unfolded irq_unregister_handler_def Let_def if_not_P [OF nv]]
  show ?thesis
  proof (cases "find (\<lambda>e. he_handler (ients s e) = h) (hl ?i)")
    case None
    then show ?thesis using r' by (auto simp: mrun w)
  next
    case (Some e)
    then have e: "e \<in> set (hl ?i)" by (auto simp: find_Some_iff)
    let ?s1 = "s\<lparr>iflag := False, ilnk := list_del (ilnk s) (EntLink e), ilive := ilive s - {e}\<rparr>"
    from r' Some obtain b s2 where s2: "runs (mwhen b (mbind (line_ctrlr c ?i) (\<lambda>ct. mcall (disable_irq ct) (\<lambda>f. f irq)))) ?s1 () s2"
      and t: "rc = 0" "s' = s2\<lparr>iflag := iflag s\<rparr>"
      by (auto simp: runs_mbind runs_mthen runs_mget runs_mmod runs_irq_basic runs_mret w)
    have "same_mgr ?s1 s2"
      by (rule keepsD [OF keeps_refl(6) [OF same_mgr_po(1) keeps_line_ctrlr] s2]) (rule keeps_mcall, rule keeps_code(5) [OF c])
    note m = same_mgr_simps [OF this]
    have "irq_rep s' fl (hl(?i := remove1 e (hl ?i)))"
      by (rule irq_rep_cong [OF _ _ irq_rep_del [OF R n e]]) (simp_all add: t m)
    then show ?thesis using Some e t by (simp add: m)
  qed
qed

lemma finder_ok:
  assumes R: "irq_rep s fl hl"
  shows "runs (irq_register_pending_irq_finder f) s u s' \<Longrightarrow> f \<notin> set fl \<and> irq_rep s' (fl @ [f]) hl"
    and "runs (irq_unregister_pending_irq_finder f) s u s' \<Longrightarrow> f \<in> set fl \<and> irq_rep s' (remove1 f fl) hl"
proof -
  have l: "list_is_linked (ilnk s) (FinderLink f) \<longleftrightarrow> f \<in> set fl"
  proof
    show "f \<in> set fl" if "list_is_linked (ilnk s) (FinderLink f)"
      using R that by (auto simp: irq_rep_def list_is_linked_iff)
    assume "f \<in> set fl"
    then obtain xs ys where "fl = xs @ f # ys" by (auto simp: in_set_conv_decomp)
    then have "l_prev (ilnk s (FinderLink f)) = last (FindHead # map FinderLink xs)" "distinct (FindHead # map FinderLink fl)"
      using is_list_neighbours(1) [of "ilnk s" FindHead "map FinderLink xs" "FinderLink f" "map FinderLink ys"] irq_rep_list(1) [OF R]
        is_list_distinct [OF irq_rep_list(1) [OF R]] by auto
    then have "l_prev (ilnk s (FinderLink f)) \<noteq> FinderLink f"
      using \<open>fl = xs @ f # ys\<close> last_eq_or_in [of FindHead "map FinderLink xs"] by auto
    then show "list_is_linked (ilnk s) (FinderLink f)" by (simp add: list_is_linked_def)
  qed
  show "runs (irq_register_pending_irq_finder f) s u s' \<Longrightarrow> f \<notin> set fl \<and> irq_rep s' (fl @ [f]) hl"
    using irq_rep_find(1) [OF R, of f] l by (auto simp: irq_register_pending_irq_finder_def mrun irq_rep_def)
  show "runs (irq_unregister_pending_irq_finder f) s u s' \<Longrightarrow> f \<in> set fl \<and> irq_rep s' (remove1 f fl) hl"
    using irq_rep_find(2) [OF R, of f] l by (auto simp: irq_unregister_pending_irq_finder_def mrun irq_rep_def)
qed

section \<open>The lists stay well formed\<close>

lemma init_list_head_other: "m \<noteq> n \<Longrightarrow> init_list_head h n m = h m"
  by (simp add: init_list_head_def Let_def set_next_other set_prev_other)

lemma irq_init_ok:
  fixes s :: "'d irqst"
  assumes "\<forall>f. unlinked (ilnk s) (FinderLink f)"
  shows "\<exists>s'. runs irq_initialize_manager s 0 s' \<and> irq_rep s' [] (\<lambda>_. []) \<and> (\<forall>i < NR_IRQS. irqs s' i = \<lparr>il_nr = int i, il_attr = 0, il_prio = 0, il_ctrlrp = None\<rparr>) \<and>
    iflag s' = iflag s \<and> idev s' = idev s \<and> ifind s' = ifind s \<and> ilive s' = ilive s \<and> ijunk s' = ijunk s \<and> ipreempt s' = ipreempt s"
proof -
  let ?L = "\<lambda>i. \<lparr>il_nr = int i, il_attr = 0, il_prio = 0, il_ctrlrp = None\<rparr>"
  let ?b = "\<lambda>i. mthen (upd_line i (\<lambda>l. l\<lparr>il_nr := int i, il_attr := 0, il_prio := 0\<rparr>))
        (mthen (upd_ilnk (\<lambda>h. init_list_head h (LineHead i))) (upd_line i (\<lambda>l. l\<lparr>il_ctrlrp := None\<rparr>)))"
  let ?P = "\<lambda>k t. is_list (ilnk t) FindHead [] \<and> (\<forall>i < k. is_list (ilnk t) (LineHead i) [] \<and> irqs t i = ?L i) \<and>
      (\<forall>f. unlinked (ilnk t) (FinderLink f)) \<and> iflag t = False \<and> idev t = idev s \<and> ifind t = ifind s \<and> ilive t = ilive s \<and> ijunk t = ijunk s \<and> ipreempt t = ipreempt s"
  have 0: "?P 0 (s\<lparr>iflag := False, ilnk := init_list_head (ilnk s) FindHead\<rparr>)"
    using assms by (simp add: is_list_init_head unlinked_def init_list_head_other)
  obtain s1 where s1: "runs (mfor_each [0..<NR_IRQS] ?b) (s\<lparr>iflag := False, ilnk := init_list_head (ilnk s) FindHead\<rparr>) () s1" "?P NR_IRQS s1"
  proof (rule exE [OF runs_mfor_each_upt [where P = ?P, OF 0]])
    fix k and t :: "'d irqst" assume P: "?P k t"
    let ?t = "t\<lparr>irqs := (irqs t)(k := ?L k), ilnk := init_list_head (ilnk t) (LineHead k)\<rparr>"
    have "runs (?b k) t () ?t" by (simp add: mrun; rule irqst.equality; simp add: fun_eq_iff)
    moreover have "?P (Suc k) ?t"
    proof -
      have fr: "is_list (ilnk ?t) a [] = is_list (ilnk t) a []" if "a \<noteq> LineHead k" for a
        using that by (intro is_list_frame) (simp add: init_list_head_other)
      have "is_list (ilnk ?t) (LineHead i) []" if "i < Suc k" for i
      proof (cases "i = k")
        case True
        then show ?thesis by (simp add: is_list_init_head)
      next
        case False
        then show ?thesis using P that fr [of "LineHead i"] by simp
      qed
      moreover have "is_list (ilnk ?t) FindHead []" using P fr [of FindHead] by simp
      moreover have "unlinked (ilnk ?t) (FinderLink f)" for f using P by (simp add: unlinked_def init_list_head_other)
      ultimately show ?thesis using P by (simp add: less_Suc_eq)
    qed
    ultimately show "\<exists>t'. runs (?b k) t () t' \<and> ?P (Suc k) t'" by blast
  qed (use that in auto)
  have "irq_rep (s1\<lparr>iflag := iflag s\<rparr>) [] (\<lambda>_. [])"
    using s1(2) by (auto simp: irq_rep_def rings_def iheads_def)
  moreover have "runs irq_initialize_manager s 0 (s1\<lparr>iflag := iflag s\<rparr>)"
    unfolding irq_initialize_manager_def using s1(1) by (auto simp: mrun)
  ultimately show ?thesis using s1(2) by (intro exI [of _ "s1\<lparr>iflag := iflag s\<rparr>"]) simp
qed

text \<open>
  The states of the manager: after its initialisation drivers register and unregister, interrupts
  are handled, and in between devices, the interrupt flag and stray memory may change.
\<close>

inductive irqreach :: "'d irqcodes \<Rightarrow> 'd irqst \<Rightarrow> bool" for c where
  init: "\<forall>f. unlinked (ilnk s) (FinderLink f) \<Longrightarrow> runs irq_initialize_manager s r s' \<Longrightarrow> irqreach c s'"
| ctrlr: "irqreach c s \<Longrightarrow> runs (irq_register_ctrlr irq k) s r s' \<Longrightarrow> irqreach c s'"
| no_ctrlr: "irqreach c s \<Longrightarrow> runs (irq_unregister_ctrlr irq) s r s' \<Longrightarrow> irqreach c s'"
| reg: "irqreach c s \<Longrightarrow> fresh mem s \<Longrightarrow> runs (irq_register_handler c irq attr prio p h mem) s r s' \<Longrightarrow> irqreach c s'"
| unreg: "irqreach c s \<Longrightarrow> runs (irq_unregister_handler c irq h) s r s' \<Longrightarrow> irqreach c s'"
| finder: "irqreach c s \<Longrightarrow> runs (irq_register_pending_irq_finder f) s u s' \<Longrightarrow> irqreach c s'"
| no_finder: "irqreach c s \<Longrightarrow> runs (irq_unregister_pending_irq_finder f) s u s' \<Longrightarrow> irqreach c s'"
| irq: "irqreach c s \<Longrightarrow> runs (irq_handle_irq c exc) s r s' \<Longrightarrow> irqreach c s'"
| world: "irqreach c s \<Longrightarrow> irqreach c (s\<lparr>iflag := b, ifind := g, ijunk := j, ipreempt := w, idev := d\<rparr>)"

lemma irqreach_rep:
  assumes c: "code_ok c" and r: "irqreach c s"
  shows "\<exists>fl hl. irq_rep s fl hl"
  using r
proof (induction rule: irqreach.induct)
  case (init s r s')
  then show ?case using irq_init_ok by (metis runs_det)
next
  case (ctrlr s irq k r s')
  then show ?case by (auto simp: irq_register_ctrlr_def mrun split: if_splits)
next
  case (no_ctrlr s irq r s')
  then show ?case by (auto simp: irq_unregister_ctrlr_def mrun split: if_splits)
next
  case (reg s mem irq attr prio p h r s')
  then show ?case using irq_reg_ok [OF c] by (metis (full_types))
next
  case (unreg s irq h r s')
  then obtain fl hl where R: "irq_rep s fl hl" by blast
  show ?case
  proof (cases "0 \<le> irq \<and> irq < int NR_IRQS")
    case True
    then show ?thesis using irq_unreg_ok [OF c R _ _ unreg(2)] R by (auto split: option.splits)
  next
    case False
    then have "s' = s" using unreg(2) by (auto simp: irq_unregister_handler_def mrun)
    then show ?thesis using R by blast
  qed
next
  case (finder s f u s')
  then show ?case using finder_ok(1) by blast
next
  case (no_finder s f u s')
  then show ?case using finder_ok(2) by blast
next
  case (irq s exc r s')
  then show ?case using keepsD [OF keeps_find_turn(2) [OF c]] irq_rep_same_mgr by metis
next
  case (world s b g j w d)
  then show ?case by (auto simp: irq_rep_def)
qed

section \<open>What an interrupt does, on lists\<close>

text \<open>A piece of code that runs with interrupts off.\<close>

definition quietly :: "('d irqst, 'a) kfun \<Rightarrow> ('d irqst, 'a) kfun" where
  "quietly m = mbind irq_save (\<lambda>psw. mbind m (\<lambda>r. mthen (irq_restore psw) (mret r)))"

text \<open>The handlers of a line with their arguments, in the order of the list; entries without a handler do not count.\<close>

definition handlers_of :: "'d irqst \<Rightarrow> nat list \<Rightarrow> (nat \<times> nat) list" where
  "handlers_of s es = List.map_filter (\<lambda>e. map_option (\<lambda>h. (h, he_private (ients s e))) (he_handler (ients s e))) es"

text \<open>All handlers of a line are called, one after the other; the result is what each returned.\<close>

fun call_all :: "'d irqcodes \<Rightarrow> bool \<Rightarrow> int \<Rightarrow> exception_frame \<Rightarrow> (nat \<times> nat) list \<Rightarrow> ('d irqst, int list) kfun" where
  "call_all c nest irq exc [] = mret []"
| "call_all c nest irq exc ((h, p) # hs) =
     mthen (mwhen nest irq_sti) (mbind (handler_at c h irq exc p) (\<lambda>r. mthen irq_cli
       (mbind (call_all c nest irq exc hs) (\<lambda>rs. mret (r # rs)))))"

text \<open>
  Serving a line: the controller masks it (or raises the mask level to its priority) and gets the end of
  interrupt, the handlers run, and the controller is set back.
\<close>

definition serve_line :: "'d irqcodes \<Rightarrow> irq_line \<Rightarrow> (nat \<times> nat) list \<Rightarrow> int \<Rightarrow> int \<Rightarrow> exception_frame \<Rightarrow> ('d irqst, int) kfun" where
  "serve_line c line hs junk irq exc =
     (case il_ctrlrp line of
        None \<Rightarrow> mstop Kassert
      | Some k \<Rightarrow> (let ct = ctrlr_at c k; levels = (set_priority ct \<noteq> None) in
          if (disable_irq ct = None \<and> (get_priority ct = None \<or> \<not> levels)) \<or> enable_irq ct = None \<or> eoi ct = None
          then mstop Kassert
          else quietly
            (mbind (if levels then mbind (mcall (get_priority ct) (\<lambda>f. f)) (\<lambda>old. mthen (mcall (set_priority ct) (\<lambda>f. f (il_prio line))) (mret old))
                    else mthen (mcall (disable_irq ct) (\<lambda>f. f irq)) (mret junk)) (\<lambda>old.
             mthen (mcall (eoi ct) (\<lambda>f. f irq))
             (mbind (quietly (call_all c (il_attr line AND IRQ_ATTR_NON_NESTABLE = 0) irq exc hs)) (\<lambda>rs.
              mthen (if levels then mcall (set_priority ct) (\<lambda>f. f old) else mcall (enable_irq ct) (\<lambda>f. f irq))
              (mret (if IRQ_HANDLED \<in> set rs then 0 else junk))))))))"

lemma invoke_fold:
  assumes c: "code_ok c" and m: "same_mgr s t" and a: "nest = (il_attr (irqs s l) AND 2 = 0)"
  shows "mfold (invoke_turn c l irq exc) (map EntLink es) rc t =
    mbind (call_all c nest irq exc (handlers_of s es)) (\<lambda>rs. mret (if 0 \<in> set rs then 0 else rc)) t"
  using m
proof (induction es arbitrary: rc t)
  case Nil
  then show ?case by (simp add: handlers_of_def List.map_filter_def mexec)
next
  case (Cons e es)
  have eq: "ients t = ients s" "irqs t = irqs s" using Cons.prems by (simp_all add: same_mgr_def)
  show ?case
  proof (cases "he_handler (ients s e)")
    case None
    then show ?thesis using Cons.IH [OF Cons.prems] eq by (simp add: handlers_of_def List.map_filter_simps mexec invoke_turn_def)
  next
    case (Some h)
    let ?p = "he_private (ients s e)" and ?t = "if nest then t\<lparr>iflag := True\<rparr> else t"
    have hs: "handlers_of s (e # es) = (h, ?p) # handlers_of s es" using Some by (simp add: handlers_of_def List.map_filter_simps)
    show ?thesis
    proof (cases "handler_at c h irq exc ?p ?t")
      case (Ok q)
      obtain r u where q: "q = (r, u)" by (cases q)
      have "same_mgr t ?t" by (simp add: same_mgr_def)
      moreover have "same_mgr ?t u" using keepsD [OF keeps_code(1) [OF c]] Ok q by (simp add: runs_def)
      ultimately have "same_mgr s (u\<lparr>iflag := False\<rparr>)" using Cons.prems by (simp add: same_mgr_def)
      from Cons.IH [OF this, of "if r = 0 then 0 else rc"] show ?thesis
        using Ok q Some eq a unfolding hs
        by (cases "call_all c nest irq exc (handlers_of s es) (u\<lparr>iflag := False\<rparr>)")
          (auto simp: mexec invoke_turn_def irq_sti_def irq_cli_def)
    next
      case (Stop x)
      then show ?thesis using Some eq a unfolding hs by (auto simp: mexec invoke_turn_def irq_sti_def)
    qed
  qed
qed

lemma invoke_serves:
  assumes c: "code_ok c" and R: "irq_rep s fl hl" and m: "same_mgr s t" and l: "l < NR_IRQS"
  shows "invoke_irq_handler c l irq exc t =
    mbind (quietly (call_all c (il_attr (irqs s l) AND 2 = 0) irq exc (handlers_of s (hl l)))) (\<lambda>rs. mret (if 0 \<in> set rs then 0 else ESRCH)) t"
proof -
  let ?t = "t\<lparr>iflag := False\<rparr>"
  have m': "same_mgr s ?t" using m by (simp add: same_mgr_def)
  have L: "is_list (ilnk ?t) (LineHead l) (map EntLink (hl l))" using irq_rep_list(2) [OF R l] m by (simp add: same_mgr_def)
  have "list_walk ilnk (LineHead l) (invoke_turn c l irq exc) ESRCH ?t = mfold (invoke_turn c l irq exc) (map EntLink (hl l)) ESRCH ?t"
    by (rule list_walk_is_list [where I = "\<lambda>_. True" and lk = ilnk, OF L])
      (auto dest: same_mgr_simps(1) [OF keepsD [OF keeps_invoke_irq_handler(1) [OF c]]])
  then show ?thesis
    using invoke_fold [OF c m' refl, of l irq exc "hl l" ESRCH]
    by (cases "call_all c (il_attr (irqs s l) AND 2 = 0) irq exc (handlers_of s (hl l)) ?t")
      (auto simp: invoke_irq_handler_def quietly_def mexec irq_save_def irq_restore_def)
qed

lemma quietly_at: "quietly m t = mbind m (\<lambda>r. mthen (irq_restore (iflag t)) (mret r)) (t\<lparr>iflag := False\<rparr>)"
  by (simp add: quietly_def mexec irq_save_def)

lemma line_serves:
  assumes c: "code_ok c" and R: "irq_rep s fl hl" and m: "same_mgr s t" and l: "l < NR_IRQS"
  shows "handle_irq_line c l irq exc t = serve_line c (irqs s l) (handlers_of s (hl l)) (ijunk s) irq exc t"
proof (cases "il_ctrlrp (irqs s l)")
  case None
  then show ?thesis using m by (simp add: handle_irq_line_def serve_line_def mexec same_mgr_def)
next
  case (Some k)
  define ct where "ct = ctrlr_at c k"
  note tr = transpD [OF same_mgr_po(2)]
  have t: "il_ctrlrp (irqs t l) = Some k" using Some m by (simp add: same_mgr_def)
  have lc: "mbind (line_ctrlr c l) f u = f ct u" if "same_mgr s u" for f :: "'a irqst irq_ctrlr \<Rightarrow> ('a irqst, 'b) kfun" and u
    using that Some by (simp add: line_ctrlr_def mexec same_mgr_def ct_def)
  show ?thesis
  proof (cases "(disable_irq ct = None \<and> (get_priority ct = None \<or> set_priority ct = None)) \<or> enable_irq ct = None \<or> eoi ct = None")
    case True
    then show ?thesis using t Some by (auto simp: handle_irq_line_def serve_line_def mexec ct_def Let_def)
  next
    case ok: False
    let ?t = "t\<lparr>iflag := False\<rparr>"
    have mt: "same_mgr s ?t" using m by (simp add: same_mgr_def)
    define mask where "mask = (if set_priority ct = None then mthen (mcall (disable_irq ct) (\<lambda>f. f irq)) (mret (ijunk s))
        else mbind (mcall (get_priority ct) (\<lambda>f. f)) (\<lambda>old. mthen (mcall (set_priority ct) (\<lambda>f. f (il_prio (irqs s l)))) (mret old)))"
    define rest where "rest old = mbind (line_ctrlr c l) (\<lambda>ct. mthen (mcall (eoi ct) (\<lambda>f. f irq))
     (mbind (invoke_irq_handler c l irq exc) (\<lambda>rc. mbind (mget ijunk) (\<lambda>junk.
     let is_handled = (if rc = 0 then 0 else junk) in
     mbind (line_ctrlr c l) (\<lambda>ct. mthen (if set_priority ct = None then mcall (enable_irq ct) (\<lambda>f. f irq) else mcall (set_priority ct) (\<lambda>f. f old))
     (mthen (irq_restore (iflag t)) (mret is_handled)))))))" for old
    define rest' where "rest' old = mthen (mcall (eoi ct) (\<lambda>f. f irq))
             (mbind (quietly (call_all c (il_attr (irqs s l) AND 2 = 0) irq exc (handlers_of s (hl l)))) (\<lambda>rs.
              mthen (if set_priority ct = None then mcall (enable_irq ct) (\<lambda>f. f irq) else mcall (set_priority ct) (\<lambda>f. f old))
              (mthen (irq_restore (iflag t)) (mret (if 0 \<in> set rs then 0 else ijunk s)))))" for old
    have kc: "keeps same_mgr (mcall (disable_irq ct) (\<lambda>f. f irq))" "keeps same_mgr (mcall (get_priority ct) (\<lambda>f. f))"
        "keeps same_mgr (mcall (eoi ct) (\<lambda>f. f irq))"
      unfolding ct_def by (rule keeps_mcall; rule keeps_code [OF c]; assumption)+
    have km: "keeps same_mgr mask" unfolding mask_def ct_def by (intro mgr_rules; (rule keeps_code [OF c]; assumption))
    have h: "handle_irq_line c l irq exc t = mbind mask rest ?t"
    proof -
      have "handle_irq_line c l irq exc t = mbind (line_ctrlr c l) (\<lambda>ct. mbind (if set_priority ct = None
            then mthen (mcall (disable_irq ct) (\<lambda>f. f irq)) (mget ijunk)
            else mbind (mcall (get_priority ct) (\<lambda>f. f)) (\<lambda>prio.
                 mbind (mget (\<lambda>s. il_prio (irqs s l))) (\<lambda>lprio.
                 mthen (mcall (set_priority ct) (\<lambda>f. f lprio)) (mret prio)))) rest) ?t"
        unfolding handle_irq_line_def rest_def using t ok
        by (simp add: mexec irq_save_def ct_def Let_def)
      also have "\<dots> = mbind mask rest ?t" unfolding lc [OF mt]
      proof (rule mbind_cong)
        have j: "ijunk u = ijunk s" "irqs u = irqs s" if "same_mgr ?t u" for u
          using that mt by (simp_all add: same_mgr_def)
        have d: "same_mgr ?t u" if "runs (mcall (disable_irq ct) (\<lambda>f. f irq)) ?t x u" for x u
          by (rule keepsD [OF kc(1) that])
        have g: "same_mgr ?t u" if "runs (mcall (get_priority ct) (\<lambda>f. f)) ?t x u" for x u
          by (rule keepsD [OF kc(2) that])
        show "(if set_priority ct = None then mthen (mcall (disable_irq ct) (\<lambda>f. f irq)) (mget ijunk)
            else mbind (mcall (get_priority ct) (\<lambda>f. f)) (\<lambda>prio. mbind (mget (\<lambda>s. il_prio (irqs s l))) (\<lambda>lprio.
                 mthen (mcall (set_priority ct) (\<lambda>f. f lprio)) (mret prio)))) ?t = mask ?t"
        proof (cases "set_priority ct = None")
          case True
          then show ?thesis unfolding mask_def by (simp only: simp_thms if_True, intro mthen_cong) (simp_all add: mexec j [OF d])
        next
          case False
          then show ?thesis unfolding mask_def by (simp only: simp_thms if_False, intro mbind_cong) (simp_all add: mexec j [OF g])
        qed
      qed simp
      finally show ?thesis .
    qed
    have "serve_line c (irqs s l) (handlers_of s (hl l)) (ijunk s) irq exc t = mbind mask rest' ?t"
    proof -
      have i: "(if x \<noteq> None then a else b) = (if x = None then b else a)" for x :: "'x option" and a b :: 'y by simp
      show ?thesis using ok unfolding serve_line_def Some option.case Let_def ct_def [symmetric] not_not i
        by (simp only: if_False quietly_at mbind_assoc mbind_mthen mbind_mret rest'_def [abs_def] mask_def)
    qed
    moreover have "mbind mask rest ?t = mbind mask rest' ?t"
    proof (rule mbind_cong [OF refl])
      fix old u assume "runs mask ?t old u"
      then have u: "same_mgr s u" using keepsD [OF km] tr [OF mt] by blast
      have "rest old u = mthen (mcall (eoi ct) (\<lambda>f. f irq))
          (mbind (invoke_irq_handler c l irq exc) (\<lambda>rc. mbind (mget ijunk) (\<lambda>junk.
             mbind (line_ctrlr c l) (\<lambda>ct. mthen (if set_priority ct = None then mcall (enable_irq ct) (\<lambda>f. f irq) else mcall (set_priority ct) (\<lambda>f. f old))
             (mthen (irq_restore (iflag t)) (mret (if rc = 0 then 0 else junk))))))) u"
        unfolding rest_def Let_def lc [OF u] ..
      also have "\<dots> = rest' old u" unfolding rest'_def
      proof (rule mthen_cong [OF refl])
        fix x v assume "runs (mcall (eoi ct) (\<lambda>f. f irq)) u x v"
        then have v: "same_mgr s v" using keepsD [OF kc(3)] tr [OF u] by blast
        show "mbind (invoke_irq_handler c l irq exc) (\<lambda>rc. mbind (mget ijunk) (\<lambda>junk.
             mbind (line_ctrlr c l) (\<lambda>ct. mthen (if set_priority ct = None then mcall (enable_irq ct) (\<lambda>f. f irq) else mcall (set_priority ct) (\<lambda>f. f old))
             (mthen (irq_restore (iflag t)) (mret (if rc = 0 then 0 else junk)))))) v =
           mbind (quietly (call_all c (il_attr (irqs s l) AND 2 = 0) irq exc (handlers_of s (hl l)))) (\<lambda>rs.
              mthen (if set_priority ct = None then mcall (enable_irq ct) (\<lambda>f. f irq) else mcall (set_priority ct) (\<lambda>f. f old))
              (mthen (irq_restore (iflag t)) (mret (if 0 \<in> set rs then 0 else ijunk s)))) v"
          (is "mbind _ ?f v = mbind ?q ?g v")
        proof -
          have "mbind (invoke_irq_handler c l irq exc) ?f v = mbind (mbind ?q (\<lambda>rs. mret (if 0 \<in> set rs then 0 else ESRCH))) ?f v"
            unfolding mbind_def [of "invoke_irq_handler c l irq exc"] mbind_def [of "mbind ?q _"] invoke_serves [OF c R v l] ..
          also have "\<dots> = mbind ?q ?g v"
            unfolding mbind_assoc
          proof (rule mbind_cong [OF refl])
            fix rs w assume q: "runs ?q v rs w"
            have "same_mgr v w"
              using q invoke_serves [OF c R v l, of irq exc] keepsD [OF keeps_invoke_irq_handler(2) [OF c, of l irq exc], of v]
              by (auto simp: runs_def mexec)
            then have w: "same_mgr s w" using tr [OF v] by blast
            then have "ijunk w = ijunk s" by (simp add: same_mgr_def)
            then show "mbind (mret (if 0 \<in> set rs then 0 else ESRCH)) ?f w = ?g rs w"
              unfolding mbind_mret mbind_mget lc [OF w] by simp
          qed
          finally show ?thesis .
        qed
      qed
      finally show "rest old u = rest' old u" .
    qed
    ultimately show ?thesis using h by simp
  qed
qed

text \<open>The finders are asked in turn, and every line one of them reports is served.\<close>

fun serve_pending :: "'d irqcodes \<Rightarrow> exception_frame \<Rightarrow> (nat \<Rightarrow> irq_line) \<Rightarrow> (nat \<Rightarrow> (nat \<times> nat) list) \<Rightarrow> int \<Rightarrow>
    nat option list \<Rightarrow> int \<Rightarrow> ('d irqst, int) kfun" where
  "serve_pending c exc ln hs junk [] r = mret r"
| "serve_pending c exc ln hs junk (None # fs) r = mstop Kassert"
| "serve_pending c exc ln hs junk (Some p # fs) r =
     mbind (finder_at c p exc) (\<lambda>(rc, irq).
     mbind (if rc \<noteq> IRQ_FOUND then mret r
            else if irq < 0 \<or> irq \<ge> int NR_IRQS then mstop Kfault
            else mbind (serve_line c (ln (nat irq)) (hs (nat irq)) junk irq exc) (\<lambda>q. mret (if q = 0 then 0 else r)))
       (serve_pending c exc ln hs junk fs))"

lemma find_fold:
  assumes c: "code_ok c" and R: "irq_rep s fl hl" and m: "same_mgr s t"
  shows "mfold (find_turn c exc) (map FinderLink fs) r t =
    serve_pending c exc (irqs s) (\<lambda>l. handlers_of s (hl l)) (ijunk s) (map (ifind s) fs) r t"
  using m
proof (induction fs arbitrary: r t)
  case (Cons f fs)
  note tr = transpD [OF same_mgr_po(2)]
  have f: "ifind t f = ifind s f" using Cons.prems by (simp add: same_mgr_def)
  show ?case
  proof (cases "ifind s f")
    case None
    then show ?thesis using f by (simp add: find_turn_def mexec)
  next
    case (Some p)
    have "mfold (find_turn c exc) (map FinderLink (f # fs)) r t = mbind (finder_at c p exc) (\<lambda>(rc, irq).
        mbind (if rc = IRQ_FOUND then mthen (mguard (0 \<le> irq \<and> irq < int NR_IRQS))
              (mbind (handle_irq_line c (nat irq) irq exc) (\<lambda>rc. mret (if rc = 0 then 0 else r))) else mret r)
          (mfold (find_turn c exc) (map FinderLink fs))) t"
      using f Some by (simp add: find_turn_def mexec mcall_def obind_assoc split_def)
    also have "\<dots> = serve_pending c exc (irqs s) (\<lambda>l. handlers_of s (hl l)) (ijunk s) (map (ifind s) (f # fs)) r t"
      unfolding list.map Some serve_pending.simps
    proof (rule mbind_cong [OF refl], clarify)
      fix rc irq u assume "runs (finder_at c p exc) t (rc, irq) u"
      then have u: "same_mgr s u" using keepsD [OF keeps_code(2) [OF c]] tr [OF Cons.prems] by blast
      have ih: "mfold (find_turn c exc) (map FinderLink fs) q v =
          serve_pending c exc (irqs s) (\<lambda>l. handlers_of s (hl l)) (ijunk s) (map (ifind s) fs) q v" if "same_mgr u v" for q v
        using Cons.IH tr [OF u that] by blast
      consider "rc \<noteq> 0" | "rc = 0" "irq < 0 \<or> irq \<ge> int NR_IRQS" | "rc = 0" "\<not> (irq < 0 \<or> irq \<ge> int NR_IRQS)" by blast
      then show "mbind (if rc = IRQ_FOUND then mthen (mguard (0 \<le> irq \<and> irq < int NR_IRQS))
              (mbind (handle_irq_line c (nat irq) irq exc) (\<lambda>rc. mret (if rc = 0 then 0 else r))) else mret r)
          (mfold (find_turn c exc) (map FinderLink fs)) u =
        mbind (if rc \<noteq> IRQ_FOUND then mret r else if irq < 0 \<or> irq \<ge> int NR_IRQS then mstop Kfault
            else mbind (serve_line c (irqs s (nat irq)) (handlers_of s (hl (nat irq))) (ijunk s) irq exc) (\<lambda>q. mret (if q = 0 then 0 else r)))
          (serve_pending c exc (irqs s) (\<lambda>l. handlers_of s (hl l)) (ijunk s) (map (ifind s) fs)) u"
      proof cases
        case 1
        then show ?thesis using ih [OF reflpD [OF same_mgr_po(1)]] by (simp add: mbind_mret)
      next
        case 2
        then show ?thesis by (auto simp: mexec)
      next
        case 3
        then have l: "nat irq < NR_IRQS" by auto
        have "mbind (handle_irq_line c (nat irq) irq exc) (\<lambda>rc. mfold (find_turn c exc) (map FinderLink fs) (if rc = 0 then 0 else r)) u =
          mbind (serve_line c (irqs s (nat irq)) (handlers_of s (hl (nat irq))) (ijunk s) irq exc)
            (\<lambda>q. serve_pending c exc (irqs s) (\<lambda>l. handlers_of s (hl l)) (ijunk s) (map (ifind s) fs) (if q = 0 then 0 else r)) u"
        proof (rule mbind_cong, rule line_serves [OF c R u l])
          fix q v assume "runs (serve_line c (irqs s (nat irq)) (handlers_of s (hl (nat irq))) (ijunk s) irq exc) u q v"
          then have "runs (handle_irq_line c (nat irq) irq exc) u q v" by (simp add: runs_def line_serves [OF c R u l])
          then have "same_mgr u v" by (rule keepsD [OF keeps_handle_irq_line [OF c]])
          then show "mfold (find_turn c exc) (map FinderLink fs) (if q = 0 then 0 else r) v =
            serve_pending c exc (irqs s) (\<lambda>l. handlers_of s (hl l)) (ijunk s) (map (ifind s) fs) (if q = 0 then 0 else r) v"
            by (rule ih)
        qed
        then show ?thesis using 3 by (simp add: mbind_assoc mbind_mthen mbind_mret mthen_def [of "mret ()"] mguard_def)
      qed
    qed
    finally show ?thesis .
  qed
qed simp

lemma dispatch_eq:
  assumes c: "code_ok c" and R: "irq_rep s fl hl"
  shows "irq_handle_irq c exc s =
    quietly (serve_pending c exc (irqs s) (\<lambda>l. handlers_of s (hl l)) (ijunk s) (map (ifind s) fl) ESRCH) s"
proof -
  let ?s = "s\<lparr>iflag := False\<rparr>"
  have m: "same_mgr s ?s" by (simp add: same_mgr_def)
  have L: "is_list (ilnk ?s) FindHead (map FinderLink fl)" using irq_rep_list(1) [OF R] by simp
  have "list_walk ilnk FindHead (find_turn c exc) ESRCH ?s = mfold (find_turn c exc) (map FinderLink fl) ESRCH ?s"
    by (rule list_walk_is_list [where I = "\<lambda>_. True" and lk = ilnk, OF L])
      (auto dest: same_mgr_simps(1) [OF keepsD [OF keeps_find_turn(1) [OF c]]])
  then show ?thesis unfolding find_fold [OF c R m] by (simp add: irq_handle_irq_def quietly_def mexec irq_save_def)
qed

end
