(* ===== verification/Kx64irq.thy ===== *)
theory Kx64irq
  imports Ki8259 Kirqlem Kthread_info
begin

text \<open>
  Interrupts of the x64 machine from the trap to the handlers: the common trap handler of
  \<^verbatim>\<open>hal/x64/exception.c\<close>, the interrupt manager and the 8259 driver together, with the properties
  of the two.
\<close>

section \<open>Traps\<close>

abbreviation (input) X64_RFLAGS_IF :: u64 where "X64_RFLAGS_IF \<equiv> 9"
abbreviation (input) X86_NR_EXCEPTIONS :: u64 where "X86_NR_EXCEPTIONS \<equiv> 20"

definition hal_exception_irq_enabled :: "exception_frame \<Rightarrow> int" where
  "hal_exception_irq_enabled exc = sint (ucast (e_rflags exc AND X64_RFLAGS_IF) :: u32)"

definition upd_irq_preempt :: "nat \<Rightarrow> u64 \<Rightarrow> ('d irqst, unit) kfun" where
  "upd_irq_preempt shift diff = mmod (\<lambda>s. s\<lparr>ipreempt := ti_update_preempt_count (ipreempt s) shift diff\<rparr>)"

text \<open>The routine that prints an exception is the argument \<open>dump\<close>.\<close>

definition hal_common_trap_handler :: "(exception_frame \<Rightarrow> ('d irqst, unit) kfun) \<Rightarrow> 'd irqcodes \<Rightarrow> exception_frame \<Rightarrow> ('d irqst, unit) kfun" where
  "hal_common_trap_handler dump c exc =
     (if e_trapno exc < X86_NR_EXCEPTIONS then
        mthen (upd_irq_preempt THR_EXCCNT_SHIFT 1)
        (mthen (mwhen (hal_exception_irq_enabled exc \<noteq> 0) irq_sti)
        (mthen (dump exc)
        (mthen irq_cli
        (upd_irq_preempt THR_EXCCNT_SHIFT (- 1)))))
      else
        mthen (upd_irq_preempt THR_IRQCNT_SHIFT 1)
        (mthen (irq_handle_irq c exc)
        (upd_irq_preempt THR_IRQCNT_SHIFT (- 1))))"

text \<open>The code the manager finds on this machine; the handlers are those of the drivers.\<close>

definition x64_code :: "(nat \<Rightarrow> int \<Rightarrow> exception_frame \<Rightarrow> nat \<Rightarrow> (ports irqst, int) kfun) \<Rightarrow> ports irqcodes" where
  "x64_code handlers = \<lparr>handler_at = handlers, finder_at = (\<lambda>_ exc. on_dev (i8259_find_pending_irq exc)), ctrlr_at = (\<lambda>_. i8259_ctrlr)\<rparr>"

text \<open>The flag test uses the number of the bit as the mask, so it does not see the interrupt flag.\<close>

lemma irq_enabled_ignores_if:
  "hal_exception_irq_enabled (exc\<lparr>e_rflags := e_rflags exc XOR push_bit 9 1\<rparr>) = hal_exception_irq_enabled exc"
proof -
  have "(e_rflags exc XOR push_bit 9 1) AND 9 = e_rflags exc AND 9"
    by (simp add: bit.conj_xor_distrib2)
  then show ?thesis by (simp add: hal_exception_irq_enabled_def)
qed

section \<open>The chip\<close>

text \<open>
  What the 8259 documents of its mask register: command word 1 (bit 4 set, written to the first port)
  clears the mask and starts a sequence of three more words on the second port; outside the sequence a
  write to the second port sets the mask.  The state is the place in the sequence and the mask.
\<close>

fun pic_step :: "u16 \<Rightarrow> u16 \<times> u8 \<Rightarrow> nat \<times> u8 \<Rightarrow> nat \<times> u8" where
  "pic_step base (port, v) (n, m) =
     (if port = base \<and> bit v 4 then (3, 0)
      else if port = base + 1 then (case n of 0 \<Rightarrow> (0, v) | Suc k \<Rightarrow> (k, m))
      else (n, m))"

definition pic :: "u16 \<Rightarrow> (u16 \<times> u8) list \<Rightarrow> nat \<times> u8" where
  "pic base w = fold (pic_step base) w (0, 0)"

text \<open>The mask registers read back what they hold, and both chips are out of the initialisation sequence.\<close>

definition pic_reads :: "ports \<Rightarrow> bool" where
  "pic_reads p = (\<forall>n w. p_in p 0x21 n w = snd (pic 0x20 w) \<and> p_in p 0xA1 n w = snd (pic 0xA0 w))"

definition pic_ready :: "ports \<Rightarrow> bool" where
  "pic_ready p = (fst (pic 0x20 (p_out p)) = 0 \<and> fst (pic 0xA0 (p_out p)) = 0)"

definition masked :: "ports \<Rightarrow> nat \<Rightarrow> bool" where
  "masked p k = (if k < 8 then bit (snd (pic 0x20 (p_out p))) k else bit (snd (pic 0xA0 (p_out p))) (k - 8))"

lemma pic_append: "pic base (w @ [x]) = pic_step base x (pic base w)"
  by (simp add: pic_def)

lemma u8_less: "n < 16 \<Longrightarrow> (of_nat n :: u8) < 8 \<longleftrightarrow> n < 8" "n < 16 \<Longrightarrow> (of_nat n :: u8) < 16"
    "n < 16 \<Longrightarrow> unat (of_nat n :: u8) = n" "n < 16 \<Longrightarrow> 8 \<le> n \<Longrightarrow> unat (of_nat n - 8 :: u8) = n - 8"
proof -
  assume n: "n < 16"
  have u: "unat (of_nat n :: u8) = n" using n by (simp add: unat_of_nat take_bit_nat_eq_self)
  show "unat (of_nat n :: u8) = n" by (rule u)
  show "(of_nat n :: u8) < 8 \<longleftrightarrow> n < 8" "(of_nat n :: u8) < 16" using n u by (simp_all add: word_less_nat_alt)
  show "8 \<le> n \<Longrightarrow> unat (of_nat n - 8 :: u8) = n - 8" using u by (simp add: unat_sub word_le_nat_alt)
qed

lemma masked_out:
  assumes "pic_ready p"
  shows "q = p\<lparr>p_pos := x, p_out := p_out p @ [(0x21, v)]\<rparr> \<Longrightarrow> pic_ready q \<and> (\<forall>k < 16. masked q k = (if k < 8 then bit v k else masked p k))"
    and "q = p\<lparr>p_pos := x, p_out := p_out p @ [(0xA1, v)]\<rparr> \<Longrightarrow> pic_ready q \<and> (\<forall>k < 16. masked q k = (if k < 8 then masked p k else bit v (k - 8)))"
    and "\<not> bit v 4 \<Longrightarrow> port \<in> {0x20, 0xA0} \<Longrightarrow> q = p\<lparr>p_pos := x, p_out := p_out p @ [(port, v)]\<rparr> \<Longrightarrow> pic_ready q \<and> masked q = masked p"
  using assms by (cases "pic 0x20 (p_out p)"; cases "pic 0xA0 (p_out p)"; auto simp: pic_ready_def masked_def pic_append fun_eq_iff)+

lemma pic_reads_upd [simp]: "pic_reads (p\<lparr>p_pos := x, p_out := w\<rparr>) = pic_reads p" "pic_reads (p\<lparr>p_out := w\<rparr>) = pic_reads p" "pic_reads (p\<lparr>p_pos := x\<rparr>) = pic_reads p"
  by (simp_all add: pic_reads_def)

text \<open>The mask operations of the driver on a chip that is ready.\<close>

definition pic_ok :: "ports \<Rightarrow> bool" where
  "pic_ok p = (pic_reads p \<and> pic_ready p)"

lemma in_mask:
  assumes "pic_ok p"
  shows "p_in p 0x21 n (p_out p) = snd (pic 0x20 (p_out p))" "p_in p 0xA1 n (p_out p) = snd (pic 0xA0 (p_out p))"
  using assms by (simp_all add: pic_ok_def pic_reads_def)

lemma disable_ok:
  assumes n: "n < 16" and p: "pic_ok p"
  shows "\<exists>q. runs (i8259_disable_irq (int n)) p () q \<and> pic_ok q \<and> (\<forall>k < 16. masked q k = (k = n \<or> masked p k))"
proof -
  have r: "pic_ready p" using p by (simp add: pic_ok_def)
  let ?v = "snd (pic (if n < 8 then 0x20 else 0xA0) (p_out p)) OR push_bit (if n < 8 then n else n - 8) 1"
  let ?q = "p\<lparr>p_pos := (p_pos p)(if n < 8 then 0x21 else 0xA1 := Suc (p_pos p (if n < 8 then 0x21 else 0xA1))),
    p_out := p_out p @ [(if n < 8 then 0x21 else 0xA1, ?v)]\<rparr>"
  have "runs (i8259_disable_irq (int n)) p () ?q"
    using n in_mask [OF p] by (auto simp: i8259_disable_irq_def Let_def mrun u8_less)
  moreover have "pic_ready ?q \<and> (\<forall>k < 16. masked ?q k = (k = n \<or> masked p k))"
  proof (cases "n < 8")
    case True
    then show ?thesis using masked_out(1) [OF r refl, where v = ?v] by (auto simp: bit_or_iff bit_push_one bit_exp_iff masked_def)
  next
    case False
    then show ?thesis using masked_out(2) [OF r refl, where v = ?v] n by (auto simp: bit_or_iff bit_push_one bit_exp_iff masked_def)
  qed
  ultimately show ?thesis using p by (intro exI [of _ ?q]) (simp add: pic_ok_def)
qed

lemma enable_ok:
  assumes n: "n < 16" and p: "pic_ok p"
  shows "\<exists>q. runs (i8259_enable_irq (int n)) p () q \<and> pic_ok q \<and> (\<forall>k < 16. masked q k = (k \<noteq> n \<and> masked p k))"
proof -
  have r: "pic_ready p" using p by (simp add: pic_ok_def)
  let ?v = "snd (pic (if n < 8 then 0x20 else 0xA0) (p_out p)) AND NOT (push_bit (if n < 8 then n else n - 8) 1)"
  let ?q = "p\<lparr>p_pos := (p_pos p)(if n < 8 then 0x21 else 0xA1 := Suc (p_pos p (if n < 8 then 0x21 else 0xA1))),
    p_out := p_out p @ [(if n < 8 then 0x21 else 0xA1, ?v)]\<rparr>"
  have g: "(of_nat n - 8 :: u8) < 31" if "8 \<le> n" using u8_less(4) [OF n that] n by (simp add: word_less_nat_alt)
  have "runs (i8259_enable_irq (int n)) p () ?q"
    using n in_mask [OF p] g by (auto simp: i8259_enable_irq_def Let_def mrun u8_less)
  moreover have "pic_ready ?q \<and> (\<forall>k < 16. masked ?q k = (k \<noteq> n \<and> masked p k))"
  proof (cases "n < 8")
    case True
    then show ?thesis using masked_out(1) [OF r refl, where v = ?v] by (auto simp: bit_and_iff bit_not_iff bit_push_one bit_exp_iff masked_def)
  next
    case False
    then show ?thesis using masked_out(2) [OF r refl, where v = ?v] n by (auto simp: bit_and_iff bit_not_iff bit_push_one bit_exp_iff masked_def)
  qed
  ultimately show ?thesis using p by (intro exI [of _ ?q]) (simp add: pic_ok_def)
qed

definition eoi_words :: "nat \<Rightarrow> (u16 \<times> u8) list" where
  "eoi_words n = (if n < 8 then [(0x20, pic_mk_spec_eoi (of_nat n))] else [(0xA0, pic_mk_spec_eoi (of_nat n)), (0x20, pic_mk_spec_eoi 2)])"

lemma spec_eoi_bit4: "\<not> bit (pic_mk_spec_eoi v) 4"
  by (simp add: pic_mk_spec_eoi_def bit_simps)

lemma eoi_ok:
  assumes n: "n < 16" and p: "pic_ok p" and m: "masked p n"
  shows "\<exists>q. runs (i8259_eoi_irq (int n)) p () q \<and> pic_ok q \<and> masked q = masked p \<and> p_out q = p_out p @ eoi_words n"
proof -
  have r: "pic_ready p" and d: "pic_reads p" using p by (simp_all add: pic_ok_def)
  let ?x = "(p_pos p)(if n < 8 then 0x21 else 0xA1 := Suc (p_pos p (if n < 8 then 0x21 else 0xA1)))"
  let ?q = "p\<lparr>p_pos := ?x, p_out := p_out p @ eoi_words n\<rparr>"
  have b: "snd (pic (if n < 8 then 0x20 else 0xA0) (p_out p)) AND push_bit (if n < 8 then n else n - 8) 1 \<noteq> 0"
    using m n by (auto simp: and_push_one_eq_0 masked_def simp del: push_bit_of_1 split: if_splits)
  have "runs (i8259_eoi_irq (int n)) p () ?q"
    using n b in_mask [OF p] by (auto simp: i8259_eoi_irq_def Let_def mrun u8_less eoi_words_def split: if_splits)
  moreover have "pic_ready ?q \<and> masked ?q = masked p"
  proof (cases "n < 8")
    case True
    then show ?thesis using masked_out(3) [OF r spec_eoi_bit4, where port = "0x20"] by (simp add: eoi_words_def)
  next
    case False
    let ?q1 = "p\<lparr>p_pos := ?x, p_out := p_out p @ [(0xA0, pic_mk_spec_eoi (of_nat n))]\<rparr>"
    have 1: "pic_ready ?q1" "masked ?q1 = masked p" using masked_out(3) [OF r spec_eoi_bit4, where port = "0xA0" and q = ?q1] by simp_all
    show ?thesis using masked_out(3) [OF 1(1) spec_eoi_bit4, where port = "0x20" and q = ?q and x = ?x and v1 = 2] 1(2) False by (simp add: eoi_words_def)
  qed
  ultimately show ?thesis using d by (intro exI [of _ ?q]) (simp add: pic_ok_def)
qed

lemma mask_all_ok:
  assumes "pic_ok p"
  shows "\<exists>q. runs mask_all p () q \<and> pic_ok q \<and> (\<forall>k < 16. masked q k = (k \<noteq> 2))"
proof -
  let ?b = "\<lambda>i. if i = 2 then mret () else i8259_disable_irq (int i)"
  let ?P = "\<lambda>i p. pic_ok p \<and> (\<forall>k < i. k < 16 \<longrightarrow> k \<noteq> 2 \<longrightarrow> masked p k)"
  have "\<exists>q. runs (mfor_each [0..<16] ?b) p () q \<and> ?P 16 q"
  proof (rule runs_mfor_each_upt [where P = ?P])
    fix i p assume a: "i < (16 :: nat)" "?P i p"
    show "\<exists>q. runs (?b i) p () q \<and> ?P (Suc i) q"
    proof (cases "i = 2")
      case True
      then show ?thesis using a by (intro exI [of _ p]) (auto simp: mrun less_Suc_eq)
    next
      case False
      obtain q where "runs (i8259_disable_irq (int i)) p () q" "pic_ok q" "\<forall>k < 16. masked q k = (k = i \<or> masked p k)"
        using disable_ok a by blast
      then show ?thesis using False a by (intro exI [of _ q]) (auto simp: less_Suc_eq)
    qed
  qed (use assms in auto)
  then obtain q1 where q1: "runs (mfor_each [0..<16] ?b) p () q1" "?P 16 q1" by blast
  obtain q where q: "runs (i8259_enable_irq (int 2)) q1 () q" "pic_ok q" "\<forall>k < 16. masked q k = (k \<noteq> 2 \<and> masked q1 k)"
    using enable_ok [of 2 q1] q1(2) by auto
  have "runs mask_all p () q" unfolding mask_all_def by (rule runs_mthenI [OF q1(1) q(1)])
  then show ?thesis using q q1(2) by blast
qed

text \<open>
  C27: The 8259 driver sets up its chips and works on single lines: after \<^verbatim>\<open>init_i8259_pic\<close> every line is
  masked except the one the second chip hangs on; from then on masking and unmasking a line
  changes the mask of that line and of no other, and the end of an interrupt goes to the chip of
  the line, and for the second chip also to the first, without touching the masks.
\<close>

theorem i8259_masks:
  assumes "pic_reads p"
  shows "(\<exists>q. runs init_i8259_pic p 0 q \<and> pic_ok q \<and> (\<forall>k < 16. masked q k = (k \<noteq> 2))) \<and>
    (n < 16 \<and> pic_ready p \<longrightarrow>
      (\<exists>q. runs (i8259_disable_irq (int n)) p () q \<and> pic_ok q \<and> (\<forall>k < 16. masked q k = (k = n \<or> masked p k))) \<and>
      (\<exists>q. runs (i8259_enable_irq (int n)) p () q \<and> pic_ok q \<and> (\<forall>k < 16. masked q k = (k \<noteq> n \<and> masked p k))) \<and>
      (masked p n \<longrightarrow> (\<exists>q. runs (i8259_eoi_irq (int n)) p () q \<and> pic_ok q \<and> masked q = masked p \<and> p_out q = p_out p @ eoi_words n)))"
proof -
  let ?w = "[(0x20, 0x11), (0x21, 0x20), (0x21, 2), (0x21, 0x11), (0xA0, 0x11), (0xA1, 0x28), (0xA1, 2), (0xA1, 1)] :: (u16 \<times> u8) list"
  let ?p = "p\<lparr>p_out := p_out p @ ?w\<rparr>"
  have st: "pic 0x20 (p_out p @ ?w) = (0, 0)" "pic 0xA0 (p_out p @ ?w) = (0, 0)"
    by (cases "pic 0x20 (p_out p)"; cases "pic 0xA0 (p_out p)"; simp add: pic_def)+
  have "pic_ok ?p" using assms st by (simp add: pic_ok_def pic_ready_def)
  then obtain q where q: "runs mask_all ?p () q" "pic_ok q \<and> (\<forall>k < 16. masked q k = (k \<noteq> 2))" using mask_all_ok by blast
  then have "runs init_i8259_pic p 0 q" by (auto simp: init_i8259_pic_def mrun)
  then show ?thesis using q assms disable_ok [of n p] enable_ok [of n p] eoi_ok [of n p] by (auto simp: pic_ok_def)
qed

section \<open>The manager and the chips together\<close>

lemma runs_on_dev [mrun]: "runs (on_dev m) s x s' \<longleftrightarrow> (\<exists>d. runs m (idev s) x d \<and> s' = s\<lparr>idev := d\<rparr>)"
  by (auto simp: runs_def on_dev_def split: outcome.splits)

lemma x64_code_sel [simp]: "handler_at (x64_code H) = H" "ctrlr_at (x64_code H) k = i8259_ctrlr"
    "finder_at (x64_code H) f exc = on_dev (i8259_find_pending_irq exc)"
  by (simp_all add: x64_code_def)

lemma x64_code_ok: "(\<forall>h i x a. keeps same_mgr (H h i x a)) \<Longrightarrow> code_ok (x64_code H)"
  by (auto simp: code_ok_def ctrlr_ok_def i8259_ctrlr_def keeps_def mrun same_mgr_def)

text \<open>
  What a handler of line \<open>n\<close> may rely on: the line is masked, the interrupt is counted in the
  preemption word, and interrupts are off unless the line allows nesting.
\<close>

definition serving :: "ports irqst \<Rightarrow> nat \<Rightarrow> ports irqst \<Rightarrow> bool" where
  "serving s n t = (same_mgr s t \<and> pic_ok (idev t) \<and> (\<forall>k < 16. masked (idev t) k = (k = n \<or> masked (idev s) k)) \<and>
     ipreempt t = ti_update_preempt_count (ipreempt s) THR_IRQCNT_SHIFT 1 \<and>
     (iflag t \<longrightarrow> il_attr (irqs s n) AND IRQ_ATTR_NON_NESTABLE = 0))"

text \<open>
  What it has to do: return, and leave registrations, masks and the preemption word as they were.
\<close>

definition good_handler :: "ports irqst \<Rightarrow> nat \<Rightarrow> (ports irqst, int) kfun \<Rightarrow> bool" where
  "good_handler s n h = (\<forall>t. serving s n t \<longrightarrow> (\<exists>r u. runs h t r u \<and> same_mgr t u \<and> pic_ok (idev u) \<and> (\<forall>k < 16. masked (idev u) k = masked (idev t) k) \<and> ipreempt u = ipreempt t))"

lemma call_all_ok:
  assumes "\<forall>(h, a) \<in> set hs. good_handler s n (H h (int n) exc a)" "serving s n t" "\<not> iflag t" "nest = (il_attr (irqs s n) AND 2 = 0)"
  shows "\<exists>rs u. runs (call_all (x64_code H) nest (int n) exc hs) t rs u \<and> serving s n u \<and> \<not> iflag u \<and>
    ((\<exists>(h, a) \<in> set hs. \<forall>t r u. runs (H h (int n) exc a) t r u \<longrightarrow> r = 0) \<longrightarrow> 0 \<in> set rs)"
  using assms(1-3)
proof (induction hs arbitrary: t)
  case Nil
  then show ?case by (auto simp: mrun)
next
  case (Cons x hs)
  obtain h a where x: "x = (h, a)" by (cases x)
  let ?t = "if nest then t\<lparr>iflag := True\<rparr> else t"
  have "serving s n ?t" using Cons.prems(2) assms(4) by (simp add: serving_def same_mgr_def)
  moreover have "good_handler s n (H h (int n) exc a)" using Cons.prems(1) x by simp
  ultimately obtain r u where u: "runs (H h (int n) exc a) ?t r u" "same_mgr ?t u" "pic_ok (idev u)" "\<forall>k < 16. masked (idev u) k = masked (idev ?t) k" "ipreempt u = ipreempt ?t"
    unfolding good_handler_def by blast
  let ?u = "u\<lparr>iflag := False\<rparr>"
  have "serving s n ?u" using u(2-5) Cons.prems(2) by (simp add: serving_def same_mgr_def split: if_splits)
  then obtain rs v where v: "runs (call_all (x64_code H) nest (int n) exc hs) ?u rs v" "serving s n v" "\<not> iflag v"
      "(\<exists>(h, a) \<in> set hs. \<forall>t r u. runs (H h (int n) exc a) t r u \<longrightarrow> r = 0) \<longrightarrow> 0 \<in> set rs"
    using Cons.IH [of ?u] Cons.prems(1) by auto
  have 1: "runs (mwhen nest irq_sti) t () ?t" by (simp add: mrun)
  have 2: "runs (mthen irq_cli (mbind (call_all (x64_code H) nest (int n) exc hs) (\<lambda>rs. mret (r # rs)))) u (r # rs) v"
    using v(1) by (auto simp: mrun)
  have run: "runs (call_all (x64_code H) nest (int n) exc (x # hs)) t (r # rs) v"
    unfolding x call_all.simps x64_code_sel by (rule runs_mthenI [OF 1], rule runs_mbindI [OF u(1)], rule 2)
  have "0 \<in> set (r # rs)" if "\<exists>(h, a) \<in> set (x # hs). \<forall>t r u. runs (H h (int n) exc a) t r u \<longrightarrow> r = 0"
  proof (cases "\<forall>t r u. runs (H h (int n) exc a) t r u \<longrightarrow> r = 0")
    case True
    with u(1) have "r = 0" by blast
    then show ?thesis by simp
  next
    case False
    with that have "\<exists>(h, a) \<in> set hs. \<forall>t r u. runs (H h (int n) exc a) t r u \<longrightarrow> r = 0" unfolding x list.set by blast
    with v(4) show ?thesis by simp
  qed
  with run v(2,3) show ?case by blast
qed

lemma find_pending_ok:
  assumes "n < 16" "e_trapno exc = 0x20 + of_nat n"
  shows "i8259_find_pending_irq exc p = Ok ((IRQ_FOUND, int n), p)"
proof -
  have t: "\<not> e_trapno exc < 0x20" using assms by (simp add: word_less_nat_alt unat_word_ariths unat_of_nat take_bit_nat_eq_self)
  have "sint (of_nat n :: u32) = int n"
    using assms(1) by (simp add: sint_uint signed_take_bit_int_eq_self uint_nat unat_of_nat take_bit_nat_eq_self)
  moreover have "(ucast (of_nat n :: u64) :: u32) = of_nat n" using assms(1) by (simp add: unsigned_of_nat take_bit_nat_eq_self)
  ultimately show ?thesis using assms t by (simp add: i8259_find_pending_irq_def Let_def mexec)
qed

lemma serve_line_ok:
  assumes n: "n < 16" and s: "pic_ok (idev s)" and k: "il_ctrlrp (irqs s n) = Some k"
    and hs: "\<forall>(h, a) \<in> set hs. good_handler s n (H h (int n) exc a)"
    and t: "same_mgr s t" "idev t = idev s" "ipreempt t = ti_update_preempt_count (ipreempt s) THR_IRQCNT_SHIFT 1"
  shows "\<exists>r u. runs (serve_line (x64_code H) (irqs s n) hs j (int n) exc) t r u \<and> same_mgr s u \<and> ipreempt u = ipreempt t \<and>
    iflag u = iflag t \<and> pic_ok (idev u) \<and> (\<forall>k < 16. masked (idev u) k = (k \<noteq> n \<and> masked (idev s) k)) \<and>
    ((\<exists>(h, a) \<in> set hs. \<forall>t r u. runs (H h (int n) exc a) t r u \<longrightarrow> r = 0) \<longrightarrow> r = 0)"
proof -
  obtain d1 where d1: "runs (i8259_disable_irq (int n)) (idev s) () d1" "pic_ok d1" "\<forall>k < 16. masked d1 k = (k = n \<or> masked (idev s) k)"
    using disable_ok [OF n s] by blast
  have "masked d1 n" using d1(3) n by simp
  then obtain d2 where d2: "runs (i8259_eoi_irq (int n)) d1 () d2" "pic_ok d2" "masked d2 = masked d1"
    using eoi_ok [OF n d1(2)] by blast
  let ?t2 = "t\<lparr>iflag := False, idev := d2\<rparr>"
  have sv: "serving s n ?t2" "\<not> iflag ?t2" using t d2 d1(3) by (simp_all add: serving_def same_mgr_def)
  obtain rs v where v: "runs (call_all (x64_code H) (il_attr (irqs s n) AND 2 = 0) (int n) exc hs) ?t2 rs v" "serving s n v"
      "(\<exists>(h, a) \<in> set hs. \<forall>t r u. runs (H h (int n) exc a) t r u \<longrightarrow> r = 0) \<longrightarrow> 0 \<in> set rs"
    using call_all_ok [where hs = hs and H = H and t = ?t2 and s = s and n = n and exc = exc, OF hs sv refl] by blast
  have "pic_ok (idev v)" using v(2) by (simp add: serving_def)
  then obtain d3 where d3: "runs (i8259_enable_irq (int n)) (idev v) () d3" "pic_ok d3" "\<forall>k < 16. masked d3 k = (k \<noteq> n \<and> masked (idev v) k)"
    using enable_ok [OF n] by blast
  let ?r = "if 0 \<in> set rs then 0 else j"
  let ?u = "v\<lparr>iflag := iflag t, idev := d3\<rparr>"
  have q: "runs (quietly (call_all (x64_code H) (il_attr (irqs s n) AND 2 = 0) (int n) exc hs)) ?t2 rs (v\<lparr>iflag := False\<rparr>)"
  proof -
    have "?t2\<lparr>iflag := False\<rparr> = ?t2" by simp
    then show ?thesis unfolding runs_def quietly_at using runsD [OF v(1)] by (simp only:) (simp add: mexec irq_restore_def)
  qed
  have "runs (serve_line (x64_code H) (irqs s n) hs j (int n) exc) t ?r ?u"
    using runsD [OF d1(1)] runsD [OF d2(1)] runsD [OF d3(1)] runsD [OF q] t(2)
    by (simp add: serve_line_def k Let_def runs_def quietly_at [of "mbind _ _"] mexec i8259_ctrlr_def mcall_def on_dev_def irq_restore_def)
  then show ?thesis using v(2,3) d3 t(3) by (intro exI [of _ ?r] exI [of _ ?u]) (auto simp: serving_def same_mgr_def)
qed


section \<open>An example\<close>

text \<open>Handler 7 is registered on line 1; the mask registers hold what was written to them.\<close>

definition demo_links :: "irqnode links" where
  "demo_links n = (case n of
     FindHead \<Rightarrow> \<lparr>l_prev = FinderLink 0, l_next = FinderLink 0\<rparr>
   | FinderLink f \<Rightarrow> if f = 0 then \<lparr>l_prev = FindHead, l_next = FindHead\<rparr> else \<lparr>l_prev = n, l_next = n\<rparr>
   | LineHead i \<Rightarrow> if i = 1 then \<lparr>l_prev = EntLink 5, l_next = EntLink 5\<rparr> else \<lparr>l_prev = n, l_next = n\<rparr>
   | EntLink e \<Rightarrow> if e = 5 then \<lparr>l_prev = LineHead 1, l_next = LineHead 1\<rparr> else \<lparr>l_prev = n, l_next = n\<rparr>)"

definition demo_irq :: "ports irqst" where
  "demo_irq = \<lparr>iflag = True, ilnk = demo_links, irqs = (\<lambda>i. \<lparr>il_nr = int i, il_attr = 2, il_prio = 0, il_ctrlrp = Some 0\<rparr>),
     ients = (\<lambda>_. \<lparr>he_handler = Some 7, he_private = 0\<rparr>), ilive = {5}, ifind = (\<lambda>_. Some 0), ijunk = 99, ipreempt = 0,
     idev = p0\<lparr>p_in := \<lambda>port n w. snd (pic (port - 1) w)\<rparr>\<rparr>"

definition demo_exc :: exception_frame where
  "demo_exc = \<lparr>e_rax = 0, e_rbx = 0, e_rcx = 0, e_rdx = 0, e_rbp = 0, e_rsi = 0, e_rdi = 0, e_r8 = 0, e_r9 = 0, e_r10 = 0, e_r11 = 0,
     e_r12 = 0, e_r13 = 0, e_r14 = 0, e_r15 = 0, e_trapno = 0x21, e_errno = 0, e_rip = 0, e_cs = 0, e_rflags = 0, e_rsp = 0, e_ss = 0\<rparr>"

abbreviation (input) demo_handlers :: "nat \<Rightarrow> int \<Rightarrow> exception_frame \<Rightarrow> nat \<Rightarrow> (ports irqst, int) kfun" where
  "demo_handlers \<equiv> \<lambda>_ _ _ _. mret IRQ_HANDLED"

lemma demo_rep: "irq_rep demo_irq [0] (\<lambda>i. if i = 1 then [5] else [])"
  by (auto simp: irq_rep_def rings_def iheads_def demo_irq_def demo_links_def is_list_def unlinked_def)

lemma demo_pic: "pic_ok (idev demo_irq)"
  by (simp add: pic_ok_def pic_reads_def pic_ready_def demo_irq_def pic_def p0_def)

theorem i8259_masks_witness:
  "\<exists>q. runs init_i8259_pic (idev demo_irq) 0 q \<and> masked q 3 \<and> \<not> masked q 2 \<and> (\<exists>r. runs (i8259_disable_irq (int 9)) (idev demo_irq) () r \<and> masked r 9)"
proof -
  have d: "pic_reads (idev demo_irq)" "pic_ready (idev demo_irq)" using demo_pic by (simp_all add: pic_ok_def)
  obtain q where q: "runs init_i8259_pic (idev demo_irq) 0 q" "\<forall>k < 16. masked q k = (k \<noteq> 2)"
    using i8259_masks [OF d(1)] by blast
  obtain r where r: "runs (i8259_disable_irq (int 9)) (idev demo_irq) () r" "\<forall>k < 16. masked r k = (k = 9 \<or> masked (idev demo_irq) k)"
    using i8259_masks [OF d(1), of 9] d(2) by auto
  have "masked q 3" "\<not> masked q 2" "masked r 9" using q(2) r(2) by simp_all
  with q(1) r(1) show ?thesis by blast
qed


section \<open>Properties of the manager\<close>

text \<open>
  C22: The lists of the interrupt manager stay well formed: in every state it reaches, the handlers of
  each line and the finders are rings without a common entry, and every entry on a line is
  allocated, whatever drivers register and unregister and whatever interrupts arrive, provided
  handlers and controllers do not change registrations while an interrupt is handled.
\<close>

theorem irq_lists:
  assumes "code_ok c" "irqreach c s"
  shows "\<exists>fl hl. irq_rep s fl hl"
  by (rule irqreach_rep [OF assms])

theorem irq_lists_witness: "\<exists>s. irqreach (x64_code demo_handlers) s \<and> (\<exists>fl hl. irq_rep s fl hl)"
proof -
  have "\<forall>f. unlinked (ilnk (demo_irq\<lparr>ilnk := \<lambda>n. \<lparr>l_prev = n, l_next = n\<rparr>\<rparr>)) (FinderLink f)" by (simp add: unlinked_def)
  from irq_init_ok [OF this] irqreach.init [OF this] obtain s where "irqreach (x64_code demo_handlers) s" by blast
  moreover have "code_ok (x64_code demo_handlers)" by (rule x64_code_ok) (simp add: keeps_def mrun same_mgr_def)
  ultimately show ?thesis using irq_lists by blast
qed

text \<open>
  C21: Handling an interrupt on the linked structures is the same as this on lists: with interrupts off, ask
  the finders in the order they were registered, and serve each line one of them reports: mask it at its controller, send the end of
  interrupt, call the handlers of the line in the order they were registered, and set the controller
  back; the result says whether some handler took the interrupt.
\<close>

theorem irq_dispatch:
  assumes "code_ok c" "irq_rep s fl hl"
  shows "irq_handle_irq c exc s =
    quietly (serve_pending c exc (irqs s) (\<lambda>l. handlers_of s (hl l)) (ijunk s) (map (ifind s) fl) ESRCH) s"
  by (rule dispatch_eq [OF assms])

theorem irq_dispatch_witness:
  "irq_handle_irq (x64_code demo_handlers) demo_exc demo_irq =
    quietly (serve_pending (x64_code demo_handlers) demo_exc (irqs demo_irq) (\<lambda>l. handlers_of demo_irq (if l = 1 then [5] else [])) 99 [Some 0] ESRCH) demo_irq"
proof -
  have "code_ok (x64_code demo_handlers)" by (rule x64_code_ok) (simp add: keeps_def mrun same_mgr_def)
  from irq_dispatch [OF this demo_rep, of demo_exc] show ?thesis by (simp add: demo_irq_def)
qed



end
