(* ===== verification/Kprintf.thy ===== *)
theory Kprintf
  imports Kmonad
begin

text \<open>
  Formatted output (\<^verbatim>\<open>common/printf.c\<close>).  Strings are lists of bytes without the terminating zero.
  The output buffer has a size, and a write behind its end has no defined result (\<open>Kfault\<close>); so has a
  read behind the end of the format.  The variable arguments are 64-bit words and strings.
\<close>

section \<open>Data\<close>

abbreviation (input) C_sharp :: u8 where "C_sharp \<equiv> 35"
abbreviation (input) C_percent :: u8 where "C_percent \<equiv> 37"
abbreviation (input) C_star :: u8 where "C_star \<equiv> 42"
abbreviation (input) C_plus :: u8 where "C_plus \<equiv> 43"
abbreviation (input) C_minus :: u8 where "C_minus \<equiv> 45"
abbreviation (input) C_dot :: u8 where "C_dot \<equiv> 46"
abbreviation (input) C_0 :: u8 where "C_0 \<equiv> 48"
abbreviation (input) C_9 :: u8 where "C_9 \<equiv> 57"
abbreviation (input) C_X :: u8 where "C_X \<equiv> 88"
abbreviation (input) C_c :: u8 where "C_c \<equiv> 99"
abbreviation (input) C_d :: u8 where "C_d \<equiv> 100"
abbreviation (input) C_h :: u8 where "C_h \<equiv> 104"
abbreviation (input) C_i :: u8 where "C_i \<equiv> 105"
abbreviation (input) C_l :: u8 where "C_l \<equiv> 108"
abbreviation (input) C_o :: u8 where "C_o \<equiv> 111"
abbreviation (input) C_p :: u8 where "C_p \<equiv> 112"
abbreviation (input) C_q :: u8 where "C_q \<equiv> 113"
abbreviation (input) C_r :: u8 where "C_r \<equiv> 114"
abbreviation (input) C_s :: u8 where "C_s \<equiv> 115"
abbreviation (input) C_t :: u8 where "C_t \<equiv> 116"
abbreviation (input) C_u :: u8 where "C_u \<equiv> 117"
abbreviation (input) C_x :: u8 where "C_x \<equiv> 120"
abbreviation (input) C_y :: u8 where "C_y \<equiv> 121"
abbreviation (input) C_z :: u8 where "C_z \<equiv> 122"

record fmt_cmd =
  fc_dot :: bool
  fc_neg :: bool
  fc_sign :: bool
  fc_ladjust :: bool
  fc_upper :: bool
  fc_cflag :: bool
  fc_hflag :: bool
  fc_jflag :: bool
  fc_lflag :: bool
  fc_qflag :: bool
  fc_sharpflag :: bool
  fc_tflag :: bool
  fc_zflag :: bool

definition RESET_FMT :: fmt_cmd where
  "RESET_FMT = \<lparr>fc_dot = False, fc_neg = False, fc_sign = False, fc_ladjust = False, fc_upper = False, fc_cflag = False,
     fc_hflag = False, fc_jflag = False, fc_lflag = False, fc_qflag = False, fc_sharpflag = False, fc_tflag = False, fc_zflag = False\<rparr>"

datatype varg = VInt u64 | VStr "u8 list option"

text \<open>What has been written, the arguments still to be taken, and the variables that live across directives.\<close>

record pst =
  pf_out :: "u8 list"
  pf_args :: "varg list"
  pf_dwidth :: int
  pf_discard :: bool

section \<open>Numbers\<close>

definition hex2ascii_data :: "u8 list" where
  "hex2ascii_data = map of_nat ([48..<58] @ [97..<123])"

definition hex2ascii :: "nat \<Rightarrow> u8" where
  "hex2ascii hex = hex2ascii_data ! hex"

definition ktoupper :: "u8 \<Rightarrow> u8" where
  "ktoupper c = c - 0x20 * (if 97 \<le> c \<and> c \<le> 122 then 1 else 0)"

text \<open>The digits come out with the lowest first, as they stand in the buffer \<^verbatim>\<open>nbuf\<close>.\<close>

function ksprintn :: "u64 \<Rightarrow> u64 \<Rightarrow> bool \<Rightarrow> u8 list" where
  "ksprintn num base upper =
     (let c = hex2ascii (unat (num mod base));
          c = (if upper then ktoupper c else c)
      in if base < 2 \<or> num div base = 0 then [c] else c # ksprintn (num div base) base upper)"
  by auto
termination
proof (relation "measure (\<lambda>(num, base, upper). unat num)")
  fix num base :: u64
  assume "\<not> (base < 2 \<or> num div base = 0)"
  then have "1 < unat base" "0 < unat num" by (auto simp: word_less_nat_alt unat_gt_0)
  then show "((num div base, base, upper), num, base, upper) \<in> measure (\<lambda>(num, base, upper). unat num)" for upper
    by (simp add: unat_div_distrib)
qed auto

section \<open>Output and arguments\<close>

type_synonym 'a pfm = "(pst, 'a) kfun"

definition put_char :: "nat \<Rightarrow> u8 \<Rightarrow> unit pfm" where
  "put_char len c =
     mbind (mget pf_out) (\<lambda>out. mthen (mguard (length out < len)) (mmod (\<lambda>s. s\<lparr>pf_out := pf_out s @ [c]\<rparr>)))"

fun put_all :: "nat \<Rightarrow> u8 list \<Rightarrow> unit pfm" where
  "put_all len [] = mret ()"
| "put_all len (c # cs) = mthen (put_char len c) (put_all len cs)"

definition va_word :: "u64 pfm" where
  "va_word = mbind (mget pf_args) (\<lambda>args. case args of
     VInt w # rest \<Rightarrow> mthen (mmod (\<lambda>s. s\<lparr>pf_args := rest\<rparr>)) (mret w)
   | _ \<Rightarrow> mstop Kfault)"

definition va_int :: "int pfm" where
  "va_int = mbind va_word (\<lambda>w. mret (sint (ucast w :: u32)))"

definition va_string :: "u8 list option pfm" where
  "va_string = mbind (mget pf_args) (\<lambda>args. case args of
     VStr p # rest \<Rightarrow> mthen (mmod (\<lambda>s. s\<lparr>pf_args := rest\<rparr>)) (mret p)
   | _ \<Rightarrow> mstop Kfault)"

text \<open>The values at \<^verbatim>\<open>handle_nosign\<close> and \<^verbatim>\<open>handle_sign\<close>.\<close>

definition handle_nosign :: "fmt_cmd \<Rightarrow> u64 pfm" where
  "handle_nosign cmd =
     mbind va_word (\<lambda>w. mret
       (if fc_qflag cmd \<or> fc_tflag cmd \<or> fc_lflag cmd \<or> fc_zflag cmd then w
        else if fc_hflag cmd then ucast (ucast w :: u16)
        else if fc_cflag cmd then ucast (ucast w :: u8)
        else ucast (ucast w :: u32)))"

definition handle_sign :: "fmt_cmd \<Rightarrow> u64 pfm" where
  "handle_sign cmd =
     mbind va_word (\<lambda>w. mret
       (if fc_qflag cmd \<or> fc_tflag cmd \<or> fc_lflag cmd \<or> fc_zflag cmd then w
        else if fc_hflag cmd then scast (ucast w :: u16)
        else if fc_cflag cmd then scast (ucast w :: u8)
        else scast (ucast w :: u32)))"

text \<open>Padding: \<^verbatim>\<open>width -= tmp\<close>, and as many characters as are left; the variable is \<open>-1\<close> after the loop.\<close>

definition pad_out :: "nat \<Rightarrow> bool \<Rightarrow> int \<Rightarrow> int \<Rightarrow> u8 \<Rightarrow> int pfm" where
  "pad_out len cond width tmp padchar =
     (if cond \<and> width \<noteq> 0 then
        if width - tmp > 0 then mthen (put_all len (replicate (nat (width - tmp)) padchar)) (mret (- 1))
        else mret (width - tmp)
      else mret width)"

definition number :: "nat \<Rightarrow> fmt_cmd \<Rightarrow> u64 \<Rightarrow> u64 \<Rightarrow> int \<Rightarrow> u8 \<Rightarrow> unit pfm" where
  "number len cmd base num width padchar =
     (let neg = (fc_neg cmd \<or> fc_sign cmd \<and> sint num < 0);
          num = (if fc_sign cmd \<and> sint num < 0 then - num else num);
          p = ksprintn num base (fc_upper cmd);
          tmp = int (length p);
          tmp = (if fc_sharpflag cmd \<and> num \<noteq> 0 then (if base = 8 then tmp + 1 else if base = 16 then tmp + 2 else tmp) else tmp);
          tmp = (if neg then tmp + 1 else tmp)
      in mbind (pad_out len (\<not> fc_ladjust cmd \<and> padchar \<noteq> C_0) width tmp padchar) (\<lambda>width.
         mthen (mwhen neg (put_char len C_minus))
         (mthen (mwhen (fc_sharpflag cmd \<and> num \<noteq> 0)
                  (if base = 8 then put_char len C_0 else if base = 16 then mthen (put_char len C_0) (put_char len C_x) else mret ()))
         (mbind (pad_out len (\<not> fc_ladjust cmd) width tmp padchar) (\<lambda>width.
          mthen (put_all len (rev p))
          (mthen (pad_out len (fc_ladjust cmd) width tmp padchar) (mret ())))))))"

definition put_string :: "nat \<Rightarrow> fmt_cmd \<Rightarrow> int \<Rightarrow> u8 \<Rightarrow> unit pfm" where
  "put_string len cmd width padchar =
     mbind va_string (\<lambda>p.
     mbind (mget pf_dwidth) (\<lambda>dwidth.
     let p = (case p of None \<Rightarrow> [40, 110, 117, 108, 108, 41] | Some p \<Rightarrow> p);
         n = (if fc_dot cmd then length (take (nat dwidth) p) else length p);
         width = width - int n
     in mthen (mwhen (\<not> fc_ladjust cmd \<and> width > 0) (put_all len (replicate (nat width) padchar)))
        (mthen (put_all len (take n p))
        (mwhen (fc_ladjust cmd \<and> width > 0) (put_all len (replicate (nat width) padchar))))))"

section \<open>Directives\<close>

text \<open>
  After a character of a directive the code either goes back to \<^verbatim>\<open>reswitch\<close> for the next one, has printed the
  argument, or does not know the character.
\<close>

datatype dir = Again fmt_cmd int u8 | Done | Unknown

definition switch_char :: "nat \<Rightarrow> u64 \<Rightarrow> u8 \<Rightarrow> fmt_cmd \<Rightarrow> int \<Rightarrow> u8 \<Rightarrow> dir pfm" where
  "switch_char len radix ch cmd width padchar =
     (let nosign = (\<lambda>cmd base. mbind (handle_nosign cmd) (\<lambda>num. mthen (number len (cmd\<lparr>fc_sign := False\<rparr>) base num width padchar) (mret Done)));
          sign = (\<lambda>cmd base. mbind (handle_sign cmd) (\<lambda>num. mthen (number len cmd base num width padchar) (mret Done)))
      in if ch = C_dot then mret (Again (cmd\<lparr>fc_dot := True\<rparr>) width padchar)
         else if ch = C_sharp then mret (Again (cmd\<lparr>fc_sharpflag := True\<rparr>) width padchar)
         else if ch = C_plus then mret (Again (cmd\<lparr>fc_sign := True\<rparr>) width padchar)
         else if ch = C_minus then mret (Again (cmd\<lparr>fc_ladjust := True\<rparr>) width padchar)
         else if ch = C_percent then mthen (put_char len ch) (mret Done)
         else if ch = C_star then
           (if \<not> fc_dot cmd then
              mbind va_int (\<lambda>w.
                if w < 0 then mthen (mguard (w \<noteq> - (2 ^ 31))) (mret (Again (cmd\<lparr>fc_ladjust := \<not> fc_ladjust cmd\<rparr>) (- w) padchar))
                else mret (Again cmd w padchar))
            else mbind va_int (\<lambda>w. mthen (mmod (\<lambda>s. s\<lparr>pf_dwidth := w\<rparr>)) (mret (Again cmd width padchar))))
         else if ch = C_0 \<and> \<not> fc_dot cmd then mret (Again cmd width C_0)
         else if ch = C_c then mbind va_word (\<lambda>w. mthen (put_char len (ucast w)) (mret Done))
         else if ch = C_d \<or> ch = C_i then sign (cmd\<lparr>fc_sign := True\<rparr>) 10
         else if ch = C_h then
           mret (Again (if fc_hflag cmd then cmd\<lparr>fc_hflag := False, fc_cflag := True\<rparr> else cmd\<lparr>fc_hflag := True\<rparr>) width padchar)
         else if ch = C_l then
           mret (Again (if fc_lflag cmd then cmd\<lparr>fc_lflag := False, fc_qflag := True\<rparr> else cmd\<lparr>fc_lflag := True\<rparr>) width padchar)
         else if ch = C_o then nosign cmd 8
         else if ch = C_p then
           mbind va_word (\<lambda>num. mthen (number len (cmd\<lparr>fc_sharpflag := (width = 0), fc_sign := False\<rparr>) 16 num width padchar) (mret Done))
         else if ch = C_q then mret (Again (cmd\<lparr>fc_qflag := True\<rparr>) width padchar)
         else if ch = C_r then (if fc_sign cmd then sign cmd radix else nosign cmd radix)
         else if ch = C_s then mthen (put_string len cmd width padchar) (mret Done)
         else if ch = C_t then mret (Again (cmd\<lparr>fc_tflag := True\<rparr>) width padchar)
         else if ch = C_u then nosign cmd 10
         else if ch = C_X then nosign (cmd\<lparr>fc_upper := True\<rparr>) 16
         else if ch = C_x then nosign cmd 16
         else if ch = C_y then sign (cmd\<lparr>fc_sign := True\<rparr>) 16
         else if ch = C_z then mret (Again (cmd\<lparr>fc_zflag := True\<rparr>) width padchar)
         else mret Unknown)"

definition is_digit :: "u8 \<Rightarrow> bool" where
  "is_digit ch = (C_0 \<le> ch \<and> ch \<le> C_9)"

definition digits_value :: "u8 list \<Rightarrow> int" where
  "digits_value ds = fold (\<lambda>ch n. n * 10 + uint ch - 48) ds 0"

text \<open>
  The loop: in the text between directives, or inside one with the characters since the percent sign,
  the flags, the width and the padding so far.
\<close>

function printf_run :: "nat \<Rightarrow> u64 \<Rightarrow> (u8 list \<times> fmt_cmd \<times> int \<times> u8) option \<Rightarrow> u8 list \<Rightarrow> int pfm" where
  "printf_run len radix None [] = mbind (mget pf_out) (\<lambda>out. mret (if length out \<ge> len - 1 then int (len - 1) else int (length out)))"
| "printf_run len radix None (ch # fmt) =
     mbind (mget (\<lambda>s. s)) (\<lambda>s.
       if ch \<noteq> C_percent \<or> pf_discard s then
         if length (pf_out s) \<ge> len - 1 then mret (int (len - 1))
         else mthen (put_char len ch) (printf_run len radix None fmt)
       else printf_run len radix (Some ([ch], RESET_FMT, 0, 32)) fmt)"
| "printf_run len radix (Some (seen, cmd, width, padchar)) [] = mthen (put_all len (seen @ [0])) (mstop Kfault)"
| "printf_run len radix (Some (seen, cmd, width, padchar)) (ch # fmt) =
     (if is_digit ch \<and> (ch \<noteq> C_0 \<or> fc_dot cmd) then
        let ds = takeWhile is_digit fmt; n = digits_value (ch # ds) in
        mthen (mguard (n < 2 ^ 31))
        (if fc_dot cmd then
           mthen (mmod (\<lambda>s. s\<lparr>pf_dwidth := n\<rparr>))
           (printf_run len radix (Some (seen @ ch # ds, cmd, width, padchar)) (drop (length ds) fmt))
         else printf_run len radix (Some (seen @ ch # ds, cmd, n, padchar)) (drop (length ds) fmt))
      else
        mbind (switch_char len radix ch cmd width padchar) (\<lambda>r.
          case r of
            Again cmd width padchar \<Rightarrow> printf_run len radix (Some (seen @ [ch], cmd, width, padchar)) fmt
          | Done \<Rightarrow> printf_run len radix None fmt
          | Unknown \<Rightarrow>
              mthen (put_all len (seen @ [ch]))
              (mthen (mmod (\<lambda>s. s\<lparr>pf_discard := True\<rparr>))
              (printf_run len radix None fmt))))"
  by pat_completeness auto
termination by (relation "measure (\<lambda>(_, _, _, fmt). length fmt)") auto

definition NULLFMT :: "u8 list" where
  "NULLFMT = [40, 102, 109, 116, 32, 110, 117, 108, 108, 41]"

definition kvprintf :: "nat \<Rightarrow> u8 list option \<Rightarrow> int \<Rightarrow> varg list \<Rightarrow> (int \<times> u8 list) outcome" where
  "kvprintf len fmt radix ap =
     (let fmt = (case fmt of None \<Rightarrow> NULLFMT | Some f \<Rightarrow> f) in
      if len = 0 then Ok (0, [])
      else
        let radix = (if radix < 2 \<or> radix > 36 then 10 else radix) in
        obind (printf_run len (word_of_int radix) None fmt \<lparr>pf_out = [], pf_args = ap, pf_dwidth = 0, pf_discard = False\<rparr>)
          (\<lambda>(rc, s). Ok (rc, pf_out s)))"

text \<open>
  \<^verbatim>\<open>ksnprintf\<close> terminates the string at the returned length; the result is the string in the buffer.  With a size of 0
  the terminator is written behind the buffer.
\<close>

definition ksnprintf :: "nat \<Rightarrow> u8 list option \<Rightarrow> varg list \<Rightarrow> (int \<times> u8 list) outcome" where
  "ksnprintf sz fmt ap =
     obind (kvprintf sz fmt 10 ap) (\<lambda>(rc, out).
       if nat rc < sz then Ok (rc, takeWhile (\<lambda>c. c \<noteq> 0) (take (nat rc) out)) else Stop Kfault)"

section \<open>Numbers are printed in positional notation\<close>

text \<open>The usual notation of a natural number, highest digit first.\<close>

definition digit_char :: "bool \<Rightarrow> nat \<Rightarrow> u8" where
  "digit_char upper d = of_nat (if d < 10 then 48 + d else (if upper then 55 else 87) + d)"

function num_str :: "bool \<Rightarrow> nat \<Rightarrow> nat \<Rightarrow> u8 list" where
  "num_str upper base n =
     (if n < base \<or> base < 2 then [digit_char upper n] else num_str upper base (n div base) @ [digit_char upper (n mod base)])"
  by auto
termination by (relation "measure (\<lambda>(_, _, n). n)") auto

declare ksprintn.simps [simp del] num_str.simps [simp del]

lemma hex2ascii_digit:
  assumes "d < 36"
  shows "(if upper then ktoupper (hex2ascii d) else hex2ascii d) = digit_char upper d"
proof -
  have h: "hex2ascii d = of_nat (if d < 10 then 48 + d else 87 + d)"
  proof -
    have "([48..<58] @ [97..<123]) ! d = (if d < 10 then 48 + d else 87 + d)"
      using assms by (auto simp: nth_append simp del: upt_rec_numeral)
    then show ?thesis using assms unfolding hex2ascii_def hex2ascii_data_def by (subst nth_map) (simp_all del: upt_rec_numeral of_nat_add)
  qed
  show ?thesis
  proof (cases "d < 10")
    case True
    then have "\<not> 97 \<le> (of_nat (48 + d) :: u8)" by (simp add: word_le_nat_alt unat_of_nat take_bit_nat_eq_self del: of_nat_add)
    then show ?thesis using True h by (simp add: digit_char_def ktoupper_def)
  next
    case False
    have u: "unat (of_nat (87 + d) :: u8) = 87 + d" using assms by (simp add: unat_of_nat take_bit_nat_eq_self del: of_nat_add)
    then have r: "97 \<le> (of_nat (87 + d) :: u8)" "(of_nat (87 + d) :: u8) \<le> 122" using False assms by (simp_all add: word_le_nat_alt del: of_nat_add)
    have "(of_nat (87 + d) :: u8) - 0x20 = of_nat (55 + d)" by simp
    then show ?thesis using False h r by (simp add: digit_char_def ktoupper_def del: of_nat_add)
  qed
qed

lemma ksprintn_num_str:
  assumes "2 \<le> base" "base \<le> 36"
  shows "rev (ksprintn num base upper) = num_str upper (unat base) (unat num)"
  using assms
proof (induction num base upper rule: ksprintn.induct)
  case (1 num base upper)
  have b: "\<not> base < 2" "2 \<le> unat base" "unat base \<le> 36" using 1(2,3) by (auto simp: word_le_nat_alt word_less_nat_alt)
  have d: "(if upper then ktoupper (hex2ascii (unat (num mod base))) else hex2ascii (unat (num mod base))) = digit_char upper (unat num mod unat base)"
    unfolding unat_mod_distrib using b by (intro hex2ascii_digit order_less_le_trans [OF mod_less_divisor]) simp_all
  show ?case
  proof (cases "num div base = 0")
    case True
    then have "unat num div unat base = 0" by (metis unat_div_distrib unat_0)
    then have "unat num < unat base" using b by (simp add: div_eq_0_iff)
    then show ?thesis using True d by (subst ksprintn.simps, subst num_str.simps) (simp add: Let_def)
  next
    case False
    then have "unat num div unat base \<noteq> 0" by (metis unat_div_distrib unat_eq_zero)
    then have "\<not> unat num < unat base" by auto
    have IH: "rev (ksprintn (num div base) base upper) = num_str upper (unat base) (unat num div unat base)"
      using 1(1) [OF refl refl] False b(1) 1(2,3) by (simp add: unat_div_distrib)
    have "ksprintn num base upper = digit_char upper (unat num mod unat base) # ksprintn (num div base) base upper"
      using False b(1) by (subst ksprintn.simps) (simp only: Let_def d simp_thms if_False)
    moreover have "num_str upper (unat base) (unat num) = num_str upper (unat base) (unat num div unat base) @ [digit_char upper (unat num mod unat base)]"
      using \<open>\<not> unat num < unat base\<close> b(2) by (subst num_str.simps) simp
    ultimately show ?thesis using IH by simp
  qed
qed

lemma num_str_length: "2 \<le> base \<Longrightarrow> n < 2 ^ k \<Longrightarrow> 0 < k \<Longrightarrow> length (num_str upper base n) \<le> k"
proof (induction k arbitrary: n)
  case (Suc k)
  show ?case
  proof (cases "n < base")
    case False
    then have k: "0 < k" using Suc.prems by (cases k) auto
    have "n div base \<le> n div 2" using Suc.prems(1) by (simp add: div_le_mono2)
    also have "\<dots> < 2 ^ k" using Suc.prems(2) by simp
    finally show ?thesis using Suc.IH [of "n div base"] Suc.prems(1) False k by (subst num_str.simps) simp
  qed (simp add: num_str.simps)
qed simp

text \<open>Reading a number back.\<close>

definition char_digit :: "u8 \<Rightarrow> nat" where
  "char_digit c = (if c \<le> 57 then unat c - 48 else if c \<le> 90 then unat c - 55 else unat c - 87)"

definition read_num :: "nat \<Rightarrow> u8 list \<Rightarrow> nat" where
  "read_num base cs = fold (\<lambda>c n. n * base + char_digit c) cs 0"

lemma char_digit_char: "d < 36 \<Longrightarrow> char_digit (digit_char upper d) = d"
proof -
  assume d: "d < 36"
  let ?k = "if d < 10 then 48 + d else (if upper then 55 else 87) + d"
  have "unat (of_nat ?k :: u8) = ?k" using d by (simp add: unat_of_nat take_bit_nat_eq_self del: of_nat_add)
  then show ?thesis using d unfolding char_digit_def digit_char_def word_le_nat_alt by auto
qed

lemma read_num_str: "2 \<le> base \<Longrightarrow> base \<le> 36 \<Longrightarrow> read_num base (num_str upper base n) = n"
proof (induction upper base n rule: num_str.induct)
  case (1 upper base n)
  then show ?case
    by (subst num_str.simps) (auto simp: read_num_def char_digit_char order_less_le_trans [OF mod_less_divisor])
qed

text \<open>
  C31: \<^verbatim>\<open>ksprintn\<close> writes every number in the usual notation of its base, and at most 64 digits, half of what
  its buffer holds; reading the digits gives the number back.
\<close>

theorem ksprintn_correct:
  assumes "2 \<le> base" "base \<le> 36"
  shows "rev (ksprintn num base upper) = num_str upper (unat base) (unat num) \<and> length (ksprintn num base upper) \<le> 64 \<and>
    read_num (unat base) (rev (ksprintn num base upper)) = unat num"
proof -
  have b: "2 \<le> unat base" "unat base \<le> 36" using assms by (simp_all add: word_le_nat_alt)
  have "length (num_str upper (unat base) (unat num)) \<le> 64" using num_str_length [OF b(1), of "unat num" 64 upper] unsigned_less [of num] by simp
  then show ?thesis using ksprintn_num_str [OF assms] read_num_str [OF b] by (metis length_rev)
qed

theorem ksprintn_correct_witness: "rev (ksprintn 255 16 True) = [70, 70] \<and> read_num 16 [70, 70] = 255"
proof -
  have "num_str True 16 255 = [70, 70]" by (simp add: num_str.simps digit_char_def)
  then show ?thesis using ksprintn_correct [of 16 255 True] by auto
qed

section \<open>What a format prints\<close>

lemma put_char_eq:
  "put_char len c s = (if length (pf_out s) < len then Ok ((), s\<lparr>pf_out := pf_out s @ [c]\<rparr>) else Stop Kfault)"
  by (simp add: put_char_def mexec)

lemma put_all_eq:
  "put_all len cs s = (if cs = [] \<or> length (pf_out s) + length cs \<le> len then Ok ((), s\<lparr>pf_out := pf_out s @ cs\<rparr>) else Stop Kfault)"
  by (induction cs arbitrary: s) (auto simp: mexec put_char_eq)

text \<open>A format as a sequence of pieces: plain text and the directives \<open>%d\<close>, \<open>%x\<close>, \<open>%016lx\<close> and \<open>%s\<close>.\<close>

datatype seg = Lit "u8 list" | Dec u64 | Hex u64 | Hex16 u64 | Str "u8 list"

fun fmt_of :: "seg \<Rightarrow> u8 list" where
  "fmt_of (Lit t) = t"
| "fmt_of (Dec w) = [C_percent, C_d]"
| "fmt_of (Hex w) = [C_percent, C_x]"
| "fmt_of (Hex16 w) = [C_percent, C_0, 49, 54, C_l, C_x]"
| "fmt_of (Str p) = [C_percent, C_s]"

fun args_of :: "seg \<Rightarrow> varg list" where
  "args_of (Lit t) = []"
| "args_of (Dec w) = [VInt w]"
| "args_of (Hex w) = [VInt w]"
| "args_of (Hex16 w) = [VInt w]"
| "args_of (Str p) = [VStr (Some p)]"

definition int_str :: "int \<Rightarrow> u8 list" where
  "int_str i = (if i < 0 then [C_minus] else []) @ num_str False 10 (nat \<bar>i\<bar>)"

fun render :: "seg \<Rightarrow> u8 list" where
  "render (Lit t) = t"
| "render (Dec w) = int_str (sint (ucast w :: u32))"
| "render (Hex w) = num_str False 16 (unat (ucast w :: u32))"
| "render (Hex16 w) = (let d = num_str False 16 (unat w) in replicate (16 - length d) C_0 @ d)"
| "render (Str p) = p"

fun plain :: "seg \<Rightarrow> bool" where
  "plain (Lit t) = (C_percent \<notin> set t)"
| "plain _ = True"

lemma lit_run:
  assumes "C_percent \<notin> set t" "length (pf_out s) + length t < len"
  shows "printf_run len radix None (t @ rest) s = printf_run len radix None rest (s\<lparr>pf_out := pf_out s @ t\<rparr>)"
  using assms
proof (induction t arbitrary: s)
  case (Cons c t)
  have "\<not> len - Suc 0 \<le> length (pf_out s)" using Cons.prems by simp
  then show ?case using Cons.prems Cons.IH [of "s\<lparr>pf_out := pf_out s @ [c]\<rparr>"] by (simp add: mexec put_char_eq)
qed simp

lemma unat_sint_abs: "unat (if sint w < 0 then - w else w :: u64) = nat \<bar>sint w\<bar>"
proof -
  have r: "- (2 ^ 63) \<le> sint w" "sint w < 2 ^ 63" using sint_ge [of w] sint_lt [of w] by simp_all
  have k: "unat (word_of_int k :: u64) = nat k" if "0 \<le> k" "k < 2 ^ 64" for k
    using that by (simp add: unsigned_of_int take_bit_int_eq_self)
  have w: "w = word_of_int (sint w)" by simp
  show ?thesis
  proof (cases "sint w < 0")
    case True
    have "- w = word_of_int (- sint w)" by simp
    then show ?thesis using k [of "- sint w"] True r by simp
  next
    case False
    then show ?thesis using k [of "sint w"] r w by simp
  qed
qed

lemma ksprintn_str: "2 \<le> base \<Longrightarrow> base \<le> 36 \<Longrightarrow> rev (ksprintn num base False) = num_str False (unat base) (unat num)"
  by (rule ksprintn_num_str)

lemma number_plain:
  assumes "length (pf_out s) + length (int_str (sint num)) \<le> len" "\<not> fc_neg cmd" "\<not> fc_sharpflag cmd" "\<not> fc_upper cmd" "fc_sign cmd"
  shows "number len cmd 10 num 0 32 s = Ok ((), s\<lparr>pf_out := pf_out s @ int_str (sint num)\<rparr>)"
proof -
  have "rev (ksprintn (if sint num < 0 then - num else num) 10 False) = num_str False 10 (nat \<bar>sint num\<bar>)"
    using ksprintn_str [of 10] unat_sint_abs [of num] by simp
  then show ?thesis using assms by (auto simp: number_def pad_out_def mexec put_all_eq put_char_eq int_str_def Let_def split: if_splits)
qed

lemma number_unsigned:
  assumes "\<not> fc_neg cmd" "\<not> fc_sharpflag cmd" "\<not> fc_upper cmd" "\<not> fc_sign cmd" "\<not> fc_ladjust cmd" "padchar = C_0 \<or> width = 0" "0 \<le> width"
    and out: "out = replicate (nat width - length (num_str False 16 (unat num))) padchar @ num_str False 16 (unat num)"
    and len: "length (pf_out s) + length out \<le> len"
  shows "number len cmd 16 num width padchar s = Ok ((), s\<lparr>pf_out := pf_out s @ out\<rparr>)"
proof -
  let ?d = "num_str False 16 (unat num)"
  have d: "rev (ksprintn num 16 False) = ?d" using ksprintn_str [of 16 num] by simp
  then have l: "length (ksprintn num 16 False) = length ?d" by (metis length_rev)
  have n: "nat (width - int (length ?d)) = nat width - length ?d" using assms(7) by linarith
  show ?thesis
  proof (cases "width \<noteq> 0 \<and> width > int (length ?d)")
    case True
    then show ?thesis using assms d l n by (auto simp: number_def pad_out_def mexec put_all_eq Let_def)
  next
    case False
    then have "nat width - length ?d = 0" using assms(7) by linarith
    then show ?thesis using assms d l n False by (auto simp: number_def pad_out_def mexec put_all_eq Let_def)
  qed
qed

lemma seg_run:
  assumes w: "plain g" "\<not> pf_discard s" "pf_args s = args_of g @ args" "length (pf_out s) + length (render g) < len"
  shows "printf_run len radix None (fmt_of g @ rest) s = printf_run len radix None rest (s\<lparr>pf_args := args, pf_out := pf_out s @ render g\<rparr>)"
proof (cases g)
  case (Lit t)
  have e: "s\<lparr>pf_args := args, pf_out := pf_out s @ t\<rparr> = s\<lparr>pf_out := pf_out s @ t\<rparr>" using w(3) Lit by (intro pst.equality) simp_all
  show ?thesis unfolding Lit fmt_of.simps render.simps e by (rule lit_run) (use w Lit in simp_all)
next
  case (Dec x)
  have e: "sint (scast (ucast x :: u32) :: u64) = sint (ucast x :: u32)"
    using sint_ge [of "ucast x :: u32"] sint_lt [of "ucast x :: u32"] by (simp add: signed_scast_eq signed_take_bit_int_eq_self)
  show ?thesis
    using w number_plain [of "s\<lparr>pf_args := args\<rparr>" "scast (ucast x :: u32)" len "RESET_FMT\<lparr>fc_sign := True\<rparr>"] unfolding Dec e
    by (simp add: mexec is_digit_def switch_char_def handle_sign_def va_word_def Let_def RESET_FMT_def e)
next
  case (Hex x)
  define y where "y = (ucast x :: u32)"
  have e: "unat (ucast y :: u64) = unat y" using unsigned_less [of y, where 'a = nat] by (simp add: unsigned_ucast_eq take_bit_nat_eq_self)
  show ?thesis
    using w number_unsigned [of "RESET_FMT\<lparr>fc_sign := False\<rparr>" 32 0 _ "ucast y" "s\<lparr>pf_args := args\<rparr>" len, OF _ _ _ _ _ _ _ refl]
    unfolding Hex e by (simp add: mexec is_digit_def switch_char_def handle_nosign_def va_word_def Let_def RESET_FMT_def y_def [symmetric])
next
  case (Hex16 x)
  show ?thesis
    using w number_unsigned [of "RESET_FMT\<lparr>fc_lflag := True, fc_sign := False\<rparr>" C_0 16 _ x "s\<lparr>pf_args := args\<rparr>" len, OF _ _ _ _ _ _ _ refl]
    unfolding Hex16 by (simp add: mexec is_digit_def digits_value_def switch_char_def handle_nosign_def va_word_def Let_def RESET_FMT_def)
next
  case (Str p)
  then show ?thesis
    using w by (simp add: mexec is_digit_def switch_char_def put_string_def va_string_def Let_def RESET_FMT_def put_all_eq)
qed

lemma segs_run:
  assumes "\<forall>g \<in> set gs. plain g" "\<not> pf_discard s" "pf_args s = concat (map args_of gs)" "length (pf_out s) + length (concat (map render gs)) < len"
  shows "\<exists>s'. printf_run len radix None (concat (map fmt_of gs)) s =
    Ok (int (length (pf_out s) + length (concat (map render gs))), s') \<and> pf_out s' = pf_out s @ concat (map render gs)"
  using assms
proof (induction gs arbitrary: s)
  case Nil
  then have "len - Suc 0 \<le> length (pf_out s) \<longrightarrow> int len - 1 = int (length (pf_out s))" by simp linarith
  with Nil show ?case by (simp add: mexec)
next
  case (Cons g gs)
  let ?s = "s\<lparr>pf_args := concat (map args_of gs), pf_out := pf_out s @ render g\<rparr>"
  have "printf_run len radix None (concat (map fmt_of (g # gs))) s = printf_run len radix None (concat (map fmt_of gs)) ?s"
    using seg_run [of g s "concat (map args_of gs)" len radix "concat (map fmt_of gs)"] Cons.prems by simp
  then show ?case using Cons.IH [of ?s] Cons.prems by (auto simp: add.assoc)
qed

lemma segs_print:
  assumes "\<forall>g \<in> set gs. plain g" "length (concat (map render gs)) < len"
  shows "kvprintf len (Some (concat (map fmt_of gs))) 10 (concat (map args_of gs)) =
    Ok (int (length (concat (map render gs))), concat (map render gs))"
  using segs_run [of gs "\<lparr>pf_out = [], pf_args = concat (map args_of gs), pf_dwidth = 0, pf_discard = False\<rparr>" len "word_of_int 10"] assms
  by (auto simp: kvprintf_def)

text \<open>
  C29: A format made of plain text and the directives \<open>%d\<close>, \<open>%x\<close>, \<open>%016lx\<close> and \<open>%s\<close> prints its pieces one
  after the other: signed decimal, hexadecimal, hexadecimal filled up with zeros to 16 digits, and the
  string; the result is the length, as long as everything fits into the buffer with its terminator.
\<close>

theorem kvprintf_correct:
  assumes "\<forall>g \<in> set gs. plain g" "length (concat (map render gs)) < len"
  shows "kvprintf len (Some (concat (map fmt_of gs))) 10 (concat (map args_of gs)) =
    Ok (int (length (concat (map render gs))), concat (map render gs))"
  by (rule segs_print [OF assms])

theorem kvprintf_correct_witness:
  "kvprintf 128 (Some [97, 61, 37, 100, 44, 37, 120]) 10 [VInt (- 42), VInt 255] = Ok (8, [97, 61, 45, 52, 50, 44, 102, 102])"
proof -
  have "sint (ucast (- 42 :: u64) :: u32) = - 42" "num_str False 10 42 = [52, 50]" "num_str False 16 255 = [102, 102]"
    by (simp_all add: num_str.simps digit_char_def)
  then show ?thesis using kvprintf_correct [of "[Lit [97, 61], Dec (- 42), Lit [44], Hex 255]" 128]
    by (simp add: int_str_def)
qed

text \<open>
  C32: Text without directives never overruns the buffer: what does not fit is cut off, with room for the
  terminator, and the returned length is that of the cut text.
\<close>

theorem kvprintf_cuts_text:
  assumes "C_percent \<notin> set t" "0 < len"
  shows "kvprintf len (Some t) 10 args = Ok (int (min (length t) (len - 1)), take (len - 1) t)"
proof -
  have "\<exists>s'. printf_run len radix None t s = Ok (int (min (length (pf_out s) + length t) (len - 1)), s') \<and>
      pf_out s' = pf_out s @ take (len - 1 - length (pf_out s)) t" if "length (pf_out s) \<le> len - 1" "C_percent \<notin> set t" for radix s t
    using that
  proof (induction t arbitrary: s)
    case (Cons c t)
    show ?case
    proof (cases "length (pf_out s) = len - 1")
      case True
      then show ?thesis using Cons.prems by (auto simp: mexec)
    next
      case False
      then have l: "length (pf_out s) < len - 1" using Cons.prems(1) by simp
      let ?s = "s\<lparr>pf_out := pf_out s @ [c]\<rparr>"
      have "len - 1 - length (pf_out s) = Suc (len - 1 - length (pf_out ?s))" using l by simp
      then show ?thesis using Cons.IH [of ?s] Cons.prems l by (auto simp: mexec put_char_eq)
    qed
  qed (auto simp: mexec)
  from this [of "\<lparr>pf_out = [], pf_args = args, pf_dwidth = 0, pf_discard = False\<rparr>" t "word_of_int 10"]
  show ?thesis using assms by (auto simp: kvprintf_def)
qed

theorem kvprintf_cuts_text_witness: "kvprintf 4 (Some [104, 101, 108, 108, 111]) 10 [] = Ok (3, [104, 101, 108])"
  using kvprintf_cuts_text [of "[104, 101, 108, 108, 111]" 4 "[]"] by simp



end
