(* ===== verification/Kconsole.thy ===== *)
theory Kconsole
  imports Kwalk Kport Kprintf
begin

text \<open>
  The kernel consoles: the list of consoles of \<^verbatim>\<open>dev/kconsole.c\<close>, \<^verbatim>\<open>kprintf\<close> of \<^verbatim>\<open>common/printf.c\<close> on top of it,
  and the serial line of the x64 machine as the first console (\<^verbatim>\<open>hal/x64/early_console.c\<close>).  The functions of a
  console are addresses; the code behind them is an argument.
\<close>

section \<open>The list of consoles\<close>

datatype kcnode = KcHead | KcLink nat

record kconsole =
  kc_x :: int
  kc_y :: int
  kc_putchar :: "nat option"
  kc_cls :: "nat option"
  kc_locate :: "nat option"

record 'd kcst =
  kc_iflag :: bool
  kc_lnk :: "kcnode links"
  kc_con :: "nat \<Rightarrow> kconsole"
  kc_dev :: 'd

record 's kccode =
  putchar_at :: "nat \<Rightarrow> int \<Rightarrow> ('s, unit) kfun"
  cls_at :: "nat \<Rightarrow> ('s, unit) kfun"
  locate_at :: "nat \<Rightarrow> int \<Rightarrow> int \<Rightarrow> ('s, unit) kfun"

definition kc_save :: "('d kcst, bool) kfun" where
  "kc_save = mbind (mget kc_iflag) (\<lambda>psw. mthen (mmod (kc_iflag_update (\<lambda>_. False))) (mret psw))"

definition kc_restore :: "bool \<Rightarrow> ('d kcst, unit) kfun" where
  "kc_restore psw = mmod (kc_iflag_update (\<lambda>_. psw))"

text \<open>One turn of the loops: call a function of the console unless it is \<^verbatim>\<open>NULL\<close>.\<close>

definition con_turn :: "(kconsole \<Rightarrow> nat option) \<Rightarrow> (nat \<Rightarrow> ('d kcst, unit) kfun) \<Rightarrow> kcnode \<Rightarrow> unit \<Rightarrow> ('d kcst, unit) kfun" where
  "con_turn sel call cp u =
     (case cp of
        KcHead \<Rightarrow> mstop Kfault
      | KcLink c \<Rightarrow> mbind (mget (\<lambda>s. sel (kc_con s c))) (\<lambda>f. case f of None \<Rightarrow> mret () | Some a \<Rightarrow> call a))"

definition kputchar :: "'d kcst kccode \<Rightarrow> int \<Rightarrow> ('d kcst, unit) kfun" where
  "kputchar k ch =
     mbind kc_save (\<lambda>psw.
     mthen (list_walk kc_lnk KcHead (con_turn kc_putchar (\<lambda>a. putchar_at k a ch)) ())
     (kc_restore psw))"

definition kcls :: "'d kcst kccode \<Rightarrow> ('d kcst, unit) kfun" where
  "kcls k =
     mbind kc_save (\<lambda>psw.
     mthen (list_walk kc_lnk KcHead (con_turn kc_cls (\<lambda>a. cls_at k a)) ())
     (kc_restore psw))"

definition klocate :: "'d kcst kccode \<Rightarrow> int \<Rightarrow> int \<Rightarrow> ('d kcst, unit) kfun" where
  "klocate k x y =
     mbind kc_save (\<lambda>psw.
     mthen (list_walk kc_lnk KcHead (con_turn kc_locate (\<lambda>a. locate_at k a x y)) ())
     (kc_restore psw))"

definition register_kconsole :: "nat option \<Rightarrow> ('d kcst, int) kfun" where
  "register_kconsole conp =
     mbind kc_save (\<lambda>psw.
     mbind (mget kc_con) (\<lambda>con.
       case conp of
         None \<Rightarrow> mthen (kc_restore psw) (mret EINVAL)
       | Some c \<Rightarrow>
           if kc_putchar (con c) = None then mthen (kc_restore psw) (mret EINVAL)
           else mthen (mmod (\<lambda>s. s\<lparr>kc_lnk := list_add (kc_lnk s) KcHead (KcLink c)\<rparr>))
                (mthen (kc_restore psw) (mret 0))))"

definition unregister_kconsole :: "nat \<Rightarrow> ('d kcst, unit) kfun" where
  "unregister_kconsole c =
     mbind kc_save (\<lambda>psw.
     mthen (mmod (\<lambda>s. s\<lparr>kc_lnk := list_del (kc_lnk s) (KcLink c)\<rparr>))
     (kc_restore psw))"

section \<open>Printing\<close>

fun kprint_string :: "'d kcst kccode \<Rightarrow> u8 list \<Rightarrow> ('d kcst, unit) kfun" where
  "kprint_string k [] = mret ()"
| "kprint_string k (c # str) = mthen (kputchar k (sint c)) (kprint_string k str)"

abbreviation (input) PRFBUFLEN :: nat where "PRFBUFLEN \<equiv> 128"

text \<open>The string in the buffer ends at the first zero byte.\<close>

definition kprintf :: "'d kcst kccode \<Rightarrow> u8 list option \<Rightarrow> varg list \<Rightarrow> ('d kcst, int) kfun" where
  "kprintf k fmt ap s =
     (case kvprintf PRFBUFLEN fmt 10 ap of
        Stop e \<Rightarrow> Stop e
      | Ok (rc, buff) \<Rightarrow>
          if nat rc < PRFBUFLEN
          then mthen (kprint_string k (takeWhile (\<lambda>c. c \<noteq> 0) (take (nat rc) buff))) (mret rc) s
          else Stop Kfault)"

section \<open>The serial line\<close>

definition kc_port_in :: "u16 \<Rightarrow> (ports kcst, u8) kfun" where
  "kc_port_in port s = (case in_port_byte port (kc_dev s) of Ok (v, d) \<Rightarrow> Ok (v, s\<lparr>kc_dev := d\<rparr>) | Stop e \<Rightarrow> Stop e)"

definition kc_port_out :: "u16 \<Rightarrow> u8 \<Rightarrow> (ports kcst, unit) kfun" where
  "kc_port_out port v s = (case out_port_byte port v (kc_dev s) of Ok (u, d) \<Rightarrow> Ok (u, s\<lparr>kc_dev := d\<rparr>) | Stop e \<Rightarrow> Stop e)"

text \<open>Waiting for the transmitter: read the line status until bit 5 is set; if it never is, the loop does not end.\<close>

definition tx_free :: "ports \<Rightarrow> bool" where
  "tx_free p = (p_in p 0x3fd (p_pos p 0x3fd) (p_out p) AND 0x20 \<noteq> 0)"

definition read_lsr :: "ports \<Rightarrow> ports" where
  "read_lsr p = p\<lparr>p_pos := (p_pos p)(0x3fd := Suc (p_pos p 0x3fd))\<rparr>"

definition wait_tx :: "(ports kcst, unit) kfun" where
  "wait_tx s =
     (case while_option (\<lambda>p. \<not> tx_free p) read_lsr (kc_dev s) of
        None \<Rightarrow> Stop Kblocked
      | Some p \<Rightarrow> Ok ((), s\<lparr>kc_dev := read_lsr p\<rparr>))"

definition uart8250_putc :: "int \<Rightarrow> (ports kcst, unit) kfun" where
  "uart8250_putc ch =
     mbind kc_save (\<lambda>psw.
     mthen wait_tx
     (mthen (kc_port_out 0x3f8 (word_of_int ch))
     (kc_restore psw)))"

text \<open>The static console has address 0, and so has its function.\<close>

definition uart8250_init :: "(ports kcst, unit) kfun" where
  "uart8250_init =
     (let baud_setting = word_of_int (1846154 div 16 div 115200) :: u16 in
     mthen (kc_port_out (0x3f8 + 1) 0)
     (mthen (kc_port_out (0x3f8 + 4) (0 OR 3))
     (mthen (kc_port_out 0x3f8 (ucast (baud_setting AND 0xff)))
     (mthen (kc_port_out (0x3f8 + 1) (ucast (drop_bit 8 baud_setting)))
     (mthen (kc_port_out (0x3f8 + 3) 3)
     (mthen (kc_port_out (0x3f8 + 2) 0)
     (mthen (mmod (\<lambda>s. s\<lparr>kc_con := (kc_con s)(0 := (kc_con s 0)\<lparr>kc_putchar := Some 0\<rparr>)\<rparr>))
     (mthen (register_kconsole (Some 0)) (mret ())))))))))"

definition x64_consoles :: "ports kcst kccode" where
  "x64_consoles = \<lparr>putchar_at = (\<lambda>_. uart8250_putc), cls_at = (\<lambda>_. mstop Kfault), locate_at = (\<lambda>_ _ _. mstop Kfault)\<rparr>"

section \<open>Sending a character\<close>

text \<open>The transmitter gets free when the line status is read often enough.\<close>

definition tx_soon :: "ports \<Rightarrow> bool" where
  "tx_soon p = (\<exists>m. p_in p 0x3fd (p_pos p 0x3fd + m) (p_out p) AND 0x20 \<noteq> 0)"

lemma read_lsr_iter: "(read_lsr ^^ m) p = p\<lparr>p_pos := (p_pos p)(0x3fd := p_pos p 0x3fd + m)\<rparr>"
  by (induction m) (simp_all add: read_lsr_def fun_upd_def cong: if_cong)

lemma wait_tx_eq:
  "if tx_soon (kc_dev s) then \<exists>n. wait_tx s = Ok ((), s\<lparr>kc_dev := (kc_dev s)\<lparr>p_pos := (p_pos (kc_dev s))(0x3fd := n)\<rparr>\<rparr>)
   else wait_tx s = Stop Kblocked"
proof (cases "tx_soon (kc_dev s)")
  case True
  let ?p = "kc_dev s"
  have "\<exists>m. tx_free ((read_lsr ^^ m) ?p)" using True by (simp add: tx_soon_def tx_free_def read_lsr_iter)
  then obtain m where "while_option (\<lambda>p. \<not> tx_free p) read_lsr ?p = Some ((read_lsr ^^ m) ?p)" by (auto simp: while_option_def)
  then show ?thesis using True by (auto simp: wait_tx_def read_lsr_iter read_lsr_def)
next
  case False
  have "while_option (\<lambda>p. \<not> tx_free p) read_lsr (kc_dev s) = None"
    using False by (auto simp: while_option_def tx_soon_def tx_free_def read_lsr_iter)
  then show ?thesis using False by (simp add: wait_tx_def)
qed

text \<open>
  C34: \<^verbatim>\<open>uart8250_putc\<close> returns exactly when the transmitter gets free at some read of the line status, and then
  it has written the character, once and nothing else; otherwise it waits for ever.
\<close>

theorem uart8250_putc_returns:
  "if tx_soon (kc_dev s)
   then \<exists>s'. uart8250_putc ch s = Ok ((), s') \<and> p_out (kc_dev s') = p_out (kc_dev s) @ [(0x3f8, word_of_int ch)] \<and>
     p_in (kc_dev s') = p_in (kc_dev s) \<and> kc_iflag s' = kc_iflag s \<and> kc_lnk s' = kc_lnk s \<and> kc_con s' = kc_con s
   else uart8250_putc ch s = Stop Kblocked"
  using wait_tx_eq [of "s\<lparr>kc_iflag := False\<rparr>"]
  by (auto simp: uart8250_putc_def mexec kc_save_def kc_restore_def kc_port_out_def out_port_byte_def split: if_splits)

section \<open>Printing on the serial line\<close>

text \<open>The serial line is the only console, and its transmitter always gets free again.\<close>

definition on_uart :: "ports kcst \<Rightarrow> bool" where
  "on_uart s = (is_list (kc_lnk s) KcHead [KcLink 0] \<and> kc_putchar (kc_con s 0) = Some 0 \<and>
     (\<forall>n w. \<exists>m. p_in (kc_dev s) 0x3fd (n + m) w AND 0x20 \<noteq> 0))"

lemma kputchar_uart:
  assumes "on_uart s"
  shows "\<exists>s'. kputchar x64_consoles ch s = Ok ((), s') \<and> on_uart s' \<and> p_out (kc_dev s') = p_out (kc_dev s) @ [(0x3f8, word_of_int ch)] \<and> kc_iflag s' = kc_iflag s"
proof -
  let ?s = "s\<lparr>kc_iflag := False\<rparr>" and ?b = "con_turn kc_putchar (\<lambda>a. putchar_at x64_consoles a ch)"
  have t: "tx_soon (kc_dev ?s)" using assms unfolding on_uart_def tx_soon_def by simp
  obtain n where n: "wait_tx ?s = Ok ((), ?s\<lparr>kc_dev := (kc_dev ?s)\<lparr>p_pos := (p_pos (kc_dev ?s))(0x3fd := n)\<rparr>\<rparr>)"
    using wait_tx_eq [of ?s] t by (auto split: if_splits)
  have k: "lk s' = lk s \<and> True" if "x \<in> set [KcLink 0]" "True" "runs (?b x a) s b s'" and lk: "lk = kc_lnk" for x a s b s' and lk :: "ports kcst \<Rightarrow> kcnode links"
    using that wait_tx_eq [of "s\<lparr>kc_iflag := False\<rparr>"]
    by (auto simp: con_turn_def mrun x64_consoles_def runs_def uart8250_putc_def mexec kc_save_def kc_restore_def kc_port_out_def out_port_byte_def split: option.splits if_splits)
  have L: "is_list (kc_lnk ?s) KcHead [KcLink 0]" using assms by (simp add: on_uart_def)
  have "list_walk kc_lnk KcHead ?b () ?s = mfold ?b [KcLink 0] () ?s"
    by (rule list_walk_is_list [where I = "\<lambda>_. True" and lk = kc_lnk, OF L]) (use k in \<open>auto simp: runs_def\<close>)
  then show ?thesis using assms n
    by (simp add: kputchar_def mexec kc_save_def kc_restore_def con_turn_def on_uart_def x64_consoles_def uart8250_putc_def kc_port_out_def out_port_byte_def)
qed

lemma kprint_string_uart:
  assumes "on_uart s"
  shows "\<exists>s'. kprint_string x64_consoles str s = Ok ((), s') \<and> on_uart s' \<and> p_out (kc_dev s') = p_out (kc_dev s) @ map (\<lambda>c. (0x3f8, c)) str \<and> kc_iflag s' = kc_iflag s"
  using assms
proof (induction str arbitrary: s)
  case (Cons c str)
  obtain s1 where s1: "kputchar x64_consoles (sint c) s = Ok ((), s1)" "on_uart s1" "p_out (kc_dev s1) = p_out (kc_dev s) @ [(0x3f8, c)]" "kc_iflag s1 = kc_iflag s"
    using kputchar_uart [OF Cons.prems, of "sint c"] by auto
  obtain s2 where "kprint_string x64_consoles str s1 = Ok ((), s2)" "on_uart s2"
      "p_out (kc_dev s2) = p_out (kc_dev s1) @ map (\<lambda>c. (0x3f8, c)) str" "kc_iflag s2 = kc_iflag s1"
    using Cons.IH [OF s1(2)] by blast
  with s1 show ?case by (simp add: mexec)
qed (simp add: mexec)

text \<open>
  C30: \<^verbatim>\<open>kprintf\<close> on the x64 machine sends exactly the formatted text, byte by byte, to the data port of the serial
  line, and returns its length: formatting, the list of consoles and the serial driver together.
\<close>

theorem kprintf_uart:
  assumes u: "on_uart s" and g: "\<forall>g \<in> set gs. plain g" and t: "shown = concat (map render gs)" "length shown < PRFBUFLEN" "0 \<notin> set shown"
  shows "\<exists>s'. kprintf x64_consoles (Some (concat (map fmt_of gs))) (concat (map args_of gs)) s = Ok (int (length shown), s') \<and>
    p_out (kc_dev s') = p_out (kc_dev s) @ map (\<lambda>c. (0x3f8, c)) shown \<and> kc_iflag s' = kc_iflag s"
proof -
  have f: "takeWhile (\<lambda>c. c \<noteq> 0) shown = shown" unfolding takeWhile_eq_all_conv using t(3) by blast
  have k: "kvprintf PRFBUFLEN (Some (concat (map fmt_of gs))) 10 (concat (map args_of gs)) = Ok (int (length shown), shown)"
    using segs_print [OF g] t(2) unfolding t(1) by blast
  obtain s' where "kprint_string x64_consoles shown s = Ok ((), s')" "p_out (kc_dev s') = p_out (kc_dev s) @ map (\<lambda>c. (0x3f8, c)) shown"
      "kc_iflag s' = kc_iflag s"
    using kprint_string_uart [OF u, of shown] by blast
  then show ?thesis using k t(2) by (simp add: kprintf_def mexec f del: takeWhile_eq_all_conv)
qed

definition kc0 :: "ports kcst" where
  "kc0 = \<lparr>kc_iflag = True, kc_lnk = (\<lambda>n. \<lparr>l_prev = n, l_next = n\<rparr>),
     kc_con = (\<lambda>_. \<lparr>kc_x = 0, kc_y = 0, kc_putchar = None, kc_cls = None, kc_locate = None\<rparr>),
     kc_dev = p0\<lparr>p_in := \<lambda>_ n _. if even n then 0 else 0x20\<rparr>\<rparr>"

lemma uart8250_init_ok: "\<exists>s. uart8250_init kc0 = Ok ((), s) \<and> on_uart s"
proof -
  have "is_list (\<lambda>n :: kcnode. \<lparr>l_prev = n, l_next = n\<rparr>) KcHead []" by (simp add: is_list_def)
  from is_list_add [OF this, of "KcLink 0"] have L: "is_list (list_add (\<lambda>n. \<lparr>l_prev = n, l_next = n\<rparr>) KcHead (KcLink 0)) KcHead [KcLink 0]" by simp
  have e: "\<exists>m. (if even (n + m) then 0 else 0x20 :: u8) AND 0x20 \<noteq> 0" for n :: nat
    by (rule exI [of _ "if even n then 1 else 0"]) simp
  obtain s where s: "uart8250_init kc0 = Ok ((), s)" "kc_lnk s = list_add (\<lambda>n. \<lparr>l_prev = n, l_next = n\<rparr>) KcHead (KcLink 0)"
      "kc_putchar (kc_con s 0) = Some 0" "p_in (kc_dev s) = (\<lambda>_ n _. if even n then 0 else 0x20)"
    by (simp add: uart8250_init_def register_kconsole_def mexec kc_save_def kc_restore_def kc_port_out_def out_port_byte_def kc0_def Let_def)
  then have "on_uart s" unfolding on_uart_def s(2-4) using L e by blast
  with s(1) show ?thesis by blast
qed

theorem kprintf_uart_witness:
  "\<exists>s s'. uart8250_init kc0 = Ok ((), s) \<and> kprintf x64_consoles (Some [120, 61, 37, 100]) [VInt 7] s = Ok (3, s') \<and>
    p_out (kc_dev s') = p_out (kc_dev s) @ [(0x3f8, 120), (0x3f8, 61), (0x3f8, 55)]"
proof -
  obtain s where s: "uart8250_init kc0 = Ok ((), s)" "on_uart s" using uart8250_init_ok by blast
  have "int_str 7 = [55]" by (simp add: int_str_def num_str.simps digit_char_def)
  then show ?thesis using kprintf_uart [OF s(2), of "[Lit [120, 61], Dec 7]" "[120, 61, 55]"] s(1) by auto
qed

theorem uart8250_putc_returns_witness: "uart8250_putc 65 (kc0\<lparr>kc_dev := p0\<rparr>) = Stop Kblocked"
  using uart8250_putc_returns [of "kc0\<lparr>kc_dev := p0\<rparr>" 65] by (simp add: tx_soon_def p0_def)

end
