(* ===== verification/Kmkfs.thy ===== *)
theory Kmkfs
  imports Kpath
begin

text \<open>
  The tool that makes the image of the file system (\<^verbatim>\<open>tools/fs/mkfs.c\<close>), and what the kernel finds in such
  an image.  The state is the mapped file, a list of bytes; the pointer \<^verbatim>\<open>sb\<close> of the tool points into
  that area, so the superblock is read from there and written to it.
\<close>

type_synonym 'a mkm = "(u8 list, 'a) kfun"

section \<open>Sectors\<close>

text \<open>
  \<^verbatim>\<open>map_file\<close>: the file gets the wanted size, cut or extended with zeros, and is mapped in whole pages.
  A mapping of length 0 is refused.
\<close>

definition map_file :: "nat \<Rightarrow> u8 list \<Rightarrow> u8 list option" where
  "map_file sz old =
     (if sz = 0 then None
      else Some (take sz old @ replicate ((sz + 4095) div 4096 * 4096 - length (take sz old)) 0))"

definition refer_sector :: "u64 \<Rightarrow> nat" where
  "refer_sector blk = BSIZE * unat blk"

definition read_sector :: "u64 \<Rightarrow> nat \<Rightarrow> u8 list mkm" where
  "read_sector blk sz =
     mbind (mget (\<lambda>im. im)) (\<lambda>im.
     mthen (mguard (refer_sector blk + sz \<le> length im))
     (mret (get_bytes sz im (refer_sector blk))))"

definition write_sector :: "u64 \<Rightarrow> u8 list \<Rightarrow> unit mkm" where
  "write_sector blk src =
     mbind (mget (\<lambda>im. im)) (\<lambda>im.
     mthen (mguard (refer_sector blk + length src \<le> length im))
     (mmod (\<lambda>im. put_bytes im (refer_sector blk) src)))"

definition get_sb :: "superblock mkm" where
  "get_sb = mbind (read_sector 1 BSIZE) (\<lambda>d. mret (get_superblock d))"

definition put_sb :: "superblock \<Rightarrow> unit mkm" where
  "put_sb sb = mbind (read_sector 1 BSIZE) (\<lambda>d. write_sector 1 (put_superblock d sb))"

section \<open>Bitmaps\<close>

text \<open>Setting a bit of a bitmap block, with the index of the word as the code computes it.\<close>

definition set_map_bit :: "u8 list \<Rightarrow> u64 \<Rightarrow> u8 list mkm" where
  "set_map_bit buf offs =
     (let chunk_index = unat (offs div 8); chunk_offset = unat (offs mod 8) in
      mthen (mguard (chunk_index * 8 + 8 \<le> length buf))
      (mret (put64 buf (chunk_index * 8) (get64 buf (chunk_index * 8) OR push_bit chunk_offset 1))))"

definition mark_inode_used :: "u32 \<Rightarrow> unit mkm" where
  "mark_inode_used ino =
     (let blk = ucast (1 + 1 + ino div 4096); offs = ucast (ino mod 4096) in
      mbind (read_sector blk BSIZE) (\<lambda>buf.
      mbind (set_map_bit buf offs) (\<lambda>buf.
      write_sector blk buf)))"

definition mark_data_block_used :: "u64 \<Rightarrow> unit mkm" where
  "mark_data_block_used blk =
     mbind get_sb (\<lambda>sb.
     let bitmap_blk = ucast (1 + 1 + s_imap_blocks sb) + sdivw blk 4096; offs = smodw blk 4096 in
     mbind (read_sector bitmap_blk BSIZE) (\<lambda>buf.
     mbind (set_map_bit buf offs) (\<lambda>buf.
     write_sector bitmap_blk buf)))"

definition write_disk_data_block :: "u64 \<Rightarrow> u8 list \<Rightarrow> int mkm" where
  "write_disk_data_block dblk buf =
     mbind get_sb (\<lambda>sb.
     let blk = ucast (s_firstdata_block sb) + dblk in
     mthen (write_sector blk buf) (mret 0))"

definition find_free_data_block_mkfs :: "u64 option mkm" where
  "find_free_data_block_mkfs =
     mbind get_sb (\<lambda>sb.
     mfor [0..<unat (s_nblocks sb)] (\<lambda>i.
       let bitmap_blk = ucast (1 + 1 + s_imap_blocks sb) + of_nat (i div 4096); offs = i mod 4096;
           chunk_index = offs div 8; chunk_offset = offs mod 8 in
       mbind (read_sector bitmap_blk BSIZE) (\<lambda>buf.
       mthen (mguard (chunk_index * 8 + 8 \<le> length buf))
       (if get64 buf (chunk_index * 8) AND push_bit chunk_offset 1 = 0 then
          mthen (mark_data_block_used (of_nat i)) (mret (Some (of_nat i)))
        else mret None))))"

section \<open>Inodes and the root directory\<close>

text \<open>A disk inode is its 168 bytes.\<close>

definition write_disk_inode :: "u32 \<Rightarrow> u8 list \<Rightarrow> int mkm" where
  "write_disk_inode ino dinodep =
     mbind get_sb (\<lambda>sb.
     let blk = ucast (1 + 1 + s_imap_blocks sb + s_bmap_blocks sb) + ucast (ino div 3); index = unat (ino mod 3) in
     mbind (read_sector blk BSIZE) (\<lambda>buf.
     mthen (write_sector blk (put_bytes buf (index * DINODE_SIZE) dinodep)) (mret 0)))"

abbreviation (input) CONS_INO :: u32 where "CONS_INO \<equiv> 3"
abbreviation (input) CONS_NAME :: "u8 list" where "CONS_NAME \<equiv> [67, 79, 78]"
abbreviation (input) FS_MAGIC_NR :: u32 where "FS_MAGIC_NR \<equiv> 0xfeedf5"

text \<open>A directory entry written over zeros: the inode number and the name with its null byte.\<close>

definition put_dirent :: "u8 list \<Rightarrow> nat \<Rightarrow> u32 \<Rightarrow> u8 list \<Rightarrow> u8 list" where
  "put_dirent buf k ino name = put_bytes (put32 buf (k * DIRENT_SIZE) ino) (k * DIRENT_SIZE + 4) (name @ [0])"

definition root_entries :: "u8 list" where
  "root_entries =
     put_dirent (put_dirent (put_dirent (replicate BSIZE 0) 0 ROOT_DENT_INO [46]) 1 ROOT_DENT_INO [46, 46]) 2 CONS_INO CONS_NAME"

text \<open>
  The two disk inodes: cleared, then assigned field by field.
\<close>

definition root_inode :: "u64 \<Rightarrow> inode" where
  "root_inode addr = inode0\<lparr>i_mode := FS_IMODE_DIR, i_nlink := 1, i_size := 512, i_addr := (i_addr inode0)[0 := addr]\<rparr>"

definition cons_inode :: inode where
  "cons_inode = inode0\<lparr>i_mode := FS_IMODE_DEV, i_nlink := 1, i_rdev := CONS_DEV, i_size := 0\<rparr>"

text \<open>When no block is free the variable that should hold its number is not initialised.\<close>

definition write_root_dirent :: "unit mkm" where
  "write_root_dirent =
     mthen (mark_inode_used ROOT_DENT_INO)
     (mthen (mark_inode_used CONS_INO)
     (mbind find_free_data_block_mkfs (\<lambda>r. case r of
        None \<Rightarrow> mstop Kfault
      | Some blk \<Rightarrow>
          mbind get_sb (\<lambda>sb.
          mthen (write_disk_inode ROOT_DENT_INO
            (put_dinode (replicate DINODE_SIZE 0) 0 (root_inode (blk + ucast (s_firstdata_block sb)))))
          (mthen (write_disk_inode CONS_INO (put_dinode (replicate DINODE_SIZE 0) 0 cons_inode))
          (mthen (write_disk_data_block blk root_entries) (mret ())))))))"

section \<open>Superblock\<close>

definition inode_blocks :: "u64 \<Rightarrow> u64" where
  "inode_blocks nr_files = (nr_files + 2) div 3"

definition layout :: "nat \<Rightarrow> u64 \<Rightarrow> superblock \<Rightarrow> superblock" where
  "layout sz nr_files sb =
     (let s_max = of_nat (sz div BSIZE) :: u32;
          imap = ucast ((nr_files + 4095) div 4096) :: u32;
          remains = ucast (s_max - 2 - imap) - inode_blocks nr_files :: u64;
          data_blocks = sdivw (remains * 4096 - 4095) 4097;
          bmap_blocks = ucast (sdivw (data_blocks + 4095) 4096) :: u32
      in sb\<lparr>s_max_size := s_max, s_ninodes := ucast nr_files, s_imap_blocks := imap, s_bmap_blocks := bmap_blocks,
           s_nblocks := ucast data_blocks,
           s_firstdata_block := ucast (ucast (2 + imap) + inode_blocks nr_files + ucast bmap_blocks),
           s_magic := FS_MAGIC_NR\<rparr>)"

definition init_super_block :: "nat \<Rightarrow> u64 \<Rightarrow> unit mkm" where
  "init_super_block sz nr_files =
     mbind get_sb (\<lambda>sb.
     mthen (put_sb (layout sz nr_files sb))
     (mthen (mark_inode_used 0)
     (mark_inode_used 1)))"

definition write_fs_image :: "nat \<Rightarrow> u64 \<Rightarrow> unit mkm" where
  "write_fs_image sz nr_files =
     mthen (init_super_block sz nr_files)
     (mthen write_root_dirent
     (mbind get_sb (\<lambda>sb.
      write_sector 1 (put_superblock (replicate BSIZE 0) sb))))"

text \<open>The file the tool leaves behind; nothing when it gives up because the file cannot be mapped.\<close>

definition mkfs_main :: "nat \<Rightarrow> u64 \<Rightarrow> u8 list \<Rightarrow> u8 list option outcome" where
  "mkfs_main sz nr_files old =
     (case map_file sz old of
        None \<Rightarrow> Ok None
      | Some im \<Rightarrow> (case write_fs_image sz nr_files im of
          Stop e \<Rightarrow> Stop e
        | Ok (_, im') \<Rightarrow> Ok (Some (take sz im'))))"


section \<open>The layout\<close>

lemma sdivw_nat:
  assumes "a < 2 ^ 63" "0 < b"
  shows "sdivw (of_nat a) (int b) = of_nat (a div b)" "smodw (of_nat a) (int b) = of_nat (a mod b)"
proof -
  have "unat (of_nat a :: u64) = a" using assms(1) by (simp add: unat_of_nat)
  then have "sint (of_nat a :: u64) = int a" using sint_small [of "of_nat a"] assms(1) by simp
  moreover have "int a sdiv int b = int (a div b)" "int a smod int b = int (a mod b)"
    using assms(2) by (cases "a = 0"; simp add: signed_divide_int_def signed_modulo_int_def zdiv_int zmod_int)+
  ultimately show "sdivw (of_nat a) (int b) = of_nat (a div b)" "smodw (of_nat a) (int b) = of_nat (a mod b)"
    by (simp_all add: sdivw_def smodw_def)
qed

lemma map_blocks:
  fixes r :: nat
  assumes "2 \<le> r"
  defines "d \<equiv> (r * 4096 - 4095) div 4097"
  shows "0 < d" "d + (d + 4095) div 4096 \<le> r" "r \<le> d + (d + 4095) div 4096 + 1"
proof -
  have "4097 * d \<le> r * 4096 - 4095" "r * 4096 - 4095 < 4097 * d + 4097" unfolding d_def by simp_all
  then show "0 < d" "d + (d + 4095) div 4096 \<le> r" "r \<le> d + (d + 4095) div 4096 + 1" using assms(1) by simp_all
qed

definition fits_disk :: "nat \<Rightarrow> u64 \<Rightarrow> bool" where
  "fits_disk sz nr_files =
     (let nr = unat nr_files in
      nr < 2 ^ 32 \<and> sz div BSIZE < 2 ^ 32 \<and> 2 + (nr + 4095) div 4096 + (nr + 2) div 3 + 2 \<le> sz div BSIZE)"

lemma layout_sel:
  fixes sb :: superblock
  assumes "fits_disk sz nr_files"
  defines "nr \<equiv> unat nr_files" and "sb' \<equiv> layout sz nr_files sb"
  defines "im \<equiv> (nr + 4095) div 4096" and "ib \<equiv> (nr + 2) div 3"
  defines "d \<equiv> ((sz div 512 - 2 - im - ib) * 4096 - 4095) div 4097"
  shows "unat (s_max_size sb') = sz div 512" "unat (s_ninodes sb') = nr" "unat (s_imap_blocks sb') = im"
    "unat (s_bmap_blocks sb') = (d + 4095) div 4096" "unat (s_nblocks sb') = d"
    "unat (s_firstdata_block sb') = 2 + im + ib + (d + 4095) div 4096" "s_magic sb' = FS_MAGIC_NR" "s_pad sb' = s_pad sb"
    "unat (inode_blocks nr_files) = ib"
proof -
  let ?r = "sz div 512 - 2 - im - ib"
  have A: "nr < 2 ^ 32" "sz div 512 < 2 ^ 32" "2 + im + ib + 2 \<le> sz div 512"
    using assms(1) by (simp_all add: fits_disk_def Let_def nr_def im_def ib_def)
  then have rb: "2 \<le> ?r" "?r < 2 ^ 32" by simp_all
  note mb = map_blocks [OF rb(1), folded d_def]
  have dr: "d < 2 ^ 32" "(d + 4095) div 4096 < 2 ^ 32" using mb(2) rb(2) by simp_all
  have n: "nr_files = of_nat nr" by (simp add: nr_def)
  have ib: "inode_blocks nr_files = of_nat ib"
    unfolding inode_blocks_def n ib_def using A(1) by (intro word_unat_eq_iff [THEN iffD2]) (simp add: unat_div unat_word_ariths unat_of_nat)
  then show "unat (inode_blocks nr_files) = ib" using A by (simp add: unat_of_nat)
  have f64: "unat (of_nat k :: u64) = k" if "k < 2 ^ 63" for k using that by (simp add: unat_of_nat)
  have f32: "unat (of_nat k :: u32) = k" if "k < 2 ^ 32" for k using that by (simp add: unat_of_nat)
  have im: "ucast ((nr_files + 4095) div 4096) = (of_nat im :: u32)"
    unfolding n im_def using A(1) by (intro word_unat_eq_iff [THEN iffD2]) (simp add: unat_div unat_word_ariths unat_of_nat unsigned_ucast_eq take_bit_eq_mod)
  have r: "ucast (of_nat (sz div 512) - 2 - of_nat im :: u32) - of_nat ib = (of_nat ?r :: u64)"
  proof -
    have e: "of_nat (sz div 512) - 2 - of_nat im = (of_nat (sz div 512 - 2 - im) :: u32)" using A(3) by (simp add: of_nat_diff)
    have f: "ucast (of_nat (sz div 512 - 2 - im) :: u32) = (of_nat (sz div 512 - 2 - im) :: u64)"
      using A(2) by (intro word_unat_eq_iff [THEN iffD2]) (simp add: unsigned_ucast_eq take_bit_eq_mod unat_of_nat)
    show ?thesis unfolding e f by (rule of_nat_diff [symmetric]) (use A(3) in simp)
  qed
  have "of_nat ?r * 4096 - 4095 = (of_nat (?r * 4096 - 4095) :: u64)" using rb(1) by (simp add: of_nat_diff)
  then have d: "sdivw (of_nat ?r * 4096 - 4095) 4097 = of_nat d"
    using sdivw_nat(1) [of "?r * 4096 - 4095" 4097] rb by (simp add: d_def)
  have "of_nat d + 4095 = (of_nat (d + 4095) :: u64)" by simp
  then have b: "sdivw (of_nat d + 4095) 4096 = of_nat ((d + 4095) div 4096)"
    using sdivw_nat(1) [of "d + 4095" 4096] dr by simp
  have L: "sb' = sb\<lparr>s_max_size := of_nat (sz div 512), s_ninodes := ucast nr_files, s_imap_blocks := of_nat im,
      s_bmap_blocks := ucast (of_nat ((d + 4095) div 4096) :: u64), s_nblocks := ucast (of_nat d :: u64),
      s_firstdata_block := ucast (ucast (2 + of_nat im :: u32) + of_nat ib + ucast (ucast (of_nat ((d + 4095) div 4096) :: u64) :: u32) :: u64),
      s_magic := FS_MAGIC_NR\<rparr>"
    unfolding sb'_def layout_def Let_def im ib r d b ..
  have bd: "2 + im + ib + (d + 4095) div 4096 < 2 ^ 32" using A(2,3) mb by simp
  show "unat (s_max_size sb') = sz div 512" "unat (s_ninodes sb') = nr" "unat (s_imap_blocks sb') = im"
    "unat (s_bmap_blocks sb') = (d + 4095) div 4096" "unat (s_nblocks sb') = d"
    "unat (s_firstdata_block sb') = 2 + im + ib + (d + 4095) div 4096" "s_magic sb' = FS_MAGIC_NR" "s_pad sb' = s_pad sb"
    using A dr bd by (simp_all add: L nr_def [symmetric] unsigned_ucast_eq take_bit_eq_mod unat_of_nat unat_word_ariths)
qed


section \<open>The image as an array of blocks\<close>

definition on_img :: "nat \<Rightarrow> u64 \<Rightarrow> bool" where
  "on_img L n = (unat n * BSIZE + BSIZE \<le> L)"

definition holds_blocks :: "u8 list \<Rightarrow> nat \<Rightarrow> (u64 \<Rightarrow> u8 list) \<Rightarrow> bool" where
  "holds_blocks im L B = (length im = L \<and> (\<forall>n. on_img L n \<longrightarrow> disk_blk im n = B n))"

lemma holds_length: "holds_blocks im L B \<Longrightarrow> on_img L n \<Longrightarrow> length (B n) = BSIZE"
  unfolding holds_blocks_def on_img_def by (metis disk_blk_def get_bytes_def length_take length_drop min.absorb2 le_diff_conv2 add.commute add_leD2)

lemma read_sector_run: "holds_blocks im L B \<Longrightarrow> on_img L n \<Longrightarrow> runs (read_sector n BSIZE) im (B n) im"
  by (auto simp: read_sector_def mrun refer_sector_def holds_blocks_def on_img_def disk_blk_def mult.commute)

lemma write_sector_run:
  assumes H: "holds_blocks im L B" and n: "on_img L n" and d: "length d = BSIZE"
  obtains im' where "runs (write_sector n d) im () im'" "holds_blocks im' L (B(n := d))"
proof -
  let ?im = "put_bytes im (unat n * BSIZE) d"
  have L: "length im = L" using H by (simp add: holds_blocks_def)
  have l: "unat n * BSIZE + BSIZE \<le> length im" using n L by (simp add: on_img_def)
  have "disk_blk ?im m = (B(n := d)) m" if m: "on_img L m" for m
  proof (cases "m = n")
    case True
    then show ?thesis using fbytes.get_put [OF l d] by (simp add: disk_blk_def)
  next
    case False
    then have "unat m < unat n \<or> unat n < unat m" unfolding word_unat_eq_iff by (rule linorder_neqE_nat) simp_all
    then have "unat m * BSIZE + BSIZE \<le> unat n * BSIZE \<or> unat n * BSIZE + BSIZE \<le> unat m * BSIZE" by auto
    then have "disk_blk ?im m = disk_blk im m"
      using fbytes.get_put_other [OF l _ d, of "unat m * BSIZE"] m L by (simp add: disk_blk_def on_img_def)
    then show ?thesis using H m False by (simp add: holds_blocks_def)
  qed
  then have "holds_blocks ?im L (B(n := d))" using L fbytes.length_put [OF l d] by (simp add: holds_blocks_def)
  moreover have "runs (write_sector n d) im () ?im"
    using l d by (simp add: write_sector_def mrun refer_sector_def mult.commute)
  ultimately show ?thesis by (rule that [rotated])
qed

lemma get_sb_run: "holds_blocks im L B \<Longrightarrow> 1024 \<le> L \<Longrightarrow> runs get_sb im (get_superblock (B 1)) im"
  unfolding get_sb_def by (rule runs_mbindI [OF read_sector_run]) (simp_all add: on_img_def mrun)

text \<open>The bit of a number below 8 is in the first word.\<close>

definition set_bit0 :: "nat \<Rightarrow> u8 list \<Rightarrow> u8 list" where
  "set_bit0 k d = put64 d 0 (get64 d 0 OR push_bit k 1)"

lemma set_map_bit_run:
  assumes "unat offs < 8" "8 \<le> length d"
  shows "runs (set_map_bit d offs) im (set_bit0 (unat offs) d) im"
proof -
  have "unat (offs div 8) = 0" "unat (offs mod 8) = unat offs" using assms(1) by (simp_all add: unat_div unat_mod)
  then show ?thesis using assms(2) by (simp add: set_map_bit_def Let_def mrun set_bit0_def)
qed

lemma length_set_bit0: "8 \<le> length d \<Longrightarrow> length (set_bit0 k d) = length d"
  by (simp add: set_bit0_def f64.length_put)

lemma mark_inode_used_run:
  assumes H: "holds_blocks im L B" and L: "on_img L 2" and i: "unat ino < 8"
  obtains im' where "runs (mark_inode_used ino) im () im'" "holds_blocks im' L (B(2 := set_bit0 (unat ino) (B 2)))"
proof -
  have e: "ino div 4096 = 0" "ino mod 4096 = ino" "unat (ucast ino :: u64) = unat ino"
    using i by (simp_all add: word_unat_eq_iff unat_div unat_mod unsigned_ucast_eq take_bit_eq_mod)
  have l: "length (B 2) = 512" by (rule holds_length [OF H L])
  obtain im' where w: "runs (write_sector 2 (set_bit0 (unat ino) (B 2))) im () im'" "holds_blocks im' L (B(2 := set_bit0 (unat ino) (B 2)))"
    by (rule write_sector_run [OF H L, of "set_bit0 (unat ino) (B 2)"]) (simp_all add: length_set_bit0 l)
  have "runs (mark_inode_used ino) im () im'"
    unfolding mark_inode_used_def Let_def e
    by (rule runs_mbindI [where s' = im and x = "B 2"], use read_sector_run [OF H L] in simp,
        rule runs_mbindI [OF set_map_bit_run]) (use i l e w in simp_all)
  then show ?thesis using w(2) by (rule that)
qed


lemma mark_data_block_used_run:
  assumes H: "holds_blocks im L B" and L: "1024 \<le> L" and b: "bm = ucast (1 + 1 + s_imap_blocks (get_superblock (B 1)))" "on_img L bm"
  obtains im' where "runs (mark_data_block_used 0) im () im'" "holds_blocks im' L (B(bm := set_bit0 0 (B bm)))"
proof -
  have e: "sdivw 0 4096 = 0" "smodw 0 4096 = 0" by (simp_all add: sdivw_def smodw_def)
  have l: "length (B bm) = 512" by (rule holds_length [OF H b(2)])
  obtain im' where w: "runs (write_sector bm (set_bit0 0 (B bm))) im () im'" "holds_blocks im' L (B(bm := set_bit0 0 (B bm)))"
    by (rule write_sector_run [OF H b(2), of "set_bit0 0 (B bm)"]) (simp_all add: length_set_bit0 l)
  have "runs (mark_data_block_used 0) im () im'"
    unfolding mark_data_block_used_def Let_def e add_0_right
    by (rule runs_mbindI [OF get_sb_run [OF H L]], unfold b(1) [symmetric], rule runs_mbindI [OF read_sector_run [OF H b(2)]],
        rule runs_mbindI [OF set_map_bit_run]) (use l w in simp_all)
  then show ?thesis using w(2) by (rule that)
qed

lemma find_free_run:
  assumes H: "holds_blocks im L B" and L: "1024 \<le> L" and b: "bm = ucast (1 + 1 + s_imap_blocks (get_superblock (B 1)))" "on_img L bm"
    and n: "0 < unat (s_nblocks (get_superblock (B 1)))" and z: "get64 (B bm) 0 AND 1 = 0"
  obtains im' where "runs find_free_data_block_mkfs im (Some 0) im'" "holds_blocks im' L (B(bm := set_bit0 0 (B bm)))"
proof -
  obtain im' where w: "runs (mark_data_block_used 0) im () im'" "holds_blocks im' L (B(bm := set_bit0 0 (B bm)))"
    by (rule mark_data_block_used_run [OF H L b])
  have u: "[0..<unat (s_nblocks (get_superblock (B 1)))] = 0 # [1..<unat (s_nblocks (get_superblock (B 1)))]"
    using n by (simp add: upt_conv_Cons)
  have l: "length (B bm) = 512" by (rule holds_length [OF H b(2)])
  have "runs find_free_data_block_mkfs im (Some 0) im'"
    unfolding find_free_data_block_mkfs_def Let_def
    by (rule runs_mbindI [OF get_sb_run [OF H L]], unfold u b(1) [symmetric] mfor.simps,
        rule runs_mbindI [where x = "Some 0" and s' = im'], rule runs_mbindI [where s' = im and x = "B bm"],
        use read_sector_run [OF H b(2)] in simp, rule runs_mthenI [where s' = im])
      (use l z w in \<open>auto simp: mrun intro: runs_mthenI\<close>)
  then show ?thesis using w(2) by (rule that)
qed

lemma write_disk_data_block_run:
  assumes H: "holds_blocks im L B" and L: "1024 \<le> L" and b: "fd = ucast (s_firstdata_block (get_superblock (B 1)))" "on_img L fd"
    and d: "length d = 512"
  obtains im' where "runs (write_disk_data_block 0 d) im 0 im'" "holds_blocks im' L (B(fd := d))"
proof -
  obtain im' where w: "runs (write_sector fd d) im () im'" "holds_blocks im' L (B(fd := d))"
    by (rule write_sector_run [OF H b(2) d])
  have "runs (write_disk_data_block 0 d) im 0 im'"
    unfolding write_disk_data_block_def Let_def add_0_right
    by (rule runs_mbindI [OF get_sb_run [OF H L]], unfold b(1) [symmetric], rule runs_mthenI [OF w(1)]) (simp add: mrun)
  then show ?thesis using w(2) by (rule that)
qed

lemma write_disk_inode_run:
  assumes H: "holds_blocks im L B" and L: "1024 \<le> L"
    and b: "it = ucast (1 + 1 + s_imap_blocks (get_superblock (B 1)) + s_bmap_blocks (get_superblock (B 1))) + ucast (ino div 3)" "on_img L it"
    and d: "length d = DINODE_SIZE"
  obtains im' where "runs (write_disk_inode ino d) im 0 im'" "holds_blocks im' L (B(it := put_bytes (B it) (unat (ino mod 3) * DINODE_SIZE) d))"
proof -
  have "unat (ino mod 3) < 3" by (simp add: unat_mod)
  then have i: "unat (ino mod 3) * 168 + length d \<le> length (B it)" using d holds_length [OF H b(2)] by simp
  then obtain im' where w: "runs (write_sector it (put_bytes (B it) (unat (ino mod 3) * DINODE_SIZE) d)) im () im'"
      "holds_blocks im' L (B(it := put_bytes (B it) (unat (ino mod 3) * DINODE_SIZE) d))"
    using write_sector_run [OF H b(2), of "put_bytes (B it) (unat (ino mod 3) * DINODE_SIZE) d"]
      fbytes.length_put [OF i] holds_length [OF H b(2)] by auto
  have "runs (write_disk_inode ino d) im 0 im'"
    unfolding write_disk_inode_def Let_def
    by (rule runs_mbindI [OF get_sb_run [OF H L]], unfold b(1) [symmetric], rule runs_mbindI [OF read_sector_run [OF H b(2)]],
        rule runs_mthenI [OF w(1)]) (simp add: mrun)
  then show ?thesis using w(2) by (rule that)
qed


section \<open>What the tool writes\<close>

lemma length_root_entries: "length root_entries = 512"
  by (simp add: root_entries_def put_dirent_def put_bytes_def put32_def)

lemma length_dinode0: "length (i_addr ip) = 16 \<Longrightarrow> length (put_dinode (replicate DINODE_SIZE 0) 0 ip) = DINODE_SIZE"
  using dinode_rt [of 0 "replicate 168 0" ip] by simp

lemma length_put_sb: "length d = 512 \<Longrightarrow> length (put_superblock d sb) = 512"
  using put_superblock_get(2) [of d sb] by simp

text \<open>The blocks of a new image: superblock, inode map, block map, two blocks of inodes, root directory.\<close>

definition Z :: "u8 list" where
  "Z = replicate 512 0"

definition new_blocks :: "superblock \<Rightarrow> u64 \<Rightarrow> u64 \<Rightarrow> u64 \<Rightarrow> u64 \<Rightarrow> u8 list" where
  "new_blocks sb bm it fd = (\<lambda>_. Z)(2 := set_bit0 3 (set_bit0 2 (set_bit0 1 (set_bit0 0 Z))), bm := set_bit0 0 Z,
     it := put_bytes Z (2 * DINODE_SIZE) (put_dinode (replicate DINODE_SIZE 0) 0 (root_inode fd)),
     it + 1 := put_bytes Z 0 (put_dinode (replicate DINODE_SIZE 0) 0 cons_inode),
     fd := root_entries, 1 := put_superblock Z sb)"

lemma write_fs_image_run:
  assumes H: "holds_blocks im L (\<lambda>_. Z)" and L: "3072 \<le> L"
    and sb: "sb = layout sz nr_files (get_superblock Z)"
    and b: "bm = ucast (1 + 1 + s_imap_blocks sb)" "it = ucast (1 + 1 + s_imap_blocks sb + s_bmap_blocks sb)" "fd = ucast (s_firstdata_block sb)"
    and o: "on_img L bm" "on_img L it" "on_img L (it + 1)" "on_img L fd"
    and d: "distinct [1, 2, bm, it, it + 1, fd]" and n: "0 < unat (s_nblocks sb)"
  obtains im' where "runs (write_fs_image sz nr_files) im () im'" "holds_blocks im' L (new_blocks sb bm it fd)"
proof -
  have L1: "on_img L 1" "on_img L 2" "1024 \<le> L" using L by (simp_all add: on_img_def)
  let ?S = "put_superblock Z sb"
  have gS: "get_superblock ?S = sb" "length ?S = 512" using put_superblock_get [of Z sb] by (simp_all add: Z_def)
  obtain i1 where 1: "runs (write_sector 1 ?S) im () i1" "holds_blocks i1 L ((\<lambda>_. Z)(1 := ?S))"
    by (rule write_sector_run [OF H L1(1) gS(2)])
  have p: "runs (put_sb sb) im () i1"
    unfolding put_sb_def by (rule runs_mbindI [OF read_sector_run [OF H L1(1)]]) (rule 1(1))
  obtain i2 where 2: "runs (mark_inode_used 0) i1 () i2" "holds_blocks i2 L ((\<lambda>_. Z)(1 := ?S, 2 := set_bit0 0 Z))"
    using mark_inode_used_run [OF 1(2) L1(2), of 0] by auto
  obtain i3 where 3: "runs (mark_inode_used 1) i2 () i3" "holds_blocks i3 L ((\<lambda>_. Z)(1 := ?S, 2 := set_bit0 1 (set_bit0 0 Z)))"
    using mark_inode_used_run [OF 2(2) L1(2), of 1] by auto
  have isb: "runs (init_super_block sz nr_files) im () i3"
    unfolding init_super_block_def
    by (rule runs_mbindI [OF get_sb_run [OF H L1(3)]], unfold sb [symmetric], rule runs_mthenI [OF p runs_mthenI [OF 2(1) 3(1)]])
  obtain i4 where 4: "runs (mark_inode_used 2) i3 () i4" "holds_blocks i4 L ((\<lambda>_. Z)(1 := ?S, 2 := set_bit0 2 (set_bit0 1 (set_bit0 0 Z))))"
    using mark_inode_used_run [OF 3(2) L1(2), of 2] by auto
  define M where "M = set_bit0 3 (set_bit0 2 (set_bit0 1 (set_bit0 0 Z)))"
  obtain i5 where 5: "runs (mark_inode_used 3) i4 () i5" "holds_blocks i5 L ((\<lambda>_. Z)(1 := ?S, 2 := M))"
    using mark_inode_used_run [OF 4(2) L1(2), of 3] by (auto simp: M_def)
  have z: "get64 Z 0 AND 1 = 0" by (simp add: get64_def Z_def numeral_eq_Suc)
  obtain i6 where 6: "runs find_free_data_block_mkfs i5 (Some 0) i6" "holds_blocks i6 L ((\<lambda>_. Z)(1 := ?S, 2 := M, bm := set_bit0 0 Z))"
    by (rule find_free_run [OF 5(2) L1(3), of bm]) (use b o d n z gS in auto)
  let ?R = "put_dinode (replicate DINODE_SIZE 0) 0 (root_inode fd)" and ?C = "put_dinode (replicate DINODE_SIZE 0) 0 cons_inode"
  have l: "length ?R = 168" "length ?C = 168" by (simp_all add: length_dinode0 root_inode_def cons_inode_def inode0_def)
  obtain i7 where 7: "runs (write_disk_inode 2 ?R) i6 0 i7"
      "holds_blocks i7 L ((\<lambda>_. Z)(1 := ?S, 2 := M, bm := set_bit0 0 Z, it := put_bytes Z (2 * 168) ?R))"
    by (rule write_disk_inode_run [OF 6(2) L1(3), of it 2 ?R]) (use b o d gS l in auto)
  obtain i8 where 8: "runs (write_disk_inode 3 ?C) i7 0 i8"
      "holds_blocks i8 L ((\<lambda>_. Z)(1 := ?S, 2 := M, bm := set_bit0 0 Z, it := put_bytes Z (2 * 168) ?R, it + 1 := put_bytes Z 0 ?C))"
    by (rule write_disk_inode_run [OF 7(2) L1(3), of "it + 1" 3 ?C]) (use b o d gS l in auto)
  obtain i9 where 9: "runs (write_disk_data_block 0 root_entries) i8 0 i9"
      "holds_blocks i9 L ((\<lambda>_. Z)(1 := ?S, 2 := M, bm := set_bit0 0 Z, it := put_bytes Z (2 * 168) ?R, it + 1 := put_bytes Z 0 ?C, fd := root_entries))"
    by (rule write_disk_data_block_run [OF 8(2) L1(3), of fd root_entries]) (use b o d gS length_root_entries in auto)
  have g6: "runs get_sb i6 sb i6" using get_sb_run [OF 6(2) L1(3)] d gS by simp
  have wr: "runs write_root_dirent i3 () i9"
    unfolding write_root_dirent_def
    by (rule runs_mthenI [OF 4(1)], rule runs_mthenI [OF 5(1)], rule runs_mbindI [OF 6(1)], unfold option.case,
        rule runs_mbindI [OF g6], unfold b(3) [symmetric] add_0, rule runs_mthenI [OF 7(1) runs_mthenI [OF 8(1) runs_mthenI [OF 9(1)]]])
      (simp add: mrun)
  obtain i10 where 10: "runs (write_sector 1 ?S) i9 () i10" "holds_blocks i10 L (((\<lambda>_. Z)(1 := ?S, 2 := M, bm := set_bit0 0 Z,
      it := put_bytes Z (2 * 168) ?R, it + 1 := put_bytes Z 0 ?C, fd := root_entries))(1 := ?S))"
    by (rule write_sector_run [OF 9(2) L1(1) gS(2)])
  have g9: "runs get_sb i9 sb i9" using get_sb_run [OF 9(2) L1(3)] d gS by simp
  have "runs (write_fs_image sz nr_files) im () i10"
    unfolding write_fs_image_def
    by (rule runs_mthenI [OF isb runs_mthenI [OF wr]], rule runs_mbindI [OF g9]) (use 10(1) in \<open>simp add: Z_def\<close>)
  moreover have "holds_blocks i10 L (new_blocks sb bm it fd)"
    using 10(2) d unfolding new_blocks_def M_def by (simp add: fun_upd_twist)
  ultimately show ?thesis by (rule that)
qed


lemma ucast_small: "unat (ucast (w :: u32) :: u64) = unat w"
  using unsigned_less [of w, where 'a = nat] by (simp add: unsigned_ucast_eq take_bit_eq_mod)

lemma layout_blocks:
  assumes F: "fits_disk sz nr_files" and nr: "4 \<le> nr_files"
  defines "sb \<equiv> layout sz nr_files (get_superblock Z)"
  defines "bm \<equiv> ucast (1 + 1 + s_imap_blocks sb) :: u64" and "it \<equiv> ucast (1 + 1 + s_imap_blocks sb + s_bmap_blocks sb) :: u64"
    and "fd \<equiv> ucast (s_firstdata_block sb) :: u64"
  shows "2 < unat bm" "unat bm < unat it" "unat (it + 1) = unat it + 1" "unat it + 1 < unat fd" "unat fd < sz div 512" "0 < unat (s_nblocks sb)"
proof -
  let ?n = "unat nr_files"
  define im ib r where "im = (?n + 4095) div 4096" and "ib = (?n + 2) div 3" and "r = sz div 512 - 2 - im - ib"
  define d where "d = (r * 4096 - 4095) div 4097"
  note S = layout_sel(1-7) [OF F, of "get_superblock Z", folded sb_def im_def ib_def, folded r_def, folded d_def]
  have A: "?n < 2 ^ 32" "sz div 512 < 2 ^ 32" "2 + im + ib + 2 \<le> sz div 512" using F by (simp_all add: fits_disk_def Let_def im_def ib_def)
  have n4: "4 \<le> ?n" using nr by (simp add: word_le_nat_alt)
  then have i: "1 \<le> im" "2 \<le> ib" by (simp_all add: im_def ib_def)
  have "2 \<le> r" using A(3) by (simp add: r_def)
  note mb = map_blocks [OF this, folded d_def]
  have bp: "0 < (d + 4095) div 4096" using mb(1) by simp
  have e: "sz div 512 = r + 2 + im + ib" using A(3) by (simp add: r_def)
  have u: "unat bm = 2 + im" "unat it = 2 + im + (d + 4095) div 4096" "unat fd = 2 + im + ib + (d + 4095) div 4096"
    unfolding bm_def it_def fd_def ucast_small using S A(2) mb e by (simp_all add: unat_word_ariths)
  then show "2 < unat bm" "unat bm < unat it" using i bp by simp_all
  show t: "unat (it + 1) = unat it + 1" using u(2) A(2) mb e by (simp add: unat_word_ariths)
  show "unat it + 1 < unat fd" "unat fd < sz div 512" "0 < unat (s_nblocks sb)"
    using u i mb e S(5) by simp_all
qed

lemma mkfs_run:
  assumes F: "fits_disk sz nr_files" and nr: "4 \<le> nr_files"
  defines "sb \<equiv> layout sz nr_files (get_superblock Z)"
  defines "bm \<equiv> ucast (1 + 1 + s_imap_blocks sb) :: u64" and "it \<equiv> ucast (1 + 1 + s_imap_blocks sb + s_bmap_blocks sb) :: u64"
    and "fd \<equiv> ucast (s_firstdata_block sb) :: u64"
  shows "\<exists>im. mkfs_main sz nr_files [] = Ok (Some im) \<and> holds_blocks im sz (new_blocks sb bm it fd)"
proof -
  define L where "L = (sz + 4095) div 4096 * 4096"
  note B = layout_blocks [OF F nr, folded sb_def, folded bm_def it_def fd_def]
  have F5: "6 \<le> sz div 512" using B by simp
  then have "sz \<noteq> 0" by (cases "sz = 0") simp_all
  have Ls: "sz \<le> L" unfolding L_def by simp
  let ?im = "replicate L (0 :: u8)"
  have H: "holds_blocks ?im L (\<lambda>_. Z)" by (auto simp: holds_blocks_def on_img_def disk_blk_def get_bytes_def Z_def)
  have on: "on_img L n" if "unat n < sz div 512" for n
  proof -
    have "(unat n + 1) * 512 \<le> sz div 512 * 512" using that by (intro mult_le_mono1) simp
    also have "\<dots> \<le> sz" by simp
    finally show ?thesis using Ls by (simp add: on_img_def)
  qed
  have d: "distinct [1, 2, bm, it, it + 1, fd]" using B by (auto simp: word_unat_eq_iff)
  obtain im' where w: "runs (write_fs_image sz nr_files) ?im () im'" "holds_blocks im' L (new_blocks sb bm it fd)"
    by (rule write_fs_image_run [OF H _ sb_def [THEN meta_eq_to_obj_eq] bm_def [THEN meta_eq_to_obj_eq] it_def [THEN meta_eq_to_obj_eq]
        fd_def [THEN meta_eq_to_obj_eq] _ _ _ _ d B(6)])
      (use on B Ls F5 in \<open>auto\<close>)
  have "mkfs_main sz nr_files [] = Ok (Some (take sz im'))"
    using runsD [OF w(1)] \<open>sz \<noteq> 0\<close> by (simp add: mkfs_main_def map_file_def L_def)
  moreover have "holds_blocks (take sz im') sz (new_blocks sb bm it fd)"
  proof -
    have "disk_blk (take sz im') n = disk_blk im' n" if "on_img sz n" for n
      using that by (auto simp: disk_blk_def get_bytes_def on_img_def drop_take min_def)
    moreover have "on_img L n" if "on_img sz n" for n using that Ls by (simp add: on_img_def)
    ultimately show ?thesis using w(2) Ls by (simp add: holds_blocks_def)
  qed
  ultimately show ?thesis by blast
qed


text \<open>
  C18: The superblock \<^verbatim>\<open>mkfs\<close> writes describes areas that fit: the inode map has a bit and the inode
  blocks have a place for every inode, the block map has a bit for every data block, the areas follow each
  other without overlap, everything lies inside the image, there is at least one data block, and at most
  one block at the end is left unused.
\<close>

theorem mkfs_layout:
  assumes F: "fits_disk sz nr_files" and nr: "4 \<le> nr_files"
  shows "\<exists>im sb. mkfs_main sz nr_files [] = Ok (Some im) \<and> length im = sz \<and> get_superblock (disk_blk im 1) = sb \<and>
    s_magic sb = FS_MAGIC_NR \<and> unat (s_max_size sb) = sz div BSIZE \<and> unat (s_ninodes sb) = unat nr_files \<and>
    unat (s_ninodes sb) \<le> 4096 * unat (s_imap_blocks sb) \<and>
    unat (s_nblocks sb) \<le> 4096 * unat (s_bmap_blocks sb) \<and> 0 < unat (s_nblocks sb) \<and>
    2 + unat (s_imap_blocks sb) + unat (s_bmap_blocks sb) + (unat (s_ninodes sb) + 2) div 3 = unat (s_firstdata_block sb) \<and>
    unat (s_firstdata_block sb) + unat (s_nblocks sb) \<le> sz div BSIZE \<and>
    sz div BSIZE \<le> unat (s_firstdata_block sb) + unat (s_nblocks sb) + 1"
proof -
  define sb where "sb = layout sz nr_files (get_superblock Z)"
  obtain im bm it fd where im: "mkfs_main sz nr_files [] = Ok (Some im)" "holds_blocks im sz (new_blocks sb bm it fd)"
    using mkfs_run [OF F nr] unfolding sb_def by blast
  have "get_superblock (new_blocks sb bm it fd 1) = sb" using put_superblock_get(1) [of Z sb] by (simp add: new_blocks_def Z_def)
  moreover have "7 \<le> sz div 512" using layout_blocks [OF F nr] by simp
  then have "on_img sz 1" by (simp add: on_img_def less_eq_div_iff_mult_less_eq)
  ultimately have g: "get_superblock (disk_blk im 1) = sb" "length im = sz" using im(2) by (simp_all add: holds_blocks_def)
  define mp ib r where "mp = (unat nr_files + 4095) div 4096" and "ib = (unat nr_files + 2) div 3" and "r = sz div 512 - 2 - mp - ib"
  define d where "d = (r * 4096 - 4095) div 4097"
  note S = layout_sel(1-7) [OF F, of "get_superblock Z", folded sb_def mp_def ib_def, folded r_def, folded d_def]
  have A: "2 + mp + ib + 2 \<le> sz div 512" using F by (simp add: fits_disk_def Let_def mp_def ib_def)
  then have "2 \<le> r" and e: "sz div 512 = r + 2 + mp + ib" by (simp_all add: r_def)
  note mb = map_blocks [OF this(1), folded d_def]
  have "unat nr_files \<le> 4096 * mp" "d \<le> 4096 * ((d + 4095) div 4096)" by (simp_all add: mp_def)
  then show ?thesis using im(1) g S mb e unfolding ib_def by (intro exI [of _ im] exI [of _ sb]) simp
qed

theorem mkfs_layout_witness:
  "\<exists>im sb. mkfs_main 4194304 1024 [] = Ok (Some im) \<and> get_superblock (disk_blk im 1) = sb \<and> unat (s_max_size sb) = 8192 \<and>
    unat (s_firstdata_block sb) + unat (s_nblocks sb) \<le> 8192"
proof -
  have "fits_disk 4194304 1024" "(4 :: u64) \<le> 1024" by (simp_all add: fits_disk_def)
  from mkfs_layout [OF this] obtain im sb where "mkfs_main 4194304 1024 [] = Ok (Some im)" "get_superblock (disk_blk im 1) = sb"
    "unat (s_max_size sb) = 4194304 div 512" "unat (s_firstdata_block sb) + unat (s_nblocks sb) \<le> 4194304 div 512" by blast
  then show ?thesis by (intro exI [of _ im] exI [of _ sb]) simp
qed

end
