(* ===== verification/Kdir.thy ===== *)
theory Kdir
  imports Kpath "HOL-Library.Sublist"
begin

text \<open>
  Directories and paths at work (\<^verbatim>\<open>fs/inode.c\<close>): what a lookup in a directory finds, what locking an inode
  reads from the disk, and the walk along a path.
\<close>

section \<open>Names in directory entries\<close>

definition dir_entry :: "fsst \<Rightarrow> inode \<Rightarrow> nat \<Rightarrow> u8 list" where
  "dir_entry s i j = map (fbyte s i) [64 * j..<64 * j + 64]"

definition entry_name :: "u8 list \<Rightarrow> u8 list" where
  "entry_name de = takeWhile (\<lambda>c. c \<noteq> 0) (d_name de)"

lemma strncmp_prefix:
  assumes "0 \<notin> set name" "length name \<le> n"
  shows "strncmp (cstr name) (cstr d) n = 0 \<longleftrightarrow> prefix name (takeWhile (\<lambda>c. c \<noteq> 0) d)"
proof -
  have z: "cstr name k = 0 \<longleftrightarrow> length name \<le> k" for k using assms(1) by (auto simp: cstr_def in_set_conv_nth)
  have "strncmp (cstr name) (cstr d) n = 0 \<longleftrightarrow> (\<exists>k \<le> Suc n. (\<forall>j < k. cstr name j = cstr d j) \<and> (k = Suc n \<or> cstr name k = 0))"
    by (simp add: strncmp_def sint_0_iff strncmp_loop_0)
  also have "\<dots> \<longleftrightarrow> (\<forall>j < length name. cstr name j = cstr d j)" (is "?l \<longleftrightarrow> ?r")
  proof
    assume ?l
    then obtain k where "\<forall>j < k. cstr name j = cstr d j" "k = Suc n \<or> length name \<le> k" unfolding z by blast
    then show ?r using assms(2) by auto
  next
    assume ?r
    then show ?l using assms(2) unfolding z by (intro exI [of _ "length name"]) simp
  qed
  also have "\<dots> \<longleftrightarrow> (\<forall>j < length name. j < length d \<and> d ! j = name ! j)"
    using assms(1) by (auto simp: cstr_def in_set_conv_nth split: if_splits)
  also have "\<dots> \<longleftrightarrow> prefix name d" (is "?l \<longleftrightarrow> ?r")
  proof
    assume l: ?l
    then have "length name \<le> length d" by (metis leI less_irrefl)
    then have "take (length name) d = name" using l by (intro nth_equalityI) simp_all
    then show ?r by (metis take_is_prefix)
  next
    assume ?r
    then show ?l by (auto simp: prefix_def nth_append)
  qed
  also have "\<dots> \<longleftrightarrow> prefix name (takeWhile (\<lambda>c. c \<noteq> 0) d)" (is "?l \<longleftrightarrow> ?r")
  proof
    assume ?l
    moreover have "takeWhile (\<lambda>c. c \<noteq> 0) (name @ r) = name @ takeWhile (\<lambda>c. c \<noteq> 0) r" for r
      using assms(1) by (intro takeWhile_append2) auto
    ultimately show ?r by (auto simp: prefix_def)
  next
    assume ?r
    then show ?l by (rule prefix_order.trans) (metis prefixI takeWhile_dropWhile_id)
  qed
  finally show ?thesis .
qed


section \<open>Looking up a name\<close>

definition dir_ok :: "fsst \<Rightarrow> inode \<Rightarrow> bool" where
  "dir_ok s i = (i_dev i = ROOT_DEV \<and> i_mode i = FS_IMODE_DIR \<and> blocks_ok s i 0 (unat (i_size i)) \<and> 64 dvd unat (i_size i))"

text \<open>The entries a name matches: those in use whose name starts with it.\<close>

definition matches :: "fsst \<Rightarrow> inode \<Rightarrow> u8 list \<Rightarrow> nat \<Rightarrow> bool" where
  "matches s i name j = (d_ino (dir_entry s i j) \<noteq> 0 \<and> prefix name (entry_name (dir_entry s i j)))"

lemma dir_size: "dir_ok s i \<Longrightarrow> unat (i_size i) \<le> 6144"
  unfolding dir_ok_def using blocks_ok_size [of s i "unat (i_size i)"] by blast

lemma unat_entry: "64 * j \<le> 6144 \<Longrightarrow> unat (of_nat (64 * j) :: u64) = 64 * j"
  by (simp add: unat_of_nat del: of_nat_mult)

lemma read_entry:
  assumes R: "bc_room k s" and i: "inodes s dp = i" and D: "dir_ok s i" and j: "64 * j < unat (i_size i)"
  shows "\<exists>s'. runs (inode_read dp (of_nat (64 * j)) 64) s (64, dir_entry s i j) s' \<and> view s' = view s \<and> same_above s s' \<and> bc_room k s'"
proof -
  have B: "blocks_ok s i 0 (unat (i_size i))" and d: "64 dvd unat (i_size i)" using D by (simp_all add: dir_ok_def)
  have z: "unat (i_size i) \<le> 6144" by (rule dir_size [OF D])
  obtain n where n: "unat (i_size i) = 64 * n" using d by (elim dvdE)
  have u: "unat (of_nat (64 * j) :: u64) = 64 * j" using j z by (intro unat_entry) simp
  have m: "min (unat (64 :: u64)) (unat (i_size i) - unat (of_nat (64 * j) :: u64)) = 64" using j n unfolding u by simp
  have o: "of_nat (64 * j) \<le> i_size i" using j unfolding word_le_nat_alt u by simp
  from inode_read_ok [OF R i [symmetric] _ _ B o, of 64] D j z show ?thesis
    unfolding m unfolding u dir_entry_def by (simp add: dir_ok_def)
qed

lemma view_entries:
  assumes "view s1 = view s"
  shows "dir_entry s1 i = dir_entry s i" "matches s1 i = matches s i"
proof -
  have "fbyte s1 i = fbyte s i" using assms by (simp add: fbyte_def fun_eq_iff)
  then show "dir_entry s1 i = dir_entry s i" by (simp add: dir_entry_def fun_eq_iff)
  then show "matches s1 i = matches s i" by (simp add: matches_def fun_eq_iff)
qed

lemma dirlookup_loop_ok:
  assumes "bc_room k s" "inodes s dp = i" "dir_ok s i" "unat (i_size i) = 64 * n" "j \<le> n" "0 \<notin> set name" "length name \<le> FNAME_MAX"
  shows "case find (matches s i name) [j..<n] of
      None \<Rightarrow> \<exists>s'. runs (dirlookup_loop dp name (of_nat (64 * j))) s None s' \<and> view s' = view s \<and> same_above s s' \<and> bc_room k s'
    | Some m \<Rightarrow> \<exists>s1. view s1 = view s \<and> same_above s s1 \<and> bc_room k s1 \<and>
        (\<forall>ip s2. runs (inode_get ROOT_DEV (d_ino (dir_entry s i m))) s1 ip s2 \<longrightarrow>
           runs (dirlookup_loop dp name (of_nat (64 * j))) s (Some (ip, of_nat (64 * m))) s2)"
  using assms
proof (induction "n - j" arbitrary: j s)
  case 0
  let ?o = "of_nat (64 * j) :: u64"
  have "j = n" using 0 by simp
  have "unat ?o = 64 * j" using dir_size [OF 0(4)] 0 by (intro unat_entry) simp
  then have "\<not> ?o < i_size i" unfolding word_less_nat_alt using 0 \<open>j = n\<close> by simp
  then have "runs (dirlookup_loop dp name ?o) s None s"
    unfolding dirlookup_loop.simps [of dp name ?o] using 0 by (simp add: mrun)
  then show ?case using 0 \<open>j = n\<close> by (auto intro!: exI [of _ s])
next
  case (Suc x)
  let ?o = "of_nat (64 * j) :: u64" and ?e = "dir_entry s i j"
  have jn: "j < n" using Suc by simp
  have z: "unat (i_size i) \<le> 6144" by (rule dir_size [OF Suc.prems(3)])
  have u: "unat ?o = 64 * j" using jn z Suc.prems(4) by (intro unat_entry) simp
  have lt: "?o < i_size i" unfolding word_less_nat_alt u using jn Suc.prems(4) by simp
  obtain s1 where s1: "runs (inode_read dp ?o 64) s (64, ?e) s1" "view s1 = view s" "same_above s s1" "bc_room k s1"
    using read_entry [OF Suc.prems(1-3), of j] jn Suc.prems(4) by auto
  have M: "strncmp (cstr name) (cstr (d_name ?e)) FNAME_MAX = 0 \<longleftrightarrow> prefix name (entry_name ?e)"
    unfolding entry_name_def by (rule strncmp_prefix [OF Suc.prems(6,7)])
  have i1: "inodes s1 dp = i" using s1(3) Suc.prems(2) by (simp add: same_above_def)
  have start: "runs (dirlookup_loop dp name ?o) s r s2"
    if "runs (if matches s i name j then mbind (get_inode dp) (\<lambda>d. mbind (inode_get (i_dev d) (d_ino ?e)) (\<lambda>ip. mret (Some (ip, ?o))))
        else dirlookup_loop dp name (?o + 64)) s1 r s2" for r s2
    unfolding dirlookup_loop.simps [of dp name ?o] get_inode_def
    by (rule runs_mgetI, subst if_not_P, use lt Suc.prems(2) in simp, rule runs_mbindI [OF s1(1)], unfold prod.case, rule runs_mthenI [where s' = s1])
      (use that z u jn Suc.prems(4) M in \<open>auto simp: mrun matches_def get_inode_def\<close>)
  note f = view_entries [OF s1(2), of i]
  have uj: "[j..<n] = j # [Suc j..<n]" using jn by (rule upt_conv_Cons)
  have o': "?o + 64 = of_nat (64 * Suc j)" by simp
  show ?case
  proof (cases "matches s i name j")
    case True
    have t: "runs (dirlookup_loop dp name ?o) s (Some (ip, ?o)) s2" if "runs (inode_get ROOT_DEV (d_ino ?e)) s1 ip s2" for ip s2
      by (rule start, simp only: True if_True get_inode_def, rule runs_mgetI)
        (use that i1 Suc.prems(3) in \<open>auto simp: mrun dir_ok_def\<close>)
    have fj: "find (matches s i name) (j # [Suc j..<n]) = Some j" using True by simp
    show ?thesis unfolding uj fj option.case
      by (intro exI [of _ s1] conjI allI impI s1(2-4)) (rule t)
  next
    case False
    have D1: "dir_ok s1 i" using Suc.prems(3) unfolding dir_ok_def blocks_ok_cong [OF same_above_inode(2) [OF s1(3)]] .
    have c: "runs (dirlookup_loop dp name ?o) s r s2" if "runs (dirlookup_loop dp name (of_nat (64 * Suc j))) s1 r s2" for r s2
      by (rule start) (use that in \<open>unfold if_not_P [OF False] o'\<close>)
    have IH: "case find (matches s i name) [Suc j..<n] of
      None \<Rightarrow> \<exists>s'. runs (dirlookup_loop dp name (of_nat (64 * Suc j))) s1 None s' \<and> view s' = view s1 \<and> same_above s1 s' \<and> bc_room k s'
    | Some m \<Rightarrow> \<exists>s2. view s2 = view s1 \<and> same_above s1 s2 \<and> bc_room k s2 \<and>
        (\<forall>ip s3. runs (inode_get ROOT_DEV (d_ino (dir_entry s i m))) s2 ip s3 \<longrightarrow>
           runs (dirlookup_loop dp name (of_nat (64 * Suc j))) s1 (Some (ip, of_nat (64 * m))) s3)"
      by (rule Suc.hyps(1) [of "Suc j" s1, OF _ s1(4) i1 D1 Suc.prems(4) _ Suc.prems(6,7), unfolded f]) (use Suc.hyps(2) jn in simp_all)
    have fj: "find (matches s i name) (j # [Suc j..<n]) = find (matches s i name) [Suc j..<n]" using False by simp
    show ?thesis
    proof (cases "find (matches s i name) [Suc j..<n]")
      case None
      from IH obtain s' where s': "runs (dirlookup_loop dp name (of_nat (64 * Suc j))) s1 None s'" "view s' = view s1" "same_above s1 s'" "bc_room k s'"
        unfolding None option.case by blast
      show ?thesis unfolding uj fj None option.case
        using c [OF s'(1)] s'(2,4) s1(2) same_above_trans [OF s1(3) s'(3)] by (intro exI [of _ s']) simp
    next
      case (Some m)
      from IH obtain s2 where s2: "view s2 = view s1" "same_above s1 s2" "bc_room k s2"
        "\<And>ip s3. runs (inode_get ROOT_DEV (d_ino (dir_entry s i m))) s2 ip s3 \<Longrightarrow>
           runs (dirlookup_loop dp name (of_nat (64 * Suc j))) s1 (Some (ip, of_nat (64 * m))) s3"
        unfolding Some option.case by blast
      show ?thesis unfolding uj fj Some option.case
        using s2(1,3) s1(2) same_above_trans [OF s1(3) s2(2)] c [OF s2(4)] by (intro exI [of _ s2]) simp
    qed
  qed
qed


lemma icache_above: "same_above s s' \<Longrightarrow> icache_inv s' = icache_inv s"
  by (simp add: icache_inv_def same_above_def names_def)

text \<open>Getting an inode changes the slot of the inode in the cache only.\<close>

lemma inode_get_run:
  assumes "runs (inode_get dev num) s ip s'"
  shows "MIc \<notin> held s" "\<exists>i. s' = s\<lparr>inodes := (inodes s)(ip := i)\<rparr> \<and>
    (i = (inodes s ip)\<lparr>iref := iref (inodes s ip) + 1\<rparr> \<and> names s ip dev num \<or>
     i = (inodes s ip)\<lparr>i_dev := dev, inum := num, iref := 1, iflags := 0\<rparr> \<and> iref (inodes s ip) = 0)"
proof -
  show h: "MIc \<notin> held s" using assms by (auto simp: inode_get_def mrun)
  show "\<exists>i. s' = s\<lparr>inodes := (inodes s)(ip := i)\<rparr> \<and>
    (i = (inodes s ip)\<lparr>iref := iref (inodes s ip) + 1\<rparr> \<and> names s ip dev num \<or>
     i = (inodes s ip)\<lparr>i_dev := dev, inum := num, iref := 1, iflags := 0\<rparr> \<and> iref (inodes s ip) = 0)"
    using assms unfolding runs_def inode_get_eq [OF h]
    by (auto split: option.splits dest!: find_SomeD)
qed

lemma inode_get_view: "runs (inode_get dev num) s ip s' \<Longrightarrow> view s' = view s"
  using inode_get_run(2) [of dev num s ip s'] by (auto simp: view_inodes)

text \<open>
  C17: \<^verbatim>\<open>inode_dirlookup\<close> searches a directory from its start.  It returns the inode of the first entry
  in use whose name starts with the name looked for, with a new reference, and the place of the entry; it
  returns nothing when there is no such entry.  The disk is not changed.  (Because of \<^verbatim>\<open>strncmp\<close>
  an entry whose name is longer is found too.)
\<close>

theorem dirlookup_correct:
  assumes R: "bc_room k s" and I: "icache_inv s" and D: "dir_ok s (inodes s dp)" and N: "0 \<notin> set name" "length name \<le> FNAME_MAX"
    and F: "\<exists>a < NINODE. iref (inodes s a) = 0"
  shows "\<exists>s'. view s' = view s \<and> icache_inv s' \<and>
    (case find (matches s (inodes s dp) name) [0..<unat (i_size (inodes s dp)) div DIRENT_SIZE] of
       None \<Rightarrow> inode_dirlookup dp name s = Ok (None, s') \<and> inodes s' = inodes s
     | Some m \<Rightarrow> \<exists>ip. inode_dirlookup dp name s = Ok (Some (ip, of_nat (DIRENT_SIZE * m)), s') \<and> ip < NINODE \<and>
         names s' ip ROOT_DEV (d_ino (dir_entry s (inodes s dp) m)) \<and> iref (inodes s' ip) = iref (inodes s ip) + 1 \<and>
         (\<forall>a. a \<noteq> ip \<longrightarrow> inodes s' a = inodes s a))"
proof -
  let ?i = "inodes s dp" and ?n = "unat (i_size (inodes s dp)) div 64"
  have n: "unat (i_size ?i) = 64 * ?n" using D by (simp add: dir_ok_def)
  have z: "of_nat (64 * 0) = (0 :: u64)" by simp
  note L = dirlookup_loop_ok [OF R refl D n le0 N, unfolded z]
  have d: "inode_dirlookup dp name s = Ok (r, s')" if "runs (dirlookup_loop dp name 0) s r s'" for r s'
    using that D by (intro runsD) (simp add: inode_dirlookup_def mrun dir_ok_def)
  show ?thesis
  proof (cases "find (matches s ?i name) [0..<?n]")
    case None
    from L obtain s' where "runs (dirlookup_loop dp name 0) s None s'" "view s' = view s" "same_above s s'"
      unfolding None option.case by blast
    moreover have "icache_inv s'" using icache_above [OF \<open>same_above s s'\<close>] I by simp
    ultimately show ?thesis unfolding None option.case using d same_above_inode(1) by blast
  next
    case (Some m)
    from L obtain s1 where s1: "view s1 = view s" "same_above s s1" "\<And>ip s2. runs (inode_get ROOT_DEV (d_ino (dir_entry s ?i m))) s1 ip s2 \<Longrightarrow>
           runs (dirlookup_loop dp name 0) s (Some (ip, of_nat (64 * m))) s2"
      unfolding Some option.case by blast
    have e: "inodes s1 = inodes s" by (rule same_above_inode(1) [OF s1(2)])
    have I1: "icache_inv s1" using icache_above [OF s1(2)] I by simp
    have "\<exists>a < NINODE. names s1 a ROOT_DEV (d_ino (dir_entry s ?i m)) \<or> iref (inodes s1 a) = 0" using F unfolding e by blast
    with inode_get_ok [OF I1, of ROOT_DEV "d_ino (dir_entry s ?i m)"] obtain ip s2 where
      g: "inode_get ROOT_DEV (d_ino (dir_entry s ?i m)) s1 = Ok (ip, s2)" "ip < NINODE" "icache_inv s2"
        "names s2 ip ROOT_DEV (d_ino (dir_entry s ?i m))" "iref (inodes s2 ip) = iref (inodes s ip) + 1" "\<forall>a. a \<noteq> ip \<longrightarrow> inodes s2 a = inodes s a"
      unfolding e by auto
    have "view s2 = view s" using inode_get_view [of ROOT_DEV "d_ino (dir_entry s ?i m)" s1 ip s2] g(1) s1(1) by (simp add: runs_def)
    then show ?thesis unfolding Some option.case using d [OF s1(3)] g by (auto simp: runs_def)
  qed
qed


theorem dirlookup_correct_witness:
  "\<exists>s ip s'. bc_room 1023 s \<and> inode_dirlookup 0 [7, 7] s = Ok (Some (ip, 0), s') \<and> iref (inodes s' ip) = iref (inodes s ip) + 1"
proof -
  obtain s where s: "bc_room 1023 s" "img s = replicate 1536 7" "view s = disk_blk (replicate 1536 7)" "held s = {}"
    using disk_init_ok [of "replicate 1536 7" p0] by auto
  let ?i = "demo_inode\<lparr>i_mode := 1, i_size := 512\<rparr>"
  let ?s = "s\<lparr>inodes := \<lambda>_. ?i\<rparr>"
  have b: "bc_room 1023 ?s" using s(1) by (simp add: bc_room_inodes)
  have c: "icache_inv ?s" using s(4) by (simp add: icache_inv_def names_def demo_inode_def inode0_def)
  have "in_img ?s 1" by (simp add: in_img_def s(2))
  then have d: "dir_ok ?s (inodes ?s 0)" by (auto simp: dir_ok_def blocks_ok_def demo_inode_def)
  have v: "fbyte ?s ?i k = 7" if "k < 512" for k
    using that by (simp add: fbyte_def view_inodes s(3) demo_inode_def disk_blk_def get_bytes_def)
  have "dir_entry ?s ?i 0 = replicate 64 7" unfolding dir_entry_def by (rule nth_equalityI) (simp_all add: v)
  moreover have "replicate 4 (7 :: u8) = [7, 7, 7, 7]" by (simp add: numeral_eq_Suc)
  moreover have "takeWhile (\<lambda>c. c \<noteq> 0) (replicate 60 (7 :: u8)) = [7, 7] @ replicate 58 7"
  proof -
    have "replicate 2 (7 :: u8) = [7, 7]" by (simp add: numeral_2_eq_2)
    then show ?thesis using replicate_add [of 2 58 "7 :: u8"] by simp
  qed
  ultimately have "matches ?s ?i [7, 7] 0"
    by (simp add: matches_def d_ino_def entry_name_def d_name_def get_bytes_def get32_def)
  then have f: "find (matches ?s (inodes ?s 0) [7, 7]) [0..<unat (i_size (inodes ?s 0)) div 64] = Some 0"
    using upt_conv_Cons [of 0 "unat (i_size (inodes ?s 0)) div 64"] by simp
  have z: "\<exists>a < NINODE. iref (inodes ?s a) = 0" by (rule exI [of _ 0]) (simp add: demo_inode_def inode0_def)
  show ?thesis using dirlookup_correct [OF b c d _ _ z, of "[7, 7]"] unfolding f using b by auto
qed

section \<open>Locking an inode\<close>

lemma cache_inodes [simp]:
  "bc_inv (s\<lparr>inodes := f\<rparr>) = bc_inv s" "lent (s\<lparr>inodes := f\<rparr>) = lent s" "clean (s\<lparr>inodes := f\<rparr>) = clean s"
  "dirty (s\<lparr>inodes := f\<rparr>) b = dirty s b" "in_img (s\<lparr>inodes := f\<rparr>) = in_img s"
  by (simp_all add: bc_inv_def bufs_ok_def disk_ready_def lent_def clean_def busy_def dirty_def holds_blk_def in_img_def fun_eq_iff)

text \<open>Reading a block, with a change of the inode cache before the buffer is given back.\<close>

lemma peek_upd:
  assumes R: "bc_room k s" and n: "in_img s n"
  obtains b s1 s2 where "runs (buffer_cache_blk_read ROOT_DEV n) s b s1" "b_data (bufs s1 b) = view s n" "inodes s1 = inodes s"
    "runs (buffer_cache_blk_release b) (s1\<lparr>inodes := f\<rparr>) () s2" "bc_room k s2" "view s2 = view s" "same_above (s\<lparr>inodes := f\<rparr>) s2"
proof -
  have I: "bc_inv s" "lent s = {}" "clean s \<noteq> {}" using R by (auto simp: bc_room_def)
  obtain b s1 where 1: "runs (buffer_cache_blk_read ROOT_DEV n) s b s1" "bc_inv s1" "same_above s s1" "lent s1 = {b}"
      "b_data (bufs s1 b) = view s n" "view s1 = view s" "clean s1 = clean s - {b}" "(b \<in> clean s) = (\<not> dirty s1 b)"
    by (rule blk_read_idle [OF I n])
  have "bc_inv (s1\<lparr>inodes := f\<rparr>)" "b \<in> lent (s1\<lparr>inodes := f\<rparr>)" using 1(2,4) by simp_all
  from blk_release_ok [OF this] obtain s2 where 2: "runs (buffer_cache_blk_release b) (s1\<lparr>inodes := f\<rparr>) () s2" "bc_inv s2"
      "same_above (s1\<lparr>inodes := f\<rparr>) s2" "lent s2 = {}" "clean s2 = (if dirty s1 b then clean s1 else insert b (clean s1))" "view s2 = view s1"
    using 1(4) by (auto simp: view_inodes)
  have "clean s2 = clean s" using 1(7,8) 2(5) by auto
  then have "bc_room k s2" using R 2 by (simp add: bc_room_def)
  moreover have "view s2 = view s" using 1(6) 2(6) by simp
  moreover have "same_above (s\<lparr>inodes := f\<rparr>) s2" using 1(3) 2(3) by (simp add: same_above_def)
  moreover have "inodes s1 = inodes s" by (rule same_above_inode(1) [OF 1(3)])
  ultimately show ?thesis using that 1(1,5) 2(1) by blast
qed

lemma read_superblock_ok:
  assumes R: "bc_room k s" and n: "in_img s 1"
  obtains s' where "runs (read_superblock ROOT_DEV) s (get_superblock (view s 1)) s'" "bc_room k s'" "view s' = view s" "same_above s s'"
proof -
  obtain b s1 s2 where p: "runs (buffer_cache_blk_read ROOT_DEV 1) s b s1" "b_data (bufs s1 b) = view s 1"
    "runs (buffer_cache_blk_release b) s1 () s2" "bc_room k s2" "view s2 = view s" "same_above s s2" by (rule peek_steps [OF R n])
  have "runs (read_superblock ROOT_DEV) s (get_superblock (view s 1)) s2"
    unfolding read_superblock_def get_buf_def
    by (rule runs_mbindI [OF p(1)], rule runs_mgetI, rule runs_mthenI [OF p(3)]) (simp add: p(2) runs_mret)
  then show ?thesis using p(4-6) by (rule that)
qed

definition inode_blk :: "fsst \<Rightarrow> u32 \<Rightarrow> u64" where
  "inode_blk s num = (let sb = get_superblock (view s 1) in ucast (1 + 1 + s_imap_blocks sb + s_bmap_blocks sb) + ucast (num div 3))"

definition disk_inode :: "fsst \<Rightarrow> inode \<Rightarrow> inode" where
  "disk_inode s i = load_dinode (view s (inode_blk s (inum i))) (unat (inum i mod 3) * DINODE_SIZE) i"

lemma bc_room_held: "bc_room k (s\<lparr>held := h\<rparr>) = bc_room k s" if "MBc \<in> h \<longleftrightarrow> MBc \<in> held s" "MDsw \<in> h \<longleftrightarrow> MDsw \<in> held s" "MDrv 1 \<in> h \<longleftrightarrow> MDrv 1 \<in> held s"
  using that by (simp add: bc_room_def bc_inv_def bufs_ok_def disk_ready_def lent_def clean_def busy_def dirty_def holds_blk_def)

lemma view_held: "view (s\<lparr>held := h\<rparr>) = view s"
  by (auto simp: view_def dirty_def holds_blk_def fun_eq_iff split: option.split)

lemma inode_lock_ok:
  assumes R: "bc_room k s" and h: "MIc \<notin> held s" and i: "i = inodes s ip" "0 < iref i" "iflags i = 0" "i_dev i = ROOT_DEV"
    and n: "in_img s 1" "in_img s (inode_blk s (inum i))"
  shows "\<exists>s'. runs (inode_lock ip) s () s' \<and> bc_room k s' \<and> view s' = view s \<and>
    same_above (s\<lparr>inodes := (inodes s)(ip := (disk_inode s i)\<lparr>iflags := 3\<rparr>)\<rparr>) s'"
proof -
  define s1 where "s1 = s\<lparr>held := insert MIc (held s), inodes := (inodes s)(ip := i\<lparr>iflags := 1\<rparr>)\<rparr>"
  have v1: "view s1 = view s" "in_img s1 = in_img s" by (simp_all add: s1_def view_inodes view_held in_img_def fun_eq_iff)
  have R1: "bc_room k s1" using R bc_room_held [of "insert MIc (held s)" s k] by (simp add: s1_def bc_room_inodes)
  obtain s2 where 2: "runs (read_superblock 1) s1 (get_superblock (view s 1)) s2" "bc_room k s2" "view s2 = view s" "same_above s1 s2"
    using read_superblock_ok [OF R1] n(1) v1 by metis
  have v2: "in_img s2 = in_img s" using same_above_inode(2) [OF 2(4)] v1 by simp
  obtain s3 where 3: "runs (read_superblock 1) s2 (get_superblock (view s 1)) s3" "bc_room k s3" "view s3 = view s" "same_above s2 s3"
    using read_superblock_ok [OF 2(2)] n(1) v2 2(3) by metis
  have v3: "in_img s3 = in_img s" using same_above_inode(2) [OF 3(4)] v2 by simp
  have e3: "inodes s3 ip = i\<lparr>iflags := 1\<rparr>" using same_above_inode(1) [OF 3(4)] same_above_inode(1) [OF 2(4)] by (simp add: s1_def)
  let ?b = "inode_blk s (inum i)" and ?l = "load_dinode (view s (inode_blk s (inum i))) (unat (inum i mod 3) * DINODE_SIZE)"
  let ?f = "(inodes s3)(ip := ?l (inodes s3 ip))"
  obtain b s4 s5 where 4: "runs (buffer_cache_blk_read ROOT_DEV ?b) s3 b s4" "b_data (bufs s4 b) = view s ?b" "inodes s4 = inodes s3"
    "runs (buffer_cache_blk_release b) (s4\<lparr>inodes := ?f\<rparr>) () s5" "bc_room k s5" "view s5 = view s" "same_above (s3\<lparr>inodes := ?f\<rparr>) s5"
    using peek_upd [OF 3(2), of ?b ?f] n(2) v3 3(3) by auto
  have e5: "inodes s5 = ?f" "held s5 = insert MIc (held s)"
    using 4(7) 3(4) 2(4) by (auto simp: same_above_def s1_def)
  define t where "t = s5\<lparr>inodes := (inodes s5)(ip := (inodes s5 ip)\<lparr>iflags := iflags (inodes s5 ip) OR 2\<rparr>)\<rparr>"
  define s6 where "s6 = s5\<lparr>held := held s5 - {MIc}, inodes := (inodes s5)(ip := (inodes s5 ip)\<lparr>iflags := iflags (inodes s5 ip) OR 2\<rparr>)\<rparr>"
  have rd: "runs (read_disk_inode 1 (inum i)) s2 (unat (inum i mod 3) * DINODE_SIZE, b) s4"
    unfolding read_disk_inode_def
    by (rule runs_mbindI [OF 3(1)]) (use 4(1) in \<open>auto simp: mrun inode_blk_def Let_def\<close>)
  have v0: "iflags i AND 2 = 0" using i(3) by simp
  have load: "runs (mbind (read_superblock (i_dev i)) (\<lambda>sb. mbind (read_disk_inode (i_dev i) (inum i)) (\<lambda>(dip, bp).
      mbind (get_buf bp) (\<lambda>b. mthen (upd_inode ip (load_dinode (b_data b) dip)) (mthen (buffer_cache_blk_release bp)
      (upd_inode ip (\<lambda>i. i\<lparr>iflags := iflags i OR I_VALID\<rparr>))))))) s1 () t"
    unfolding i(4) get_buf_def
    by (rule runs_mbindI [OF 2(1)], rule runs_mbindI [OF rd], unfold prod.case, rule runs_mgetI,
        rule runs_mthenI [where s' = "s4\<lparr>inodes := ?f\<rparr>"], use 4(2,3) in \<open>simp add: mrun\<close>, rule runs_mthenI [OF 4(4)])
      (simp add: mrun t_def)
  have "runs (inode_lock ip) s () s6"
    unfolding inode_lock_def get_inode_def
    by (rule runs_mgetI, unfold i(1) [symmetric], rule runs_mthenI [where s' = s], use i(2) in \<open>simp add: mrun\<close>,
        rule runs_mthenI [where s' = "s\<lparr>held := insert MIc (held s)\<rparr>"], use h in \<open>simp add: mrun\<close>,
        subst if_not_P, use i(3) in simp, rule runs_mthenI [where s' = s1], use i(1,3) in \<open>simp add: mrun s1_def\<close>,
        rule runs_mthenI [where s' = t], unfold runs_mwhen if_P [OF v0], rule load)
      (use e5(2) in \<open>simp add: mrun t_def s6_def\<close>)
  moreover have "bc_room k s6" "view s6 = view s"
    using 4(5,6) e5(2) h bc_room_held [of "held s5 - {MIc}" "s5"] by (simp_all add: s6_def bc_room_inodes view_inodes view_held)
  moreover have "same_above (s\<lparr>inodes := (inodes s)(ip := (disk_inode s i)\<lparr>iflags := 3\<rparr>)\<rparr>) s6"
    using 2(4) 3(4) 4(7) h by (auto simp: same_above_def s6_def s1_def disk_inode_def load_dinode_def)
  ultimately show ?thesis by blast
qed


section \<open>A path of one element\<close>

lemma unlock_run:
  assumes "MIc \<notin> held s" "iflags (inodes s ip) = 3"
  shows "runs (inode_unlock ip) s () (s\<lparr>inodes := (inodes s)(ip := (inodes s ip)\<lparr>iflags := 2\<rparr>), wqs := (wqs s)(WqInode ip := [])\<rparr>)"
proof -
  have "held s - {MIc} = held s" using assms(1) by simp
  then show ?thesis using assms by (simp add: inode_unlock_def mrun)
qed

lemma put_run:
  assumes "MIc \<notin> held s" "i_nlink (inodes s ip) \<noteq> 0"
  shows "runs (inode_put ip) s () (s\<lparr>inodes := (inodes s)(ip := (inodes s ip)\<lparr>iref := iref (inodes s ip) - 1\<rparr>)\<rparr>)"
proof -
  have "held s - {MIc} = held s" using assms(1) by simp
  then show ?thesis using assms by (simp add: inode_put_def mrun)
qed

lemma cache_wqs [simp]: "bc_room k (s\<lparr>wqs := w\<rparr>) = bc_room k s" "view (s\<lparr>wqs := w\<rparr>) = view s"
  by (auto simp: bc_room_def bc_inv_def bufs_ok_def disk_ready_def lent_def clean_def busy_def dirty_def holds_blk_def view_def fun_eq_iff split: option.split)

lemma skip_one: "47 \<notin> set name \<Longrightarrow> name \<noteq> [] \<Longrightarrow> length name \<le> FNAME_MAX \<Longrightarrow> skip_element (47 # name) = Some (name, [])"
proof -
  assume n: "47 \<notin> set name" "name \<noteq> []" "length name \<le> 59"
  have t: "takeWhile (\<lambda>c. c \<noteq> 47) name = name" and d: "dropWhile (\<lambda>c. c \<noteq> 47) name = []"
    unfolding takeWhile_eq_all_conv dropWhile_eq_Nil_conv using n(1) by blast+
  have e: "dropWhile (\<lambda>c. c = 47) (47 # name) = name" using n(1,2) by (cases name) auto
  show ?thesis unfolding skip_element_def Let_def e t d using n(2,3) by simp
qed

lemma skip_end: "skip_element [] = None"
  by (simp add: skip_element_def)

definition root_on_disk :: "fsst \<Rightarrow> inode" where
  "root_on_disk s = disk_inode s (inode0\<lparr>i_dev := ROOT_DEV, inum := ROOT_DENT_INO\<rparr>)"

text \<open>The last element of a path, found in the directory \<open>rp\<close>.\<close>

lemma walk_end:
  assumes l: "runs (inode_lock rp) s1 () s2" "inodes s2 rp = r" "i_mode r = FS_IMODE_DIR" and d: "runs (inode_dirlookup rp name) s2 (Some (ip, off)) s4"
    and h: "MIc \<notin> held s4" "inodes s4 rp = r" "iflags r = 3" "i_nlink r \<noteq> 0" and N: "47 \<notin> set name" "name \<noteq> []" "length name \<le> FNAME_MAX"
  shows "runs (path_walk False 60 rp (47 # name)) s1 (Some (ip, []))
    (s4\<lparr>wqs := (wqs s4)(WqInode rp := []), inodes := (inodes s4)(rp := r\<lparr>iflags := 2, iref := iref r - 1\<rparr>)\<rparr>)"
proof -
  define s5 where "s5 = s4\<lparr>inodes := (inodes s4)(rp := r\<lparr>iflags := 2\<rparr>), wqs := (wqs s4)(WqInode rp := [])\<rparr>"
  let ?s = "s4\<lparr>wqs := (wqs s4)(WqInode rp := []), inodes := (inodes s4)(rp := r\<lparr>iflags := 2, iref := iref r - 1\<rparr>)\<rparr>"
  have u: "runs (inode_unlock rp) s4 () s5" using unlock_run [of s4 rp] h by (simp add: s5_def)
  have p: "runs (inode_put rp) s5 () ?s" using put_run [of s5 rp] h by (simp add: s5_def)
  show ?thesis
    unfolding path_walk.simps [of False 60 rp "47 # name"] skip_one [OF N] option.case prod.case get_inode_def
    by (rule runs_mthenI [where s' = s1], use N(3) in \<open>simp add: mrun\<close>, rule runs_mthenI [OF l(1)], rule runs_mgetI, unfold l(2),
        subst if_not_P, use l(3) in simp, subst if_not_P, simp, rule runs_mbindI [OF d], unfold option.case prod.case,
        rule runs_mthenI [OF u], rule runs_mthenI [OF p]) (simp add: path_walk.simps [of False 60 ip "[]"] skip_end mrun)
qed

text \<open>An inode that is in no slot gets a free one.\<close>

lemma get_fresh:
  assumes h: "MIc \<notin> held s" and no: "\<And>a. a < NINODE \<Longrightarrow> \<not> names s a dev num" and f: "a < NINODE" "iref (inodes s a) = 0"
  obtains ip where "ip < NINODE" "iref (inodes s ip) = 0"
    "runs (inode_get dev num) s ip (s\<lparr>inodes := (inodes s)(ip := (inodes s ip)\<lparr>i_dev := dev, inum := num, iref := 1, iflags := 0\<rparr>)\<rparr>)"
proof -
  have n: "find (\<lambda>a. names s a dev num) [0..<NINODE] = None" using no by (simp add: find_None_iff)
  have "find (\<lambda>a. iref (inodes s a) = 0) [0..<NINODE] \<noteq> None" using f by (auto simp: find_None_iff)
  then obtain ip where ip: "find (\<lambda>a. iref (inodes s a) = 0) [0..<NINODE] = Some ip" by auto
  show ?thesis using that [of ip] find_SomeD [OF ip] unfolding runs_def inode_get_eq [OF h] n ip option.case by simp
qed

text \<open>Taking and locking the root directory, when no inode is in use.\<close>

lemma root_locked:
  assumes R: "bc_room k s" and h: "MIc \<notin> held s" and fresh: "\<forall>a < NINODE. iref (inodes s a) = 0"
    and n: "in_img s 1" "in_img s (inode_blk s ROOT_DENT_INO)"
  obtains rp r s1 s2 where "runs (inode_get ROOT_DEV ROOT_DENT_INO) s rp s1" "rp < NINODE" "runs (inode_lock rp) s1 () s2" "bc_room k s2"
    "view s2 = view s" "same_above (s\<lparr>inodes := (inodes s)(rp := r)\<rparr>) s2" "i_dev r = 1" "inum r = 2" "iref r = 1" "iflags r = 3"
    "i_mode r = i_mode (root_on_disk s)" "i_nlink r = i_nlink (root_on_disk s)" "i_size r = i_size (root_on_disk s)" "i_addr r = i_addr (root_on_disk s)"
proof -
  have no: "\<not> names s a 1 2" if "a < NINODE" for a using fresh that by (simp add: names_def)
  have f0: "(0 :: nat) < NINODE" "iref (inodes s 0) = 0" using fresh by auto
  obtain rp where g: "rp < NINODE" "runs (inode_get 1 2) s rp (s\<lparr>inodes := (inodes s)(rp := (inodes s rp)\<lparr>i_dev := 1, inum := 2, iref := 1, iflags := 0\<rparr>)\<rparr>)"
    by (rule get_fresh [OF h no f0])
  define i1 where "i1 = (inodes s rp)\<lparr>i_dev := 1, inum := 2, iref := 1, iflags := 0\<rparr>"
  define s1 where "s1 = s\<lparr>inodes := (inodes s)(rp := i1)\<rparr>"
  have v1: "view s1 = view s" "in_img s1 = in_img s" "held s1 = held s" by (simp_all add: s1_def view_inodes)
  have ib: "inode_blk s1 2 = inode_blk s 2" by (simp add: inode_blk_def v1)
  define r where "r = (disk_inode s1 i1)\<lparr>iflags := 3\<rparr>"
  have rd: "i_dev r = 1" "inum r = 2" "iref r = 1" "iflags r = 3" "i_mode r = i_mode (root_on_disk s)" "i_nlink r = i_nlink (root_on_disk s)"
    "i_size r = i_size (root_on_disk s)" "i_addr r = i_addr (root_on_disk s)"
    by (simp_all add: r_def root_on_disk_def disk_inode_def load_dinode_def i1_def ib v1)
  obtain s2 where 2: "runs (inode_lock rp) s1 () s2" "bc_room k s2" "view s2 = view s1" "same_above (s1\<lparr>inodes := (inodes s1)(rp := r)\<rparr>) s2"
    using inode_lock_ok [of k s1 i1 rp] R h n by (auto simp: s1_def bc_room_inodes i1_def r_def v1 ib inode_blk_def view_inodes)
  have "runs (inode_get 1 2) s rp s1" using g(2) by (simp add: s1_def i1_def)
  moreover have "same_above (s\<lparr>inodes := (inodes s)(rp := r)\<rparr>) s2" using 2(4) by (simp add: s1_def)
  moreover have "view s2 = view s" using 2(3) v1(1) by simp
  ultimately show ?thesis using that g(1) 2(1,2) rd by blast
qed

lemma namei_root:
  assumes R: "bc_room k s" and h: "MIc \<notin> held s" and fresh: "\<forall>a < NINODE. iref (inodes s a) = 0"
    and n: "in_img s 1" "in_img s (inode_blk s ROOT_DENT_INO)" and D: "dir_ok s (root_on_disk s)" "i_nlink (root_on_disk s) \<noteq> 0"
    and M: "find (matches s (root_on_disk s) name) [0..<unat (i_size (root_on_disk s)) div 64] = Some m"
    and num: "num = d_ino (dir_entry s (root_on_disk s) m)" "num \<noteq> ROOT_DENT_INO"
    and N: "0 \<notin> set name" "47 \<notin> set name" "name \<noteq> []" "length name \<le> FNAME_MAX"
  shows "\<exists>ip s'. runs (inode_namei (47 # name)) s (Some ip) s' \<and> bc_room k s' \<and> view s' = view s \<and> ip < NINODE \<and>
    i_dev (inodes s' ip) = ROOT_DEV \<and> inum (inodes s' ip) = num \<and> iref (inodes s' ip) = 1 \<and> iflags (inodes s' ip) = 0 \<and>
    held s' = held s \<and> files s' = files s \<and> fds s' = fds s \<and> cur s' = cur s \<and> in_img s' = in_img s"
proof -
  obtain rp r s1 s2 where g: "runs (inode_get ROOT_DEV ROOT_DENT_INO) s rp s1" "rp < NINODE" "runs (inode_lock rp) s1 () s2" "bc_room k s2"
    "view s2 = view s" "same_above (s\<lparr>inodes := (inodes s)(rp := r)\<rparr>) s2" and rd: "i_dev r = 1" "inum r = 2" "iref r = 1" "iflags r = 3"
    "i_mode r = i_mode (root_on_disk s)" "i_nlink r = i_nlink (root_on_disk s)" "i_size r = i_size (root_on_disk s)" "i_addr r = i_addr (root_on_disk s)"
    by (rule root_locked [OF R h fresh n]) blast
  have i2: "inodes s2 = (inodes s)(rp := r)" "in_img s2 = in_img s" using g(6) by (auto simp: same_above_def in_img_def fun_eq_iff)
  have D2: "dir_ok s2 r" using D(1) rd i2(2) by (simp add: dir_ok_def blocks_ok_def)
  have fb: "fbyte s2 r = fbyte s (root_on_disk s)" using g(5) rd by (simp add: fbyte_def fun_eq_iff)
  then have fe: "dir_entry s2 r = dir_entry s (root_on_disk s)" by (simp add: dir_entry_def fun_eq_iff)
  then have fm: "matches s2 r = matches s (root_on_disk s)" by (simp add: matches_def fun_eq_iff)
  have sz: "unat (i_size r) = 64 * (unat (i_size (root_on_disk s)) div 64)" using D(1) rd(7) by (simp add: dir_ok_def)
  have z: "of_nat (64 * 0) = (0 :: u64)" by simp
  have r2: "inodes s2 rp = r" by (simp add: i2)
  obtain s3 where 3: "view s3 = view s2" "same_above s2 s3" "bc_room k s3"
      "\<And>ip s4. runs (inode_get ROOT_DEV num) s3 ip s4 \<Longrightarrow> runs (dirlookup_loop rp name 0) s2 (Some (ip, of_nat (64 * m))) s4"
    using dirlookup_loop_ok [OF g(4) r2 D2 sz le0 N(1,4), unfolded fe fm M option.case z, folded num(1)] by blast
  have i3: "inodes s3 = (inodes s)(rp := r)" "held s3 = held s" "in_img s3 = in_img s" "files s3 = files s" "fds s3 = fds s" "cur s3 = cur s"
    using 3(2) g(6) by (auto simp: same_above_def in_img_def fun_eq_iff)
  have no: "\<not> names s3 a 1 num" if "a < NINODE" for a using fresh that num(2) by (simp add: names_def i3 rd)
  define a where "a = (if rp = 0 then 1 else 0 :: nat)"
  have fa: "a < NINODE" "iref (inodes s3 a) = 0" using fresh by (auto simp: i3 a_def)
  have h3: "MIc \<notin> held s3" using h by (simp add: i3)
  obtain ip where g4: "ip < NINODE" "iref (inodes s3 ip) = 0"
      "runs (inode_get 1 num) s3 ip (s3\<lparr>inodes := (inodes s3)(ip := (inodes s3 ip)\<lparr>i_dev := 1, inum := num, iref := 1, iflags := 0\<rparr>)\<rparr>)"
    by (rule get_fresh [OF h3 no fa])
  define s4 where "s4 = s3\<lparr>inodes := (inodes s3)(ip := (inodes s3 ip)\<lparr>i_dev := 1, inum := num, iref := 1, iflags := 0\<rparr>)\<rparr>"
  have ne: "ip \<noteq> rp" using g4(2) rd(3) by (auto simp: i3)
  have dl: "runs (inode_dirlookup rp name) s2 (Some (ip, of_nat (64 * m))) s4"
    using 3(4) [OF g4(3)] r2 D2 by (simp add: inode_dirlookup_def mrun dir_ok_def s4_def)
  have h4: "MIc \<notin> held s4" "inodes s4 rp = r" using h3 ne by (simp_all add: s4_def i3)
  from walk_end [OF g(3) r2 _ dl h4(1,2) rd(4) _ N(2-4)] D2 D(2) rd(6) obtain s6 where
    6: "runs (path_walk False 60 rp (47 # name)) s1 (Some (ip, [])) s6"
      "s6 = s4\<lparr>wqs := (wqs s4)(WqInode rp := []), inodes := (inodes s4)(rp := r\<lparr>iflags := 2, iref := iref r - 1\<rparr>)\<rparr>"
    by (auto simp: dir_ok_def)
  have "runs (inode_namei (47 # name)) s (Some ip) s6"
    unfolding inode_namei_def inode_path2inode_def
    by (rule runs_mbindI [where x = "Some (ip, [])" and s' = s6], rule runs_mthenI [where s' = s], simp add: mrun, rule runs_mbindI [OF g(1)], rule 6(1))
      (simp add: mrun)
  moreover have "inodes s6 ip = (inodes s3 ip)\<lparr>i_dev := 1, inum := num, iref := 1, iflags := 0\<rparr>" using ne by (simp add: 6(2) s4_def)
  moreover have "bc_room k s6" "view s6 = view s" "held s6 = held s" "files s6 = files s" "fds s6 = fds s" "cur s6 = cur s" "in_img s6 = in_img s"
    using 3(1,3) g(5) i3 by (simp_all add: 6(2) s4_def bc_room_inodes view_inodes in_img_def fun_eq_iff)
  ultimately show ?thesis using g4(1) by (intro exI [of _ ip] exI [of _ s6]) simp
qed

end
