(* ===== verification/Kstdio.thy ===== *)
theory Kstdio
  imports Kmkfs Kdir Kfdcount
begin

text \<open>
  A thread starts on a machine whose disk \<^verbatim>\<open>mkfs\<close> made: the start of \<^verbatim>\<open>thr_thread_start\<close>
  (\<^verbatim>\<open>kern/thread.c\<close>) opens the console as descriptors 0, 1 and 2.
\<close>

section \<open>The new image, as the kernel reads it\<close>

definition entry :: "u32 \<Rightarrow> u8 list \<Rightarrow> u8 list" where
  "entry ino name = le_enc 4 (unat ino) @ name @ 0 # replicate (59 - length name) 0"

lemma root_entries_eq: "root_entries = entry 2 [46] @ entry 2 [46, 46] @ entry 3 [67, 79, 78] @ replicate 320 0"
  using replicate_add [of 56 320 "0 :: u8"] by (simp add: root_entries_def put_dirent_def put_bytes_def put32_def entry_def)

lemma entry_sel: "length name \<le> 59 \<Longrightarrow> length (entry ino name) = 64" "d_ino (entry ino name) = ino"
    "length name \<le> 59 \<Longrightarrow> d_name (entry ino name) = name @ 0 # replicate (59 - length name) 0"
proof -
  show "d_ino (entry ino name) = ino" using unsigned_less [of ino, where 'a = nat]
    by (simp add: entry_def d_ino_def get32_def le_dec_enc)
qed (simp_all add: entry_def d_name_def get_bytes_def)


text \<open>The kernel's view of a new image.\<close>

definition new_fs :: "fsst \<Rightarrow> superblock \<Rightarrow> u64 \<Rightarrow> u64 \<Rightarrow> u64 \<Rightarrow> bool" where
  "new_fs s sb bm it fd = (bm = ucast (1 + 1 + s_imap_blocks sb) \<and> it = ucast (1 + 1 + s_imap_blocks sb + s_bmap_blocks sb) \<and>
     fd = ucast (s_firstdata_block sb) \<and> distinct [1, 2, bm, it, it + 1, fd] \<and> fd \<noteq> 0 \<and>
     (\<forall>n \<in> {1, it, it + 1, fd}. in_img s n \<and> view s n = new_blocks sb bm it fd n))"

lemma put_bytes_get:
  assumes "k + length bs \<le> length d" "j + n \<le> length bs"
  shows "take n (drop (k + j) (put_bytes d k bs)) = take n (drop j bs)"
  using assms by (simp add: put_bytes_def)

lemma load_put:
  assumes "k + DINODE_SIZE \<le> 512" "length (i_addr ip) = FS_IADDR_NR"
  shows "load_dinode (put_bytes Z k (put_dinode (replicate DINODE_SIZE 0) 0 ip)) k old =
    old\<lparr>i_mode := i_mode ip, i_rdev := i_rdev ip, i_nlink := i_nlink ip, i_size := i_size ip, i_addr := i_addr ip\<rparr>"
proof -
  let ?d = "put_dinode (replicate DINODE_SIZE 0) 0 ip"
  have rt: "load_dinode ?d 0 (old\<lparr>inum := inum ip, iref := iref ip, iflags := iflags ip, i_dev := i_dev ip\<rparr>) = ip" "length ?d = 168"
    using dinode_rt [of 0 "replicate DINODE_SIZE 0" ip] assms(2) by simp_all
  have g: "take n (drop (k + j) (put_bytes Z k ?d)) = take n (drop j ?d)" if "j + n \<le> 168" for j n
    using that assms(1) rt(2) by (intro put_bytes_get) (simp_all add: Z_def)
  have g32: "get32 (put_bytes Z k ?d) k = get32 ?d 0" using g [of 0 4] by (simp add: get32_def)
  have g64: "get64 (put_bytes Z k ?d) (k + j) = get64 ?d j" if "j + 8 \<le> 168" for j
    using g [of j 8] that by (simp add: get64_def)
  have m: "map (\<lambda>i. get64 (put_bytes Z k ?d) (k + 40 + i * 8)) [0..<16] = map (\<lambda>i. get64 ?d (40 + i * 8)) [0..<16]"
    using g64 [of "40 + _ * 8"] by (intro map_cong) (auto simp: add.assoc)
  have a: "map (\<lambda>i. get64 (put_bytes Z k ?d) (k + 40 + i * 8)) [0..<16] = i_addr ip"
    unfolding m using arg_cong [OF rt(1), of i_addr] by (simp add: load_dinode_def)
  show ?thesis unfolding load_dinode_def a
    using arg_cong [OF rt(1), of i_mode] arg_cong [OF rt(1), of i_rdev] arg_cong [OF rt(1), of i_nlink] arg_cong [OF rt(1), of i_size]
      g32 g64 [of 16] g64 [of 24] g64 [of 32]
    by (simp add: load_dinode_def)
qed

lemma new_fs_disk:
  assumes "new_fs s sb bm it fd"
  shows "inode_blk s 2 = it" "inode_blk s 3 = it + 1" "in_img s 1" "in_img s it" "in_img s (it + 1)" "in_img s fd"
    "root_on_disk s = (inode0\<lparr>i_dev := ROOT_DEV, inum := ROOT_DENT_INO\<rparr>)
       \<lparr>i_mode := FS_IMODE_DIR, i_nlink := 1, i_size := 512, i_addr := (replicate 16 0)[0 := fd]\<rparr>"
    "view s fd = root_entries"
    "inum i = 3 \<Longrightarrow> disk_inode s i = i\<lparr>i_mode := FS_IMODE_DEV, i_rdev := CONS_DEV, i_nlink := 1, i_size := 0, i_addr := replicate 16 0\<rparr>"
proof -
  have d: "distinct [1, 2, bm, it, it + 1, fd]" and V: "\<And>n. n \<in> {1, it, it + 1, fd} \<Longrightarrow> view s n = new_blocks sb bm it fd n"
    and B: "it = ucast (1 + 1 + s_imap_blocks sb + s_bmap_blocks sb)"
    using assms by (auto simp: new_fs_def)
  show "in_img s 1" "in_img s it" "in_img s (it + 1)" "in_img s fd" using assms by (auto simp: new_fs_def)
  have v1: "get_superblock (view s 1) = sb" using V [of 1] put_superblock_get(1) [of Z sb] by (simp add: new_blocks_def Z_def)
  then show ib: "inode_blk s 2 = it" "inode_blk s 3 = it + 1" by (simp_all add: inode_blk_def B)
  show "view s fd = root_entries" using V [of fd] d by (simp add: new_blocks_def)
  have vi: "view s it = put_bytes Z (2 * 168) (put_dinode (replicate DINODE_SIZE 0) 0 (root_inode fd))"
    "view s (it + 1) = put_bytes Z 0 (put_dinode (replicate DINODE_SIZE 0) 0 cons_inode)"
    using V [of it] V [of "it + 1"] d by (simp_all add: new_blocks_def)
  have u: "unat (2 mod 3 :: u32) = 2" "unat (3 mod 3 :: u32) = 0" by (simp_all add: unat_mod)
  have lr: "load_dinode (view s it) (2 * 168) old = old\<lparr>i_mode := 1, i_rdev := 0, i_nlink := 1, i_size := 512, i_addr := (replicate 16 0)[0 := fd]\<rparr>" for old
    unfolding vi(1) by (subst load_put) (simp_all add: root_inode_def inode0_def)
  have lc: "load_dinode (view s (it + 1)) 0 old = old\<lparr>i_mode := 3, i_rdev := 2, i_nlink := 1, i_size := 0, i_addr := replicate 16 0\<rparr>" for old
    unfolding vi(2) by (subst load_put) (simp_all add: cons_inode_def inode0_def)
  show "root_on_disk s = (inode0\<lparr>i_dev := ROOT_DEV, inum := ROOT_DENT_INO\<rparr>)
       \<lparr>i_mode := FS_IMODE_DIR, i_nlink := 1, i_size := 512, i_addr := (replicate 16 0)[0 := fd]\<rparr>"
    using lr by (simp add: root_on_disk_def disk_inode_def ib u inode0_def)
  show "inum i = 3 \<Longrightarrow> disk_inode s i = i\<lparr>i_mode := FS_IMODE_DEV, i_rdev := CONS_DEV, i_nlink := 1, i_size := 0, i_addr := replicate 16 0\<rparr>"
    using lc by (simp add: disk_inode_def ib u)
qed


lemma new_fs_entries:
  assumes N: "new_fs s sb bm it fd"
  shows "dir_entry s (root_on_disk s) 0 = entry 2 [46]" "dir_entry s (root_on_disk s) 1 = entry 2 [46, 46]"
    "dir_entry s (root_on_disk s) 2 = entry 3 [67, 79, 78]"
proof -
  note D = new_fs_disk [OF N]
  have f: "fbyte s (root_on_disk s) k = root_entries ! k" if "k < 512" for k using that by (simp add: fbyte_def D(7,8))
  have e: "dir_entry s (root_on_disk s) j = take 64 (drop (64 * j) root_entries)" if "j < 8" for j
    using that f length_root_entries by (intro nth_equalityI) (auto simp: dir_entry_def)
  have l: "length (entry 2 [46]) = 64" "length (entry 2 [46, 46]) = 64" "length (entry 3 [67, 79, 78]) = 64" by (simp_all add: entry_sel)
  show "dir_entry s (root_on_disk s) 0 = entry 2 [46]" "dir_entry s (root_on_disk s) 1 = entry 2 [46, 46]"
    "dir_entry s (root_on_disk s) 2 = entry 3 [67, 79, 78]"
    by (simp_all add: e root_entries_eq l)
qed

lemma entry_name_entry: "0 \<notin> set name \<Longrightarrow> length name \<le> 59 \<Longrightarrow> entry_name (entry ino name) = name"
  unfolding entry_name_def by (subst entry_sel(3)) (simp_all, subst takeWhile_append2, auto)

lemma new_fs_root:
  assumes N: "new_fs s sb bm it fd"
  shows "dir_ok s (root_on_disk s)" "i_nlink (root_on_disk s) \<noteq> 0"
    "find (matches s (root_on_disk s) [67, 79, 78]) [0..<unat (i_size (root_on_disk s)) div 64] = Some 2"
    "d_ino (dir_entry s (root_on_disk s) 2) = 3"
proof -
  note D = new_fs_disk [OF N] and E = new_fs_entries [OF N]
  have "fd \<noteq> 0" using N unfolding new_fs_def by blast
  then show "dir_ok s (root_on_disk s)" using D(6) by (auto simp: dir_ok_def D(7) blocks_ok_def)
  show "i_nlink (root_on_disk s) \<noteq> 0" by (simp add: D(7))
  show "d_ino (dir_entry s (root_on_disk s) 2) = 3" by (simp add: E entry_sel)
  have "[0..<unat (i_size (root_on_disk s)) div 64] = 0 # 1 # 2 # [3..<8]" by (simp add: D(7) upt_conv_Cons)
  then show "find (matches s (root_on_disk s) [67, 79, 78]) [0..<unat (i_size (root_on_disk s)) div 64] = Some 2"
    by (simp add: matches_def E E(2) [unfolded One_nat_def] entry_name_entry entry_sel)
qed

section \<open>Opening the console\<close>

abbreviation (input) O_RDWR :: u32 where "O_RDWR \<equiv> 3"
abbreviation (input) CON_PATH :: "u8 list" where "CON_PATH \<equiv> [47, 67, 79, 78]"

text \<open>\<^verbatim>\<open>thr_thread_start\<close> up to the point where it enables interrupts and calls the start function.\<close>

definition thr_thread_start :: "unit fsm" where
  "thr_thread_start =
     mthen (mfor_each [0..<MAX_FD_TABLE_SIZE] (\<lambda>fd. mthen (fs_close (int fd)) (mret ())))
     (mbind (fs_open CON_PATH O_RDWR) (\<lambda>stdin_fd.
      mbind (fs_dup stdin_fd) (\<lambda>stdout_fd.
      mbind (fs_dup stdin_fd) (\<lambda>stderr_fd.
      mthen (massert (stdin_fd = 0))
      (mthen (massert (stdout_fd = 1))
      (massert (stderr_fd = 2)))))))"

lemma close_all_run:
  assumes "fds s (cur s) = (\<lambda>_. None)"
  shows "runs (mfor_each fs (\<lambda>fd. mthen (fs_close (int fd)) (mret ()))) s () s"
  using assms by (induction fs) (auto simp: mrun fs_close_def with_fd_def)

lemma alloc_fd_loop_first: "(\<And>k. a \<le> k \<Longrightarrow> k < n \<Longrightarrow> t k \<noteq> None) \<Longrightarrow> a \<le> n \<Longrightarrow> n < m \<Longrightarrow> t n = None \<Longrightarrow> alloc_fd_loop t [a..<m] = Some n"
proof (induction "n - a" arbitrary: a)
  case 0
  then show ?case by (simp add: upt_conv_Cons)
next
  case (Suc x)
  then have "a < n" "t a \<noteq> None" by simp_all
  then show ?case using Suc.hyps(1) [of "Suc a"] Suc.hyps(2) Suc.prems by (simp add: upt_conv_Cons)
qed

lemma alloc_fd_run:
  assumes "\<And>k. k < n \<Longrightarrow> fds s (cur s) k \<noteq> None" "fds s (cur s) n = None" "n < THR_FDS_NR"
  shows "runs (alloc_new_fd g) s (int n) (s\<lparr>fds := (fds s)(cur s := (fds s (cur s))(n := Some g))\<rparr>)"
  using alloc_fd_loop_first [of 0 n "fds s (cur s)" 32] assms by (simp add: alloc_new_fd_def set_fd_def mrun)

lemma alloc_file_run:
  assumes "MFd \<notin> held s" "f_count (files s 0) = 0"
  shows "runs fdtable_alloc_new_fd s (Some 0) (s\<lparr>files := (files s)(0 := (files s 0)\<lparr>f_count := 1\<rparr>)\<rparr>)"
proof -
  obtain xs where u: "[0..<1024] = 0 # (xs :: nat list)" using upt_conv_Cons [OF zero_less_numeral] by blast
  have "held s - {MFd} = held s" using assms(1) by simp
  then show ?thesis using assms unfolding fdtable_alloc_new_fd_def u by (simp add: mrun)
qed

lemma dup_run:
  assumes "fds s (cur s) 0 = Some f" "MFd \<notin> held s" "0 < f_count (files s f)"
    and n: "\<And>k. k < n \<Longrightarrow> fds s (cur s) k \<noteq> None" "fds s (cur s) n = None" "n < THR_FDS_NR"
  shows "runs (fs_dup 0) s (int n) (s\<lparr>fds := (fds s)(cur s := (fds s (cur s))(n := Some f)), files := (files s)(f := (files s f)\<lparr>f_count := f_count (files s f) + 1\<rparr>)\<rparr>)"
proof -
  have h: "held s - {MFd} = held s" using assms(2) by simp
  let ?t = "s\<lparr>fds := (fds s)(cur s := (fds s (cur s))(n := Some f))\<rparr>"
  have a: "runs (alloc_new_fd f) s (int n) ?t" by (rule alloc_fd_run [OF n])
  have d: "runs (fdtable_duplicate_fd f) ?t f (?t\<lparr>files := (files s)(f := (files s f)\<lparr>f_count := f_count (files s f) + 1\<rparr>)\<rparr>)"
    using assms(2,3) h by (simp add: fdtable_duplicate_fd_def mrun)
  have b: "runs (mbind (alloc_new_fd f) (\<lambda>new_fd. if new_fd < 0 then mret new_fd else mthen (fdtable_duplicate_fd f) (mret new_fd))) s (int n)
      (?t\<lparr>files := (files s)(f := (files s f)\<lparr>f_count := f_count (files s f) + 1\<rparr>)\<rparr>)"
    by (rule runs_mbindI [OF a], subst if_not_P, simp, rule runs_mthenI [OF d]) (simp add: mrun)
  have e: "fds s (cur s) (nat 0) = Some f" using assms(1) by simp
  show ?thesis unfolding fs_dup_def with_fd_def
    by (subst if_not_P, simp, rule runs_mgetI, unfold e option.case, rule b)
qed


lemma open_con_run:
  assumes R: "bc_room k s" and h: "held s = {}" and fresh: "\<forall>a < NINODE. iref (inodes s a) = 0" and N: "new_fs s sb bm it fd"
    and f: "fds s (cur s) = (\<lambda>_. None)" "files s = (\<lambda>_. file0)"
  obtains ip s' where "runs (fs_open CON_PATH O_RDWR) s 0 s'" "held s' = {}" "cur s' = cur s" "fds s' = (fds s)(cur s := [0 \<mapsto> 0])"
    "files s' = (files s)(0 := \<lparr>f_flags = O_RDWR, f_count = 1, f_inode = Some ip, f_offset = 0\<rparr>)"
    "ip < NINODE" "i_mode (inodes s' ip) = FS_IMODE_DEV" "i_rdev (inodes s' ip) = CONS_DEV" "inum (inodes s' ip) = CONS_INO"
    "iref (inodes s' ip) = 1"
proof -
  note D = new_fs_disk [OF N] and T = new_fs_root [OF N]
  have n: "in_img s 1" "in_img s (inode_blk s 2)" "MIc \<notin> held s" using D h by simp_all
  have "\<exists>ip s1. runs (inode_namei (47 # [67, 79, 78])) s (Some ip) s1 \<and> bc_room k s1 \<and> view s1 = view s \<and> ip < NINODE \<and>
    i_dev (inodes s1 ip) = ROOT_DEV \<and> inum (inodes s1 ip) = 3 \<and> iref (inodes s1 ip) = 1 \<and> iflags (inodes s1 ip) = 0 \<and>
    held s1 = held s \<and> files s1 = files s \<and> fds s1 = fds s \<and> cur s1 = cur s \<and> in_img s1 = in_img s"
    by (rule namei_root [OF R n(3) fresh n(1,2) T(1-3) T(4) [symmetric]]) simp_all
  then obtain ip s1 where 1: "runs (inode_namei CON_PATH) s (Some ip) s1" "bc_room k s1" "view s1 = view s" "ip < NINODE"
    "i_dev (inodes s1 ip) = ROOT_DEV" "inum (inodes s1 ip) = 3" "iref (inodes s1 ip) = 1" "iflags (inodes s1 ip) = 0"
    "held s1 = {}" "files s1 = files s" "fds s1 = fds s" "cur s1 = cur s" "in_img s1 = in_img s" using h by auto
  have ib: "inode_blk s1 3 = it + 1" using D(2) 1(3) by (simp add: inode_blk_def)
  have di: "disk_inode s1 (inodes s1 ip) = disk_inode s (inodes s1 ip)" by (simp add: disk_inode_def inode_blk_def 1(3))
  define i where "i = (disk_inode s (inodes s1 ip))\<lparr>iflags := 3\<rparr>"
  have i: "i_mode i = 3" "i_rdev i = 2" "i_nlink i = 1" "inum i = 3" "iref i = 1" "iflags i = 3" using D(9) [OF 1(6)] 1(6,7) by (simp_all add: i_def)
  obtain s2 where 2: "runs (inode_lock ip) s1 () s2" "same_above (s1\<lparr>inodes := (inodes s1)(ip := i)\<rparr>) s2"
    using inode_lock_ok [OF 1(2) _ refl _ 1(8,5)] 1(6,7,9,13) D(3,5) ib di by (auto simp: i_def)
  have e2: "inodes s2 ip = i" "held s2 = {}" "files s2 = (\<lambda>_. file0)" "fds s2 = fds s" "cur s2 = cur s"
    using 2(2) 1(9-12) f(2) by (auto simp: same_above_def)
  define s3 where "s3 = s2\<lparr>files := (files s2)(0 := (files s2 0)\<lparr>f_count := 1\<rparr>)\<rparr>"
  define s4 where "s4 = s3\<lparr>fds := (fds s3)(cur s3 := (fds s3 (cur s3))(0 := Some 0))\<rparr>"
  define s5 where "s5 = s4\<lparr>inodes := (inodes s4)(ip := (inodes s4 ip)\<lparr>iflags := 2\<rparr>), wqs := (wqs s4)(WqInode ip := [])\<rparr>"
  define s6 where "s6 = s5\<lparr>files := (files s5)(0 := (files s5 0)\<lparr>f_inode := Some ip, f_offset := 0, f_flags := 3\<rparr>)\<rparr>"
  have 3: "runs fdtable_alloc_new_fd s2 (Some 0) s3" using alloc_file_run [of s2] e2 by (simp add: s3_def file0_def)
  have 4: "runs (alloc_new_fd 0) s3 0 s4" using alloc_fd_run [of 0 s3 0] e2 f(1) by (simp add: s3_def s4_def)
  have 5: "runs (inode_unlock ip) s4 () s5" using unlock_run [of s4 ip] e2 i by (simp add: s5_def s4_def s3_def)
  have nm: "runs (mbind (inode_namei CON_PATH) (\<lambda>r. case r of None \<Rightarrow> mret None | Some ip \<Rightarrow> mthen (inode_lock ip)
      (mbind (get_inode ip) (\<lambda>i. mret (Some (ip, i_mode i = FS_IMODE_DIR \<and> O_RDWR \<noteq> O_RDONLY)))))) s (Some (ip, False)) s2"
    by (rule runs_mbindI [OF 1(1)], unfold option.case, rule runs_mthenI [OF 2(1)]) (simp add: mrun e2(1) i(1))
  have "runs (fs_open CON_PATH O_RDWR) s 0 s6"
    unfolding fs_open_def Let_def
    by (rule runs_mbindI [where x = "Some (ip, False)" and s' = s2], subst if_not_P, simp, rule nm, unfold option.case prod.case if_False,
        rule runs_mbindI [OF 3], unfold option.case, rule runs_mbindI [OF 4], subst if_not_P, simp, rule runs_mthenI [OF 5])
      (simp add: mrun s6_def)
  moreover have "files s6 = (files s)(0 := \<lparr>f_flags = O_RDWR, f_count = 1, f_inode = Some ip, f_offset = 0\<rparr>)"
    using e2(3) f(2) by (simp add: s6_def s5_def s4_def s3_def file0_def)
  moreover have "fds s6 = (fds s)(cur s := [0 \<mapsto> 0])" "held s6 = {}" "cur s6 = cur s" "inodes s6 ip = i\<lparr>iflags := 2\<rparr>"
    using e2 f(1) by (simp_all add: s6_def s5_def s4_def s3_def)
  ultimately show ?thesis using i 1(4) by (intro that [of s6 ip]) simp_all
qed

text \<open>The tool makes an image and the kernel boots from it.\<close>

lemma mkfs_boot:
  assumes F: "fits_disk sz nr_files" and nr: "4 \<le> nr_files"
  obtains im s sb bm it fd where "mkfs_main sz nr_files [] = Ok (Some im)" "runs fs_boot (fs0 im p) () s" "bc_room 1023 s" "new_fs s sb bm it fd"
    "held s = {}" "\<forall>a < NINODE. iref (inodes s a) = 0" "files s = (\<lambda>_. file0)" "fds s = (\<lambda>_ _. None)"
proof -
  define sb where "sb = layout sz nr_files (get_superblock Z)"
  define bm it fd where "bm = (ucast (1 + 1 + s_imap_blocks sb) :: u64)" and "it = (ucast (1 + 1 + s_imap_blocks sb + s_bmap_blocks sb) :: u64)"
    and "fd = (ucast (s_firstdata_block sb) :: u64)"
  obtain im where im: "mkfs_main sz nr_files [] = Ok (Some im)" "holds_blocks im sz (new_blocks sb bm it fd)"
    using mkfs_run [OF F nr] unfolding sb_def bm_def it_def fd_def by blast
  note B = layout_blocks [OF F nr, folded sb_def, folded bm_def it_def fd_def]
  have l: "length im = sz" using im(2) by (simp add: holds_blocks_def)
  have "sz div 512 < 2 ^ 32" using F by (simp add: fits_disk_def Let_def)
  then have "length im < 2 ^ 64" unfolding l by (simp add: div_less_iff_less_mult)
  then obtain s where s: "runs fs_boot (fs0 im p) () s" "bc_room 1023 s" "img s = im" "view s = disk_blk im" "held s = {}"
      "\<forall>a < NINODE. inodes s a = inode0" "files s = (\<lambda>_. file0)" "fds s = (\<lambda>_ _. None)"
    using fs_boot_ok [of im p] by blast
  have on: "in_img s n \<and> view s n = new_blocks sb bm it fd n" if "unat n < sz div 512" for n
  proof -
    have "(unat n + 1) * 512 \<le> sz div 512 * 512" using that by (intro mult_le_mono1) simp
    also have "\<dots> \<le> sz" by simp
    finally have "on_img sz n" by (simp add: on_img_def)
    then show ?thesis using im(2) l s(3,4) by (simp add: holds_blocks_def on_img_def in_img_def)
  qed
  have "new_fs s sb bm it fd" unfolding new_fs_def using B on by (auto simp: word_unat_eq_iff bm_def it_def fd_def)
  moreover have "\<forall>a < NINODE. iref (inodes s a) = 0" using s(6) by (simp add: inode0_def)
  ultimately show ?thesis using that im(1) s by blast
qed

lemma start_run:
  assumes R: "bc_room k s" and h: "held s = {}" and fresh: "\<forall>a < NINODE. iref (inodes s a) = 0" and N: "new_fs s sb bm it fd"
    and f: "fds s (cur s) = (\<lambda>_. None)" "files s = (\<lambda>_. file0)"
  obtains ip s' where "runs thr_thread_start s () s'" "fds s' (cur s') = [0 \<mapsto> 0, 1 \<mapsto> 0, 2 \<mapsto> 0]"
    "files s' 0 = \<lparr>f_flags = O_RDWR, f_count = 3, f_inode = Some ip, f_offset = 0\<rparr>"
    "i_mode (inodes s' ip) = FS_IMODE_DEV" "i_rdev (inodes s' ip) = CONS_DEV" "iref (inodes s' ip) = 1"
proof -
  obtain ip s1 where 1: "runs (fs_open CON_PATH O_RDWR) s 0 s1" "held s1 = {}" "cur s1 = cur s" "fds s1 = (fds s)(cur s := [0 \<mapsto> 0])"
    "files s1 = (files s)(0 := \<lparr>f_flags = O_RDWR, f_count = 1, f_inode = Some ip, f_offset = 0\<rparr>)"
    "ip < NINODE" "i_mode (inodes s1 ip) = FS_IMODE_DEV" "i_rdev (inodes s1 ip) = CONS_DEV" "inum (inodes s1 ip) = CONS_INO" "iref (inodes s1 ip) = 1"
    by (rule open_con_run [OF R h fresh N f])
  have 2: "runs (fs_dup 0) s1 (int 1) (s1\<lparr>fds := (fds s1)(cur s1 := (fds s1 (cur s1))(1 := Some 0)),
      files := (files s1)(0 := (files s1 0)\<lparr>f_count := f_count (files s1 0) + 1\<rparr>)\<rparr>)" (is "runs _ _ _ ?s2")
    by (rule dup_run) (use 1 in simp_all)
  have 3: "runs (fs_dup 0) ?s2 (int 2) (?s2\<lparr>fds := (fds ?s2)(cur ?s2 := (fds ?s2 (cur ?s2))(2 := Some 0)),
      files := (files ?s2)(0 := (files ?s2 0)\<lparr>f_count := f_count (files ?s2 0) + 1\<rparr>)\<rparr>)" (is "runs _ _ _ ?s3")
    by (rule dup_run) (use 1 in \<open>auto simp: less_2_cases_iff\<close>)
  have "runs thr_thread_start s () ?s3"
    unfolding thr_thread_start_def
    by (rule runs_mthenI [OF close_all_run [OF f(1)]], rule runs_mbindI [OF 1(1)], rule runs_mbindI [OF 2], rule runs_mbindI [OF 3]) (simp add: mrun)
  then show ?thesis by (rule that [of _ ip]) (use 1 in simp_all)
qed

text \<open>
  C16: A thread that starts on a machine whose disk \<^verbatim>\<open>mkfs\<close> made gets its standard descriptors: the
  tool makes an image, the kernel boots from it, and none of the assertions of \<^verbatim>\<open>thr_thread_start\<close>
  fails; the descriptors 0, 1 and 2 share one entry of the file table, open for reading and writing, whose
  inode is the console device.  This holds for every size and number of files that fit.
\<close>

theorem thread_stdio:
  assumes F: "fits_disk sz nr_files" and nr: "4 \<le> nr_files"
  shows "\<exists>im s s' f ip. mkfs_main sz nr_files [] = Ok (Some im) \<and> fs_boot (fs0 im p) = Ok ((), s) \<and> thr_thread_start s = Ok ((), s') \<and>
    (\<forall>fd < 3. fds s' (cur s') fd = Some f) \<and> (\<forall>fd \<ge> 3. fds s' (cur s') fd = None) \<and>
    files s' f = \<lparr>f_flags = O_RDWR, f_count = 3, f_inode = Some ip, f_offset = 0\<rparr> \<and>
    i_mode (inodes s' ip) = FS_IMODE_DEV \<and> i_rdev (inodes s' ip) = CONS_DEV \<and> iref (inodes s' ip) = 1"
proof -
  obtain im s sb bm it fd where 1: "mkfs_main sz nr_files [] = Ok (Some im)" "runs fs_boot (fs0 im p) () s" "bc_room 1023 s" "new_fs s sb bm it fd"
    "held s = {}" "\<forall>a < NINODE. iref (inodes s a) = 0" "files s = (\<lambda>_. file0)" "fds s = (\<lambda>_ _. None)"
    by (rule mkfs_boot [OF F nr])
  have nf: "fds s (cur s) = (\<lambda>_. None)" by (simp add: 1(8))
  obtain ip s' where 2: "runs thr_thread_start s () s'" "fds s' (cur s') = [0 \<mapsto> 0, 1 \<mapsto> 0, 2 \<mapsto> 0]"
    "files s' 0 = \<lparr>f_flags = O_RDWR, f_count = 3, f_inode = Some ip, f_offset = 0\<rparr>"
    "i_mode (inodes s' ip) = FS_IMODE_DEV" "i_rdev (inodes s' ip) = CONS_DEV" "iref (inodes s' ip) = 1"
    by (rule start_run [OF 1(3,5,6,4) nf 1(7)])
  have "\<forall>fd < 3. fds s' (cur s') fd = Some 0" "\<forall>fd \<ge> 3. fds s' (cur s') fd = None" unfolding 2(2) by (auto simp: less_Suc_eq numeral_eq_Suc)
  then show ?thesis using 1(1) runsD [OF 1(2)] runsD [OF 2(1)] 2(3-6) by blast
qed

text \<open>The sizes \<^verbatim>\<open>mkfs\<close> uses when it gets no options: 4 MiB and 1024 files.\<close>

theorem thread_stdio_witness:
  "\<exists>im s s' f ip. mkfs_main 4194304 1024 [] = Ok (Some im) \<and> fs_boot (fs0 im p0) = Ok ((), s) \<and> thr_thread_start s = Ok ((), s') \<and>
    fds s' (cur s') 1 = Some f \<and> f_inode (files s' f) = Some ip \<and> i_rdev (inodes s' ip) = CONS_DEV"
proof -
  have "fits_disk 4194304 1024" "(4 :: u64) \<le> 1024" by (simp_all add: fits_disk_def)
  from thread_stdio [OF this, of p0] obtain im s s' f ip where "mkfs_main 4194304 1024 [] = Ok (Some im)" "fs_boot (fs0 im p0) = Ok ((), s)"
    "thr_thread_start s = Ok ((), s')" "fds s' (cur s') 1 = Some f" "f_inode (files s' f) = Some ip" "i_rdev (inodes s' ip) = CONS_DEV" by auto
  then show ?thesis by blast
qed

end
