(* ===== verification/Kkmap.thy ===== *)
theory Kkmap
  imports Kmonad "HOL-Library.While_Combinator"
begin

text \<open>
  The kernel heap (\<^verbatim>\<open>common/heap.c\<close>) and the page tables of the x64 machine (\<^verbatim>\<open>hal/x64/kmap.c\<close>,
  \<^verbatim>\<open>include/hal-x64/pgtbl.h\<close>).  Physical memory is a function from page frames and the indices of the
  64-bit words in them.  While the tables are made the machine runs on those of \<^verbatim>\<open>hal/x64/boot.S\<close>,
  which show the first GiB of memory at address 0 and at the base of the kernel: a pointer is followed
  through that map.  The base is 0 or \<open>0xFFFF800000000000\<close>, an option of the configuration; it is the
  parameter \<open>vma\<close> of the definitions.
\<close>

section \<open>Heap\<close>

record kernel_heap =
  kh_start :: u64
  kh_end :: u64
  kh_cur :: u64

record kmst =
  km_heap :: kernel_heap
  km_mem :: "u64 \<Rightarrow> nat \<Rightarrow> u64"
  km_cr3 :: u64

type_synonym 'a kmm = "(kmst, 'a) kfun"

abbreviation (input) PAGE_SIZE :: u64 where "PAGE_SIZE \<equiv> 4096"
abbreviation (input) HEAP_SBRK_FAILED :: u64 where "HEAP_SBRK_FAILED \<equiv> - 1"

definition kheap_sbrk :: "u64 \<Rightarrow> u64 kmm" where
  "kheap_sbrk inc =
     mbind (mget km_heap) (\<lambda>h.
     if kh_cur h + inc < kh_start h \<or> kh_end h \<le> kh_cur h + inc then mret HEAP_SBRK_FAILED
     else mthen (mmod (\<lambda>s. s\<lparr>km_heap := h\<lparr>kh_cur := kh_cur h + inc\<rparr>\<rparr>)) (mret (kh_cur h)))"

section \<open>Addresses and entries\<close>

definition PML4_INDEX :: "u64 \<Rightarrow> nat" where
  "PML4_INDEX vaddr = unat (drop_bit 39 vaddr AND 0x1ff)"

definition PDPT_INDEX :: "u64 \<Rightarrow> nat" where
  "PDPT_INDEX vaddr = unat (drop_bit 30 vaddr AND 0x1ff)"

definition PD_INDEX :: "u64 \<Rightarrow> nat" where
  "PD_INDEX vaddr = unat (drop_bit 21 vaddr AND 0x1ff)"

definition PT_INDEX :: "u64 \<Rightarrow> nat" where
  "PT_INDEX vaddr = unat (drop_bit 12 vaddr AND 0x1ff)"

abbreviation (input) PAGE_PRESENT :: u64 where "PAGE_PRESENT \<equiv> 1"
abbreviation (input) PAGE_WRITABLE :: u64 where "PAGE_WRITABLE \<equiv> 2"
abbreviation (input) PAGE_NONCACHABLE :: u64 where "PAGE_NONCACHABLE \<equiv> 16"
abbreviation (input) PAGE_2MB :: u64 where "PAGE_2MB \<equiv> 128"

definition present :: "u64 \<Rightarrow> bool" where
  "present ent = (ent AND PAGE_PRESENT \<noteq> 0)"

definition PAGE_START :: "u64 \<Rightarrow> u64" where
  "PAGE_START addr = addr AND NOT (PAGE_SIZE - 1)"

definition KERN_STRAIGHT_PAGE_START :: "u64 \<Rightarrow> u64" where
  "KERN_STRAIGHT_PAGE_START addr = addr AND NOT (0x200000 - 1)"

definition KERN_STRAIGHT_PAGE_END :: "u64 \<Rightarrow> u64" where
  "KERN_STRAIGHT_PAGE_END addr = KERN_STRAIGHT_PAGE_START addr + 0x200000 - 1"

definition PHY_TO_KERN_STRAIGHT :: "u64 \<Rightarrow> u64 \<Rightarrow> u64" where
  "PHY_TO_KERN_STRAIGHT vma phy = phy + vma"

definition KERN_STRAIGHT_TO_PHY :: "u64 \<Rightarrow> u64 \<Rightarrow> u64" where
  "KERN_STRAIGHT_TO_PHY vma va = va - vma"

definition get_ent_addr :: "u64 \<Rightarrow> u64" where
  "get_ent_addr ent = PAGE_START ent"

abbreviation (input) KERN_PHY_MAX :: u64 where "KERN_PHY_MAX \<equiv> 0x40000000"

text \<open>
  The frame a pointer to a table leads to on the page tables of \<^verbatim>\<open>boot.S\<close>; other pointers, and
  tables that do not start a page, are faults of the model.
\<close>

definition boot_frame :: "u64 \<Rightarrow> u64 \<Rightarrow> u64 option" where
  "boot_frame vma p =
     (if p AND (PAGE_SIZE - 1) \<noteq> 0 then None
      else if p < KERN_PHY_MAX then Some p
      else if vma \<le> p \<and> p - vma < KERN_PHY_MAX then Some (p - vma)
      else None)"

definition tbl_read :: "u64 \<Rightarrow> u64 \<Rightarrow> nat \<Rightarrow> u64 kmm" where
  "tbl_read vma p i = (case boot_frame vma p of None \<Rightarrow> mstop Kfault | Some f \<Rightarrow> mget (\<lambda>s. km_mem s f i))"

definition tbl_write :: "u64 \<Rightarrow> u64 \<Rightarrow> nat \<Rightarrow> u64 \<Rightarrow> unit kmm" where
  "tbl_write vma p i v = (case boot_frame vma p of None \<Rightarrow> mstop Kfault
     | Some f \<Rightarrow> mmod (\<lambda>s. s\<lparr>km_mem := (km_mem s)(f := (km_mem s f)(i := v))\<rparr>))"

text \<open>\<^verbatim>\<open>memset(p, 0, PAGE_SIZE)\<close>.\<close>

definition clear_page :: "u64 \<Rightarrow> u64 \<Rightarrow> unit kmm" where
  "clear_page vma p = (case boot_frame vma p of None \<Rightarrow> mstop Kfault
     | Some f \<Rightarrow> mmod (\<lambda>s. s\<lparr>km_mem := (km_mem s)(f := (\<lambda>_. 0))\<rparr>))"

definition get_pml4_ent :: "u64 \<Rightarrow> u64 \<Rightarrow> u64 \<Rightarrow> u64 kmm" where
  "get_pml4_ent vma kpgtbl vaddr = tbl_read vma kpgtbl (PML4_INDEX vaddr)"

definition get_pdp_ent :: "u64 \<Rightarrow> u64 \<Rightarrow> u64 \<Rightarrow> u64 kmm" where
  "get_pdp_ent vma pdptbl vaddr = tbl_read vma pdptbl (PDPT_INDEX vaddr)"

definition get_pdir_ent :: "u64 \<Rightarrow> u64 \<Rightarrow> u64 \<Rightarrow> u64 kmm" where
  "get_pdir_ent vma pdirtbl vaddr = tbl_read vma pdirtbl (PD_INDEX vaddr)"

definition set_pml4_ent :: "u64 \<Rightarrow> u64 \<Rightarrow> u64 \<Rightarrow> u64 \<Rightarrow> unit kmm" where
  "set_pml4_ent vma kpgtbl vaddr val = tbl_write vma kpgtbl (PML4_INDEX vaddr) val"

definition set_pdp_ent :: "u64 \<Rightarrow> u64 \<Rightarrow> u64 \<Rightarrow> u64 \<Rightarrow> unit kmm" where
  "set_pdp_ent vma pdptbl vaddr val = tbl_write vma pdptbl (PDPT_INDEX vaddr) val"

definition set_pdir_ent :: "u64 \<Rightarrow> u64 \<Rightarrow> u64 \<Rightarrow> u64 \<Rightarrow> unit kmm" where
  "set_pdir_ent vma pdirtbl vaddr val = tbl_write vma pdirtbl (PD_INDEX vaddr) val"

section \<open>Mapping a page\<close>

text \<open>A new table: a page from the heap, cleared; the result is its physical address.\<close>

definition new_table :: "u64 \<Rightarrow> u64 kmm" where
  "new_table vma =
     mbind (kheap_sbrk PAGE_SIZE) (\<lambda>new_page.
     mthen (massert (new_page \<noteq> HEAP_SBRK_FAILED))
     (mthen (massert (new_page \<noteq> 0))
     (mthen (clear_page vma new_page)
     (mret (KERN_STRAIGHT_TO_PHY vma new_page)))))"

definition map_kernel_page :: "u64 \<Rightarrow> u64 \<Rightarrow> u64 \<Rightarrow> u64 \<Rightarrow> u64 \<Rightarrow> unit kmm" where
  "map_kernel_page vma paddr vaddr page_attr kpgtbl =
     mbind (get_pml4_ent vma kpgtbl vaddr) (\<lambda>ent1.
     mbind (if \<not> present ent1
            then mbind (new_table vma) (\<lambda>pdp_addr.
                 mthen (set_pml4_ent vma kpgtbl vaddr (pdp_addr OR PAGE_PRESENT)) (mret pdp_addr))
            else mret (get_ent_addr ent1)) (\<lambda>pdp_addr.
     let pdp_addr = PHY_TO_KERN_STRAIGHT vma pdp_addr in
     mbind (get_pdp_ent vma pdp_addr vaddr) (\<lambda>ent2.
     mbind (if \<not> present ent2
            then mbind (new_table vma) (\<lambda>pdir_addr.
                 mthen (set_pdp_ent vma pdp_addr vaddr (pdir_addr OR PAGE_PRESENT)) (mret pdir_addr))
            else mret (get_ent_addr ent2)) (\<lambda>pdir_addr.
     let pdir_addr = PHY_TO_KERN_STRAIGHT vma pdir_addr in
     mbind (get_pdir_ent vma pdir_addr vaddr) (\<lambda>ent3.
     mthen (massert (\<not> present ent3))
     (set_pdir_ent vma pdir_addr vaddr
        (KERN_STRAIGHT_PAGE_START paddr OR (page_attr AND (PAGE_SIZE - 1)) OR PAGE_PRESENT OR PAGE_2MB)))))))"

text \<open>The loop over pages that the two routines below share: it goes on while the page starts at or before the last address.\<close>

definition map_pages :: "u64 \<Rightarrow> u64 \<Rightarrow> u64 \<Rightarrow> u64 \<Rightarrow> u64 \<Rightarrow> u64 \<Rightarrow> unit kmm" where
  "map_pages vma cur_page cur_vaddr last_addr attr kpgtbl s =
     (case while_option (\<lambda>(cur_page, cur_vaddr, r). cur_page \<le> last_addr \<and> is_ok r)
        (\<lambda>(cur_page, cur_vaddr, r). (cur_page + 0x200000, cur_vaddr + 0x200000,
           obind r (\<lambda>(_, s). map_kernel_page vma cur_page cur_vaddr attr kpgtbl s)))
        (cur_page, cur_vaddr, Ok ((), s)) of
      None \<Rightarrow> Stop Kblocked
    | Some (cur_page, cur_vaddr, r) \<Rightarrow> r)"

abbreviation (input) KERN_HIGH_IO_AREA :: u64 where "KERN_HIGH_IO_AREA \<equiv> 0xFE000000"
abbreviation (input) KERN_HIGH_IO_SIZE :: u64 where "KERN_HIGH_IO_SIZE \<equiv> 0x2000000"
abbreviation (input) KERN_HIGH_IO_BASE :: u64 where "KERN_HIGH_IO_BASE \<equiv> 0xFFFFFFFFFC000000"

definition map_high_io_area :: "u64 \<Rightarrow> u64 \<Rightarrow> unit kmm" where
  "map_high_io_area vma kpgtbl =
     map_pages vma (KERN_STRAIGHT_PAGE_START KERN_HIGH_IO_AREA) KERN_HIGH_IO_BASE
       (KERN_STRAIGHT_PAGE_END (KERN_HIGH_IO_AREA + KERN_HIGH_IO_SIZE)) (PAGE_WRITABLE OR PAGE_NONCACHABLE) kpgtbl"

definition x64_map_kernel :: "u64 \<Rightarrow> u64 \<Rightarrow> u64 \<Rightarrow> unit kmm" where
  "x64_map_kernel vma phy_pml4 mem_max =
     (let start_addr = KERN_STRAIGHT_PAGE_START 0;
          phy_last_mem = (if mem_max < KERN_PHY_MAX then mem_max else KERN_PHY_MAX) - 1;
          last_addr = KERN_STRAIGHT_PAGE_END phy_last_mem in
      mthen (clear_page vma phy_pml4)
      (mthen (map_pages vma start_addr vma last_addr PAGE_WRITABLE phy_pml4)
      (mthen (map_high_io_area vma phy_pml4)
      (mmod (\<lambda>s. s\<lparr>km_cr3 := phy_pml4\<rparr>)))))"

section \<open>What the processor does with the tables\<close>

definition canonical :: "u64 \<Rightarrow> bool" where
  "canonical va = (va < 0x800000000000 \<or> 0xFFFF800000000000 \<le> va)"

text \<open>
  The walk of the processor in 64-bit mode: the tables of the four levels, large pages of 1 GiB and
  2 MiB, and pages of 4 KiB.
\<close>

definition ent_frame :: "u64 \<Rightarrow> u64" where
  "ent_frame ent = ent AND 0x000FFFFFFFFFF000"

definition xlate :: "(u64 \<Rightarrow> nat \<Rightarrow> u64) \<Rightarrow> u64 \<Rightarrow> u64 \<Rightarrow> u64 option" where
  "xlate m cr3 va =
     (if \<not> canonical va then None else
      let e1 = m (ent_frame cr3) (PML4_INDEX va) in if \<not> present e1 then None else
      let e2 = m (ent_frame e1) (PDPT_INDEX va) in if \<not> present e2 then None else
      if e2 AND PAGE_2MB \<noteq> 0 then Some ((ent_frame e2 AND NOT 0x3fffffff) OR (va AND 0x3fffffff)) else
      let e3 = m (ent_frame e2) (PD_INDEX va) in if \<not> present e3 then None else
      if e3 AND PAGE_2MB \<noteq> 0 then Some ((ent_frame e3 AND NOT 0x1fffff) OR (va AND 0x1fffff)) else
      let e4 = m (ent_frame e3) (PT_INDEX va) in if \<not> present e4 then None else
      Some (ent_frame e4 OR (va AND 0xfff)))"

section \<open>Words\<close>

definition vpn :: "u64 \<Rightarrow> nat" where
  "vpn va = unat va div 0x200000"

lemma index_vpn:
  "PML4_INDEX va = vpn va div 0x40000 mod 512"
  "PDPT_INDEX va = vpn va div 512 mod 512"
  "PD_INDEX va = vpn va mod 512"
proof -
  have lt: "unat va < 2 ^ 64" using unsigned_less [of va] by simp
  have m: "unat (drop_bit n va AND 0x1ff) = unat va div 2 ^ n mod 512" for n
  proof -
    have "(0x1ff :: u64) = mask 9" by (simp add: mask_eq_exp_minus_1)
    then show ?thesis using lt
      by (simp only: take_bit_eq_mask [symmetric] unsigned_take_bit_eq unsigned_drop_bit_eq)
        (simp add: take_bit_eq_mod drop_bit_eq_div)
  qed
  show "PML4_INDEX va = vpn va div 0x40000 mod 512" "PDPT_INDEX va = vpn va div 512 mod 512" "PD_INDEX va = vpn va mod 512"
    by (simp_all add: PML4_INDEX_def PDPT_INDEX_def PD_INDEX_def m vpn_def flip: div_mult2_eq)
qed

definition same_page :: "u64 \<Rightarrow> u64 \<Rightarrow> bool" where
  "same_page va vb = (PML4_INDEX va = PML4_INDEX vb \<and> PDPT_INDEX va = PDPT_INDEX vb \<and> PD_INDEX va = PD_INDEX vb)"

lemma canonical_vpn: "canonical va \<longleftrightarrow> vpn va < 0x4000000 \<or> 0x7FFFC000000 \<le> vpn va"
  by (simp add: canonical_def vpn_def word_less_nat_alt word_le_nat_alt) arith

lemma vpn_less: "vpn va < 0x80000000000"
proof -
  have "unat va < 2 ^ 64" using unsigned_less [of va] by simp
  then show ?thesis by (simp add: vpn_def)
qed

lemma top_index:
  fixes x :: nat
  assumes "0x1FFFF00 \<le> x" "x < 0x2000000"
  shows "x = 0x1FFFE00 + x mod 512" "256 \<le> x mod 512"
proof -
  obtain r where r: "x = 0x1FFFE00 + r" using assms(1) le_Suc_ex [of "0x1FFFE00" x] by auto
  then have "x mod 512 = r" using assms by (simp add: mod_add_eq [symmetric, of "0x1FFFE00"])
  then show "x = 0x1FFFE00 + x mod 512" "256 \<le> x mod 512" using r assms by simp_all
qed

lemma top_inj:
  fixes x y :: nat
  assumes x: "x < 256 \<or> 0x1FFFF00 \<le> x \<and> x < 0x2000000" and y: "y < 256 \<or> 0x1FFFF00 \<le> y \<and> y < 0x2000000"
    and m: "x mod 512 = y mod 512"
  shows "x = y"
proof -
  have low: "z mod 512 = z" if "z < 256" for z :: nat using that by simp
  show ?thesis using x y
  proof (elim disjE conjE)
    assume "x < 256" "y < 256"
    then show ?thesis using m low [of x] low [of y] by linarith
  next
    assume "x < 256" "0x1FFFF00 \<le> y" "y < 0x2000000"
    then show ?thesis using m low [of x] top_index(2) [of y] by linarith
  next
    assume "0x1FFFF00 \<le> x" "x < 0x2000000" "y < 256"
    then show ?thesis using m low [of y] top_index(2) [of x] by linarith
  next
    assume "0x1FFFF00 \<le> x" "x < 0x2000000" "0x1FFFF00 \<le> y" "y < 0x2000000"
    then show ?thesis using m top_index(1) [of x] top_index(1) [of y] by linarith
  qed
qed

lemma same_page_iff:
  assumes "canonical va" "canonical vb"
  shows "same_page va vb \<longleftrightarrow> vpn va = vpn vb"
proof
  assume "same_page va vb"
  then have i: "vpn va div 0x40000 mod 512 = vpn vb div 0x40000 mod 512"
    "vpn va div 512 mod 512 = vpn vb div 512 mod 512" "vpn va mod 512 = vpn vb mod 512"
    by (simp_all add: same_page_def index_vpn)
  have top: "q div 0x40000 < 256 \<or> 0x1FFFF00 \<le> q div 0x40000 \<and> q div 0x40000 < 0x2000000"
    if "q < 0x80000000000" "q < 0x4000000 \<or> 0x7FFFC000000 \<le> q" for q :: nat
    using that by (auto simp: less_mult_imp_div_less less_eq_div_iff_mult_less_eq)
  have "vpn va div 0x40000 = vpn vb div 0x40000"
    using top_inj [OF _ _ i(1)] top [OF vpn_less [of va]] top [OF vpn_less [of vb]] assms by (simp only: canonical_vpn)
  then have "vpn va div 512 div 512 = vpn vb div 512 div 512" by (simp flip: div_mult2_eq)
  then have "vpn va div 512 = vpn vb div 512" using i(2) by (metis div_mult_mod_eq)
  then show "vpn va = vpn vb" using i(3) by (metis div_mult_mod_eq)
qed (simp add: same_page_def index_vpn)

definition page_frame :: "u64 \<Rightarrow> bool" where
  "page_frame f = (f AND 0xfff = 0 \<and> f < 0x40000000)"

lemma bit_page_frame: assumes "page_frame f" "bit f n" shows "12 \<le> n \<and> n < 30"
proof
  have m: "(0xfff :: u64) = mask 12" by (simp add: mask_eq_exp_minus_1)
  show "12 \<le> n"
  proof (rule ccontr)
    assume "\<not> 12 \<le> n"
    then have "bit (f AND 0xfff) n" using assms(2) by (simp add: m bit_and_iff bit_mask_iff bit_imp_le_length)
    then show False using assms(1) by (simp add: page_frame_def)
  qed
  have "take_bit 30 f = f" using assms(1)
    by (simp add: page_frame_def word_unat_eq_iff take_bit_eq_mod word_less_nat_alt unat_mod)
  then show "n < 30" using assms(2) by (metis bit_take_bit_iff)
qed

lemma one_bit: "bit (1 :: u64) n \<longleftrightarrow> n = 0" by (simp add: bit_1_iff)

lemma present_bit: "present e \<longleftrightarrow> bit e 0"
  using and_exp_eq_0_iff_not_bit [of e 0] by (simp add: present_def)

lemma large_bit: "e AND 128 = 0 \<longleftrightarrow> \<not> bit e 7" for e :: u64
  using and_exp_eq_0_iff_not_bit [of e 7] by simp

lemma page_frame_ent [simp]:
  assumes "page_frame f"
  shows "get_ent_addr (f OR 1) = f" "ent_frame (f OR 1) = f" "ent_frame f = f" "present (f OR 1)" "(f OR 1) AND 128 = 0"
proof -
  have m: "(0xfff :: u64) = mask 12" "(0x000FFFFFFFFFF000 :: u64) = push_bit 12 (mask 40)"
    by (simp_all add: mask_eq_exp_minus_1)
  show "get_ent_addr (f OR 1) = f"
    by (rule bit_eqI) (use bit_page_frame [OF assms] in \<open>fastforce simp: get_ent_addr_def PAGE_START_def m bit_simps one_bit\<close>)
  show "ent_frame (f OR 1) = f" "ent_frame f = f"
    by (rule bit_eqI, use bit_page_frame [OF assms] in \<open>fastforce simp: ent_frame_def m bit_simps one_bit\<close>)+
  show "present (f OR 1)" by (simp add: present_bit bit_simps)
  show "(f OR 1) AND 128 = 0" using bit_page_frame [OF assms, of 7] by (auto simp: large_bit bit_simps one_bit)
qed

section \<open>Tables in memory\<close>

text \<open>
  What a frame is used for.  The three levels of tables never share a frame, and a table is reached
  from one place only.
\<close>

datatype frame_use = Free | Root | Pdp nat | Pdir nat nat

definition pt_inv :: "(u64 \<Rightarrow> nat \<Rightarrow> u64) \<Rightarrow> u64 \<Rightarrow> (u64 \<Rightarrow> frame_use) \<Rightarrow> u64 \<Rightarrow> bool" where
  "pt_inv m P own c =
     (own P = Root
      \<and> (\<forall>i. present (m P i) \<longrightarrow> (\<exists>d. m P i = d OR 1 \<and> page_frame d \<and> own d = Pdp i))
      \<and> (\<forall>d i j. own d = Pdp i \<longrightarrow> present (m d j) \<longrightarrow> (\<exists>e. m d j = e OR 1 \<and> page_frame e \<and> own e = Pdir i j))
      \<and> (\<forall>f \<ge> c. own f = Free))"

text \<open>The entry of the page directory for an address, 0 where a table is missing.\<close>

definition pd_ent :: "(u64 \<Rightarrow> nat \<Rightarrow> u64) \<Rightarrow> u64 \<Rightarrow> u64 \<Rightarrow> u64" where
  "pd_ent m P va =
     (let e1 = m P (PML4_INDEX va); e2 = m (get_ent_addr e1) (PDPT_INDEX va) in
      if present e1 \<and> present e2 then m (get_ent_addr e2) (PD_INDEX va) else 0)"

text \<open>How many tables are missing for an address.\<close>

definition missing :: "(u64 \<Rightarrow> nat \<Rightarrow> u64) \<Rightarrow> u64 \<Rightarrow> u64 \<Rightarrow> nat" where
  "missing m P va =
     (let e1 = m P (PML4_INDEX va) in
      if \<not> present e1 then 2 else if \<not> present (m (get_ent_addr e1) (PDPT_INDEX va)) then 1 else 0)"

lemma not_present_0 [simp]: "\<not> present 0"
  by (simp add: present_def)

lemma page_frame_inj: "page_frame x \<Longrightarrow> page_frame y \<Longrightarrow> x OR 1 = y OR 1 \<Longrightarrow> x = y"
  using page_frame_ent(1) by metis

lemma pt_inv_D:
  assumes "pt_inv m P own c"
  shows "own P = Root"
    and "present (m P i) \<Longrightarrow> \<exists>d. m P i = d OR 1 \<and> page_frame d \<and> own d = Pdp i"
    and "own d = Pdp i \<Longrightarrow> present (m d j) \<Longrightarrow> \<exists>e. m d j = e OR 1 \<and> page_frame e \<and> own e = Pdir i j"
    and "c \<le> f \<Longrightarrow> own f = Free"
  using assms by (auto simp: pt_inv_def)

text \<open>A new table below the root.\<close>

lemma grow_root:
  assumes inv: "pt_inv m P own c" and no: "\<not> present (m P i)" and n: "c \<le> n" "page_frame n" "n < c'"
    and m': "m' = (m(n := (\<lambda>_. 0)))(P := (m P)(i := n OR 1))"
  shows "pt_inv m' P (own(n := Pdp i)) c'" "pd_ent m' P va = pd_ent m P va" "m' P i = n OR 1" "m' n j = 0"
    "PML4_INDEX va \<noteq> i \<Longrightarrow> missing m' P va = missing m P va"
proof -
  note D = pt_inv_D [OF inv]
  have nF: "own n = Free" using D(4) [OF n(1)] .
  have nP: "n \<noteq> P" using D(1) nF by auto
  have c': "c \<le> f" if "c' \<le> f" for f using that n by simp
  show "pt_inv m' P (own(n := Pdp i)) c'"
    unfolding pt_inv_def
  proof (intro conjI allI impI)
    show "(own(n := Pdp i)) P = Root" using nP D(1) by simp
    show "\<exists>d. m' P k = d OR 1 \<and> page_frame d \<and> (own(n := Pdp i)) d = Pdp k" if pk: "present (m' P k)" for k
    proof (cases "k = i")
      case True
      then show ?thesis using n(2) by (simp add: m') blast
    next
      case False
      then have "m' P k = m P k" by (simp add: m')
      then obtain d where "m' P k = d OR 1" "page_frame d" "own d = Pdp k" using D(2) [of k] pk by auto
      then show ?thesis using nF by (intro exI [of _ d]) auto
    qed
    show "\<exists>e. m' d j = e OR 1 \<and> page_frame e \<and> (own(n := Pdp i)) e = Pdir k j"
      if pk: "(own(n := Pdp i)) d = Pdp k" "present (m' d j)" for d k j
    proof (cases "d = n")
      case True
      then show ?thesis using that nP by (simp add: m')
    next
      case False
      then have "own d = Pdp k" "d \<noteq> P" using that D(1) by auto
      then have "m' d j = m d j" using False by (simp add: m')
      then obtain e where "m' d j = e OR 1" "page_frame e" "own e = Pdir k j"
        using D(3) [OF \<open>own d = Pdp k\<close>, of j] pk(2) by auto
      then show ?thesis using nF by (intro exI [of _ e]) auto
    qed
    show "(own(n := Pdp i)) f = Free" if "c' \<le> f" for f using that D(4) [OF c' [OF that]] n(3) by auto
  qed
  show "m' P i = n OR 1" "m' n j = 0" using nP by (simp_all add: m')
  have other: "m' P (PML4_INDEX va) = m P (PML4_INDEX va)
      \<and> (present (m P (PML4_INDEX va)) \<longrightarrow> (\<exists>d. get_ent_addr (m P (PML4_INDEX va)) = d \<and> own d = Pdp (PML4_INDEX va) \<and> m' d = m d))"
    if "PML4_INDEX va \<noteq> i"
    using that D(1) nF D(2) [of "PML4_INDEX va"] by (auto simp: m')
  show "PML4_INDEX va \<noteq> i \<Longrightarrow> missing m' P va = missing m P va"
    using other by (auto simp: missing_def Let_def)
  show "pd_ent m' P va = pd_ent m P va"
  proof (cases "PML4_INDEX va = i")
    case True
    then show ?thesis using no n(2) nP by (simp add: pd_ent_def Let_def m')
  next
    case False
    have leaf: "m' e = m e" if "own e = Pdir a b" for e a b using that D(1) nF by (auto simp: m')
    show ?thesis
    proof (cases "present (m P (PML4_INDEX va))")
      case True
      then obtain d where d: "get_ent_addr (m P (PML4_INDEX va)) = d" "own d = Pdp (PML4_INDEX va)" "m' d = m d"
        using other [OF False] by auto
      then show ?thesis
        using other [OF False] D(3) [OF d(2), of "PDPT_INDEX va"] leaf by (auto simp: pd_ent_def Let_def)
    qed (use other [OF False] in \<open>simp add: pd_ent_def\<close>)
  qed
qed

text \<open>A new page directory.\<close>

lemma grow_pdp:
  assumes inv: "pt_inv m P own c" and d: "present (m P (PML4_INDEX va))" "d = get_ent_addr (m P (PML4_INDEX va))"
    and no: "\<not> present (m d (PDPT_INDEX va))" and n: "c \<le> n" "page_frame n" "n < c'"
    and m': "m' = (m(n := (\<lambda>_. 0)))(d := (m d)(PDPT_INDEX va := n OR 1))"
  shows "pt_inv m' P (own(n := Pdir (PML4_INDEX va) (PDPT_INDEX va))) c'" "pd_ent m' P va' = pd_ent m P va'"
    "m' P = m P" "m' d (PDPT_INDEX va) = n OR 1"
    "PML4_INDEX va' \<noteq> PML4_INDEX va \<Longrightarrow> missing m' P va' = missing m P va'"
proof -
  let ?i = "PML4_INDEX va" and ?j = "PDPT_INDEX va"
  let ?own = "own(n := Pdir ?i ?j)"
  note D = pt_inv_D [OF inv]
  have od: "own d = Pdp ?i" "m P ?i = d OR 1" "page_frame d" using D(2) [OF d(1)] d(2) by auto
  have nF: "own n = Free" using D(4) [OF n(1)] .
  have ne: "n \<noteq> P" "n \<noteq> d" "d \<noteq> P" using D(1) od nF by auto
  have c': "c \<le> f" if "c' \<le> f" for f using that n by simp
  show mP: "m' P = m P" and mj: "m' d ?j = n OR 1" using ne by (simp_all add: m')
  have pdp: "m' x = m x" if "own x = Pdp k" "k \<noteq> ?i" for x k using that od nF by (auto simp: m')
  have leaf: "m' e = m e" if "own e = Pdir a b" for e a b using that od nF by (auto simp: m')
  show "pt_inv m' P ?own c'"
    unfolding pt_inv_def
  proof (intro conjI allI impI)
    show "?own P = Root" using ne D(1) by simp
    show "\<exists>x. m' P k = x OR 1 \<and> page_frame x \<and> ?own x = Pdp k" if "present (m' P k)" for k
      using that D(2) [of k] nF by (fastforce simp: mP)
    show "\<exists>e. m' x b = e OR 1 \<and> page_frame e \<and> ?own e = Pdir k b" if "?own x = Pdp k" "present (m' x b)" for x k b
    proof (cases "x = d \<and> b = ?j")
      case True
      then show ?thesis using that od n(2) ne mj by auto
    next
      case False
      have "own x = Pdp k" "m' x b = m x b" using that False by (auto simp: m' split: if_splits)
      then show ?thesis using that D(3) [of x k b] nF by fastforce
    qed
    show "?own f = Free" if "c' \<le> f" for f using that D(4) [OF c' [OF that]] n(3) by auto
  qed
  have other: "PML4_INDEX va' \<noteq> ?i \<Longrightarrow> present (m P (PML4_INDEX va')) \<Longrightarrow>
      m' (get_ent_addr (m P (PML4_INDEX va'))) = m (get_ent_addr (m P (PML4_INDEX va')))"
    using D(2) [of "PML4_INDEX va'"] pdp by fastforce
  show "PML4_INDEX va' \<noteq> ?i \<Longrightarrow> missing m' P va' = missing m P va'"
    using other by (auto simp: missing_def Let_def mP)
  show "pd_ent m' P va' = pd_ent m P va'"
  proof (cases "present (m P (PML4_INDEX va'))")
    case True
    then obtain x where x: "m P (PML4_INDEX va') = x OR 1" "page_frame x" "own x = Pdp (PML4_INDEX va')" using D(2) by blast
    show ?thesis
    proof (cases "x = d \<and> PDPT_INDEX va' = ?j")
      case True
      then show ?thesis using x no n(2) ne mj by (simp add: pd_ent_def Let_def mP m')
    next
      case False
      have "m' x (PDPT_INDEX va') = m x (PDPT_INDEX va')" using False x(3) nF by (auto simp: m')
      then show ?thesis using x D(3) [OF x(3), of "PDPT_INDEX va'"] leaf by (auto simp: pd_ent_def Let_def mP)
    qed
  qed (simp add: pd_ent_def mP)
qed

text \<open>An entry of a page directory.\<close>

lemma set_leaf:
  assumes inv: "pt_inv m P own c" and d: "present (m P (PML4_INDEX va))" "d = get_ent_addr (m P (PML4_INDEX va))"
    and e: "present (m d (PDPT_INDEX va))" "e = get_ent_addr (m d (PDPT_INDEX va))"
    and m': "m' = m(e := (m e)(PD_INDEX va := v))"
  shows "pt_inv m' P own c" "pd_ent m' P va' = (if same_page va' va then v else pd_ent m P va')"
    "missing m' P va' = missing m P va'" "missing m P va = 0"
proof -
  let ?i = "PML4_INDEX va" and ?j = "PDPT_INDEX va"
  note D = pt_inv_D [OF inv]
  have od: "own d = Pdp ?i" "m P ?i = d OR 1" "page_frame d" using D(2) [OF d(1)] d(2) by auto
  have oe: "own e = Pdir ?i ?j" "m d ?j = e OR 1" "page_frame e" using D(3) [OF od(1) e(1)] e(2) by auto
  have up: "m' P = m P" "own x = Pdp k \<Longrightarrow> m' x = m x" for x k using D(1) oe by (auto simp: m')
  show "pt_inv m' P own c" using inv up by (auto simp: pt_inv_def)
  show "missing m P va = 0" using d e by (simp add: missing_def Let_def)
  have mid: "present (m P (PML4_INDEX va')) \<Longrightarrow> m' (get_ent_addr (m P (PML4_INDEX va'))) = m (get_ent_addr (m P (PML4_INDEX va')))"
    using D(2) [of "PML4_INDEX va'"] up(2) by fastforce
  show "missing m' P va' = missing m P va'" using mid by (auto simp: missing_def Let_def up(1))
  show "pd_ent m' P va' = (if same_page va' va then v else pd_ent m P va')"
  proof (cases "present (m P (PML4_INDEX va'))")
    case True
    then obtain x where x: "m P (PML4_INDEX va') = x OR 1" "page_frame x" "own x = Pdp (PML4_INDEX va')" using D(2) by blast
    have xd: "x = d" if "PML4_INDEX va' = ?i"
      using that x(1) od(2) by (intro page_frame_inj [OF x(2) od(3)]) simp
    show ?thesis
    proof (cases "present (m x (PDPT_INDEX va'))")
      case True
      then obtain y where y: "m x (PDPT_INDEX va') = y OR 1" "page_frame y" "own y = Pdir (PML4_INDEX va') (PDPT_INDEX va')"
        using D(3) [OF x(3)] by blast
      have ye: "y = e" if "PML4_INDEX va' = ?i" "PDPT_INDEX va' = ?j"
        using that xd y(1) oe(2) by (intro page_frame_inj [OF y(2) oe(3)]) simp
      have "y = e \<longleftrightarrow> PML4_INDEX va' = ?i \<and> PDPT_INDEX va' = ?j" using ye y(3) oe(1) by auto
      moreover have "pd_ent m P va' = m y (PD_INDEX va')" using x(1,2) y(1,2) by (simp add: pd_ent_def Let_def)
      moreover have "pd_ent m' P va' = m' y (PD_INDEX va')"
        using x(1,2) y(1,2) mid by (simp add: pd_ent_def Let_def up(1))
      ultimately show ?thesis by (cases "y = e") (auto simp: same_page_def m')
    next
      case False
      then have "\<not> same_page va' va" using xd e(1) by (auto simp: same_page_def)
      then show ?thesis using False x mid by (simp add: pd_ent_def Let_def up(1))
    qed
  next
    case False
    then have "\<not> same_page va' va" using d by (auto simp: same_page_def)
    then show ?thesis using False by (simp add: pd_ent_def Let_def up(1))
  qed
qed

section \<open>Running\<close>

lemma page_offset: "unat (x AND 0xfff) = unat x mod 4096" for x :: u64
proof -
  have "(0xfff :: u64) = mask 12" by (simp add: mask_eq_exp_minus_1)
  then show ?thesis by (simp only: take_bit_eq_mask [symmetric] unsigned_take_bit_eq) (simp add: take_bit_eq_mod)
qed

lemma page_aligned: "x AND 0xfff = 0 \<longleftrightarrow> unat x mod 4096 = 0" for x :: u64
  by (simp add: page_offset flip: unat_eq_zero)

definition vma_ok :: "u64 \<Rightarrow> bool" where
  "vma_ok vma = (vma = 0 \<or> vma = 0xFFFF800000000000)"

lemma vma_add:
  assumes "vma_ok vma" "unat c < 0x80000000"
  shows "unat (c + vma) = unat c + unat vma"
  using assms by (auto simp: vma_ok_def unat_word_ariths)

lemma boot_frame_page [simp]:
  assumes "vma_ok vma" "page_frame f"
  shows "boot_frame vma f = Some f" "boot_frame vma (f + vma) = Some f"
proof -
  have f: "unat f < 0x40000000" using assms by (simp add: page_frame_def word_less_nat_alt)
  show "boot_frame vma f = Some f" using assms by (simp add: boot_frame_def page_frame_def)
  have a: "(f + 0xFFFF800000000000) AND 0xfff = 0"
    using assms f vma_add [of "0xFFFF800000000000" f]
    by (simp add: page_aligned vma_ok_def page_frame_def mod_add_eq [symmetric, of _ "18446603336221196288"])
  have g: "\<not> f + 0xFFFF800000000000 < 0x40000000" "0xFFFF800000000000 \<le> f + 0xFFFF800000000000"
    using f vma_add [of "0xFFFF800000000000" f] by (simp_all add: vma_ok_def word_less_nat_alt word_le_nat_alt)
  show "boot_frame vma (f + vma) = Some f"
    using assms a g by (auto simp: boot_frame_def page_frame_def vma_ok_def)
qed

text \<open>The heap has room for \<open>k\<close> more tables; \<open>c\<close> is the physical address of the next one.\<close>

definition heap_room :: "u64 \<Rightarrow> kernel_heap \<Rightarrow> u64 \<Rightarrow> nat \<Rightarrow> bool" where
  "heap_room vma h c k =
     (kh_cur h = c + vma \<and> c AND 0xfff = 0 \<and> c \<noteq> 0 \<and> kh_start h \<le> kh_cur h
      \<and> kh_end h - vma \<le> KERN_PHY_MAX \<and> unat c + 4096 * k < unat (kh_end h - vma))"

lemma heap_room_le: "heap_room vma h c k \<Longrightarrow> j \<le> k \<Longrightarrow> heap_room vma h c j"
  by (auto simp: heap_room_def)

lemma heap_room_frame: "heap_room vma h c k \<Longrightarrow> page_frame c"
  by (auto simp: heap_room_def page_frame_def word_less_nat_alt word_le_nat_alt)

lemma new_table_ok:
  assumes v: "vma_ok vma" and h: "heap_room vma (km_heap s) c (Suc k)"
  shows "\<exists>h'. runs (new_table vma) s c (s\<lparr>km_heap := h', km_mem := (km_mem s)(c := (\<lambda>_. 0))\<rparr>)
      \<and> heap_room vma h' (c + 4096) k" "c < c + 4096"
proof -
  let ?h = "km_heap s"
  have c: "unat c + 4096 * k + 4096 < unat (kh_end ?h - vma)" "unat (kh_end ?h - vma) \<le> 0x40000000" "c AND 0xfff = 0"
    using h by (auto simp: heap_room_def word_le_nat_alt)
  have c4: "unat (c + 4096) = unat c + 4096" using c by (simp add: unat_word_ariths)
  then show "c < c + 4096" by (simp add: word_less_nat_alt)
  have e: "unat (kh_end ?h) = unat (kh_end ?h - vma) + unat vma"
    using vma_add [OF v, of "kh_end ?h - vma"] c by simp
  have cur: "unat (kh_cur ?h) = unat c + unat vma" "unat (kh_cur ?h + 4096) = unat c + 4096 + unat vma"
    using h vma_add [OF v, of c] vma_add [OF v, of "c + 4096"] c c4 by (simp_all add: heap_room_def algebra_simps)
  have fits: "\<not> (kh_cur ?h + 4096 < kh_start ?h \<or> kh_end ?h \<le> kh_cur ?h + 4096)"
    using h c cur e by (simp add: heap_room_def word_less_nat_alt word_le_nat_alt)
  have ne: "kh_cur ?h \<noteq> - 1" using cur(2) by auto
  have nz: "kh_cur ?h \<noteq> 0"
    using h cur(1) by (auto simp: heap_room_def) (metis unat_0 add_is_0 unat_eq_zero)
  have a: "(c + 4096) AND 0xfff = 0" using c(3) c4 by (simp add: page_aligned)
  have bf: "boot_frame vma (kh_cur ?h) = Some c"
    using h heap_room_frame [OF h] v by (simp add: heap_room_def)
  have "heap_room vma (?h\<lparr>kh_cur := kh_cur ?h + 4096\<rparr>) (c + 4096) k"
    using h a c c4 cur fits by (auto simp: heap_room_def word_le_nat_alt)
  moreover have "runs (new_table vma) s c
      (s\<lparr>km_heap := ?h\<lparr>kh_cur := kh_cur ?h + 4096\<rparr>, km_mem := (km_mem s)(c := (\<lambda>_. 0))\<rparr>)"
    using fits ne nz bf h
    by (simp add: new_table_def kheap_sbrk_def mrun clear_page_def KERN_STRAIGHT_TO_PHY_def heap_room_def)
  ultimately show "\<exists>h'. runs (new_table vma) s c (s\<lparr>km_heap := h', km_mem := (km_mem s)(c := (\<lambda>_. 0))\<rparr>)
      \<and> heap_room vma h' (c + 4096) k" by blast
qed

text \<open>The two steps that make a table where it is missing.\<close>

definition pdp_step :: "u64 \<Rightarrow> u64 \<Rightarrow> u64 \<Rightarrow> u64 kmm" where
  "pdp_step vma vaddr kpgtbl =
     mbind (get_pml4_ent vma kpgtbl vaddr) (\<lambda>ent1.
       if \<not> present ent1
       then mbind (new_table vma) (\<lambda>pdp_addr.
            mthen (set_pml4_ent vma kpgtbl vaddr (pdp_addr OR PAGE_PRESENT)) (mret pdp_addr))
       else mret (get_ent_addr ent1))"

definition pdir_step :: "u64 \<Rightarrow> u64 \<Rightarrow> u64 \<Rightarrow> u64 kmm" where
  "pdir_step vma vaddr pdp_addr =
     mbind (get_pdp_ent vma pdp_addr vaddr) (\<lambda>ent2.
       if \<not> present ent2
       then mbind (new_table vma) (\<lambda>pdir_addr.
            mthen (set_pdp_ent vma pdp_addr vaddr (pdir_addr OR PAGE_PRESENT)) (mret pdir_addr))
       else mret (get_ent_addr ent2))"

definition leaf :: "u64 \<Rightarrow> u64 \<Rightarrow> u64" where
  "leaf paddr page_attr = KERN_STRAIGHT_PAGE_START paddr OR (page_attr AND (PAGE_SIZE - 1)) OR PAGE_PRESENT OR PAGE_2MB"

lemma map_kernel_page_steps:
  "map_kernel_page vma paddr vaddr page_attr kpgtbl =
     mbind (pdp_step vma vaddr kpgtbl) (\<lambda>pdp_addr.
     mbind (pdir_step vma vaddr (pdp_addr + vma)) (\<lambda>pdir_addr.
     mbind (get_pdir_ent vma (pdir_addr + vma) vaddr) (\<lambda>ent3.
     mthen (massert (\<not> present ent3)) (set_pdir_ent vma (pdir_addr + vma) vaddr (leaf paddr page_attr)))))"
  by (simp add: map_kernel_page_def pdp_step_def pdir_step_def mbind_assoc PHY_TO_KERN_STRAIGHT_def Let_def leaf_def)

text \<open>What a step leaves: the invariant, room for the rest, every page as it was.\<close>

definition pg_ok :: "u64 \<Rightarrow> u64 \<Rightarrow> kmst \<Rightarrow> nat \<Rightarrow> bool" where
  "pg_ok vma P s k = (\<exists>own c. pt_inv (km_mem s) P own c \<and> heap_room vma (km_heap s) c k)"

definition pg_keep :: "u64 \<Rightarrow> u64 \<Rightarrow> kmst \<Rightarrow> kmst \<Rightarrow> bool" where
  "pg_keep P va s s' =
     ((\<forall>va'. pd_ent (km_mem s') P va' = pd_ent (km_mem s) P va')
      \<and> (\<forall>va'. PML4_INDEX va' \<noteq> PML4_INDEX va \<longrightarrow> missing (km_mem s') P va' = missing (km_mem s) P va')
      \<and> km_cr3 s' = km_cr3 s)"

lemma pg_keep_trans: "pg_keep P va s s' \<Longrightarrow> pg_keep P va s' s'' \<Longrightarrow> pg_keep P va s s''"
  by (simp add: pg_keep_def)

lemma pg_keep_refl [simp]: "pg_keep P va s s"
  by (simp add: pg_keep_def)

lemma pdp_step_ok:
  assumes v: "vma_ok vma" "page_frame P" and ok: "pg_ok vma P s (missing (km_mem s) P va + k)"
  shows "\<exists>d s'. runs (pdp_step vma va P) s d s' \<and> pg_ok vma P s' (missing (km_mem s') P va + k) \<and> pg_keep P va s s'
    \<and> present (km_mem s' P (PML4_INDEX va)) \<and> d = get_ent_addr (km_mem s' P (PML4_INDEX va)) \<and> page_frame d"
proof (cases "present (km_mem s P (PML4_INDEX va))")
  case True
  obtain own c where inv: "pt_inv (km_mem s) P own c" using ok by (auto simp: pg_ok_def)
  have "page_frame (get_ent_addr (km_mem s P (PML4_INDEX va)))" using pt_inv_D(2) [OF inv True] by auto
  moreover have "runs (pdp_step vma va P) s (get_ent_addr (km_mem s P (PML4_INDEX va))) s"
    using True v by (simp add: pdp_step_def get_pml4_ent_def tbl_read_def mrun)
  ultimately show ?thesis using ok True pg_keep_refl by blast
next
  case False
  have m2: "missing (km_mem s) P va = 2" using False by (simp add: missing_def)
  obtain own c where inv: "pt_inv (km_mem s) P own c" and h: "heap_room vma (km_heap s) c (Suc (Suc k))"
    using ok by (auto simp: pg_ok_def m2)
  obtain h' where nt: "runs (new_table vma) s c (s\<lparr>km_heap := h', km_mem := (km_mem s)(c := (\<lambda>_. 0))\<rparr>)"
    and h': "heap_room vma h' (c + 4096) (Suc k)" using new_table_ok(1) [OF v(1) h] by blast
  note c = heap_room_frame [OF h] new_table_ok(2) [OF v(1) h]
  have cP: "c \<noteq> P" using pt_inv_D(1,4) [OF inv] by auto
  define m' where m': "m' = ((km_mem s)(c := (\<lambda>_. 0)))(P := (km_mem s P)(PML4_INDEX va := c OR 1))"
  note g = grow_root [OF inv False order_refl c m']
  let ?s = "s\<lparr>km_heap := h', km_mem := m'\<rparr>"
  have r: "runs (pdp_step vma va P) s c ?s"
    unfolding pdp_step_def using v False cP
    by (intro runs_mbindI [of _ _ "km_mem s P (PML4_INDEX va)" s])
      (simp_all add: get_pml4_ent_def set_pml4_ent_def tbl_read_def tbl_write_def mrun m' runs_iff [OF nt])
  have "missing m' P va \<le> 1" using g(3) c by (simp add: missing_def Let_def)
  then have "pg_ok vma P ?s (missing (km_mem ?s) P va + k)"
    unfolding pg_ok_def using g(1) heap_room_le [OF h'] by fastforce
  moreover have "pg_keep P va s ?s" using g(2,5) by (simp add: pg_keep_def)
  ultimately show ?thesis using r g(3) c by (intro exI [of _ c] exI [of _ ?s]) simp
qed

lemma pdir_step_ok:
  assumes v: "vma_ok vma" and ok: "pg_ok vma P s (missing (km_mem s) P va + k)"
    and d: "present (km_mem s P (PML4_INDEX va))" "d = get_ent_addr (km_mem s P (PML4_INDEX va))"
  shows "\<exists>e s'. runs (pdir_step vma va (d + vma)) s e s' \<and> pg_ok vma P s' k \<and> pg_keep P va s s'
    \<and> km_mem s' P = km_mem s P \<and> present (km_mem s' d (PDPT_INDEX va)) \<and> e = get_ent_addr (km_mem s' d (PDPT_INDEX va)) \<and> page_frame e"
proof -
  obtain own c where inv: "pt_inv (km_mem s) P own c" and h0: "heap_room vma (km_heap s) c (missing (km_mem s) P va + k)"
    using ok by (auto simp: pg_ok_def)
  have od: "own d = Pdp (PML4_INDEX va)" "page_frame d" using pt_inv_D(2) [OF inv d(1)] d(2) by auto
  show ?thesis
  proof (cases "present (km_mem s d (PDPT_INDEX va))")
    case True
    have "page_frame (get_ent_addr (km_mem s d (PDPT_INDEX va)))" using pt_inv_D(3) [OF inv od(1) True] by auto
    moreover have "runs (pdir_step vma va (d + vma)) s (get_ent_addr (km_mem s d (PDPT_INDEX va))) s"
      using True v od by (simp add: pdir_step_def get_pdp_ent_def tbl_read_def mrun)
    moreover have "pg_ok vma P s k" unfolding pg_ok_def using inv heap_room_le [OF h0, of k] by auto
    ultimately show ?thesis using True pg_keep_refl by blast
  next
    case False
    have h: "heap_room vma (km_heap s) c (Suc k)" using h0 False d by (simp add: missing_def Let_def)
    obtain h' where nt: "runs (new_table vma) s c (s\<lparr>km_heap := h', km_mem := (km_mem s)(c := (\<lambda>_. 0))\<rparr>)"
      and h': "heap_room vma h' (c + 4096) k" using new_table_ok(1) [OF v h] by blast
    note c = heap_room_frame [OF h] new_table_ok(2) [OF v h]
    have cd: "c \<noteq> d" using od pt_inv_D(4) [OF inv] by auto
    define m' where m': "m' = ((km_mem s)(c := (\<lambda>_. 0)))(d := (km_mem s d)(PDPT_INDEX va := c OR 1))"
    note g = grow_pdp [OF inv d False order_refl c m']
    let ?s = "s\<lparr>km_heap := h', km_mem := m'\<rparr>"
    have r: "runs (pdir_step vma va (d + vma)) s c ?s"
      unfolding pdir_step_def using v False cd od
      by (intro runs_mbindI [of _ _ "km_mem s d (PDPT_INDEX va)" s])
          (simp_all add: get_pdp_ent_def set_pdp_ent_def tbl_read_def tbl_write_def mrun m' runs_iff [OF nt])
    have "pg_ok vma P ?s k" unfolding pg_ok_def using g(1) h' by fastforce
    moreover have "pg_keep P va s ?s" using g(2,5) by (simp add: pg_keep_def)
    ultimately show ?thesis using r g(3,4) c by (intro exI [of _ c] exI [of _ ?s]) simp
  qed
qed

definition pg_put :: "u64 \<Rightarrow> u64 \<Rightarrow> u64 \<Rightarrow> kmst \<Rightarrow> kmst \<Rightarrow> bool" where
  "pg_put P va v s s' =
     ((\<forall>va'. pd_ent (km_mem s') P va' = (if same_page va' va then v else pd_ent (km_mem s) P va'))
      \<and> (\<forall>va'. PML4_INDEX va' \<noteq> PML4_INDEX va \<longrightarrow> missing (km_mem s') P va' = missing (km_mem s) P va')
      \<and> missing (km_mem s') P va = 0 \<and> km_cr3 s' = km_cr3 s)"

lemma map_kernel_page_ok:
  assumes v: "vma_ok vma" "page_frame P" and ok: "pg_ok vma P s (missing (km_mem s) P va + k)"
    and no: "\<not> present (pd_ent (km_mem s) P va)"
  shows "\<exists>s'. runs (map_kernel_page vma pa va attr P) s () s' \<and> pg_ok vma P s' k \<and> pg_put P va (leaf pa attr) s s'"
proof -
  obtain d s1 where 1: "runs (pdp_step vma va P) s d s1" "pg_ok vma P s1 (missing (km_mem s1) P va + k)" "pg_keep P va s s1"
    "present (km_mem s1 P (PML4_INDEX va))" "d = get_ent_addr (km_mem s1 P (PML4_INDEX va))"
    using pdp_step_ok [OF v ok] by blast
  obtain e s2 where 2: "runs (pdir_step vma va (d + vma)) s1 e s2" "pg_ok vma P s2 k" "pg_keep P va s1 s2"
    "km_mem s2 P = km_mem s1 P" "present (km_mem s2 d (PDPT_INDEX va))" "e = get_ent_addr (km_mem s2 d (PDPT_INDEX va))" "page_frame e"
    using pdir_step_ok [OF v(1) 1(2,4,5)] by blast
  obtain own c where inv: "pt_inv (km_mem s2) P own c" and h: "heap_room vma (km_heap s2) c k"
    using 2(2) by (auto simp: pg_ok_def)
  define m' where m': "m' = (km_mem s2)(e := (km_mem s2 e)(PD_INDEX va := leaf pa attr))"
  let ?s = "s2\<lparr>km_mem := m'\<rparr>"
  have d2: "present (km_mem s2 P (PML4_INDEX va))" "d = get_ent_addr (km_mem s2 P (PML4_INDEX va))" using 1 2 by simp_all
  note g = set_leaf [OF inv d2 2(5,6) m']
  note k = pg_keep_trans [OF 1(3) 2(3)]
  have "pd_ent (km_mem s2) P va = km_mem s2 e (PD_INDEX va)" using d2 2 by (simp add: pd_ent_def Let_def)
  then have np: "\<not> present (km_mem s2 e (PD_INDEX va))" using no k by (simp add: pg_keep_def)
  have "runs (map_kernel_page vma pa va attr P) s () ?s"
    unfolding map_kernel_page_steps
    by (rule runs_mbindI [OF 1(1)], rule runs_mbindI [OF 2(1)])
      (use v 2(7) np in \<open>simp add: get_pdir_ent_def set_pdir_ent_def tbl_read_def tbl_write_def mrun m'\<close>)
  moreover have "pg_ok vma P ?s k" using g(1) h by (auto simp: pg_ok_def)
  moreover have "pg_put P va (leaf pa attr) s ?s" using g(2-4) k by (simp add: pg_put_def pg_keep_def)
  ultimately show ?thesis by blast
qed

section \<open>Ranges of pages\<close>

lemma vpn_next:
  assumes "unat va + 0x200000 < 2 ^ 64"
  shows "unat (va + 0x200000) = unat va + 0x200000" "vpn (va + 0x200000) = Suc (vpn va)"
proof -
  show a: "unat (va + 0x200000) = unat va + 0x200000" using assms by (simp add: unat_word_ariths)
  show "vpn (va + 0x200000) = Suc (vpn va)" by (simp add: vpn_def a)
qed

lemma block_next:
  fixes q :: nat
  assumes "q mod 512 + 1 < 512"
  shows "Suc q div 512 = q div 512" "Suc q mod 512 = Suc (q mod 512)"
proof -
  have m: "Suc q mod 512 = Suc (q mod 512)" using assms by (simp add: mod_Suc)
  then show "Suc q mod 512 = Suc (q mod 512)" .
  show "Suc q div 512 = q div 512" using assms by (simp add: div_Suc m)
qed

lemma same_block:
  assumes "vpn va div 512 = vpn vb div 512"
  shows "PML4_INDEX va = PML4_INDEX vb" "PDPT_INDEX va = PDPT_INDEX vb" "missing m P va = missing m P vb"
    "canonical va = canonical vb"
proof -
  have "vpn x div 0x40000 = vpn x div 512 div 512" for x by (simp flip: div_mult2_eq)
  then show i: "PML4_INDEX va = PML4_INDEX vb" "PDPT_INDEX va = PDPT_INDEX vb"
    using assms by (simp_all add: index_vpn)
  show "missing m P va = missing m P vb" by (simp add: missing_def Let_def i)
  have "q < 0x4000000 \<longleftrightarrow> q div 512 < 0x20000" "0x7FFFC000000 \<le> q \<longleftrightarrow> 0x3FFFE0000 \<le> q div 512" for q :: nat
    by (auto simp: div_less_iff_less_mult less_eq_div_iff_mult_less_eq)
  then show "canonical va = canonical vb" unfolding canonical_vpn using assms by simp
qed

definition pg_range :: "u64 \<Rightarrow> u64 \<Rightarrow> nat \<Rightarrow> u64 \<Rightarrow> u64 \<Rightarrow> kmst \<Rightarrow> kmst \<Rightarrow> bool" where
  "pg_range P va n pa attr s s' =
     ((\<forall>va'. canonical va' \<longrightarrow> pd_ent (km_mem s') P va' =
          (if vpn va \<le> vpn va' \<and> vpn va' < vpn va + n then leaf (pa + of_nat (vpn va' - vpn va) * 0x200000) attr
           else pd_ent (km_mem s) P va'))
      \<and> (\<forall>va'. PML4_INDEX va' \<noteq> PML4_INDEX va \<longrightarrow> missing (km_mem s') P va' = missing (km_mem s) P va')
      \<and> km_cr3 s' = km_cr3 s)"

lemma pg_ok_le: "pg_ok vma P s k \<Longrightarrow> j \<le> k \<Longrightarrow> pg_ok vma P s j"
  unfolding pg_ok_def using heap_room_le by blast

lemma pg_range_1:
  assumes "pg_put P va (leaf pa attr) s s'" "canonical va"
  shows "pg_range P va 1 pa attr s s'"
  using assms same_page_iff [of _ va] by (auto simp: pg_range_def pg_put_def)

lemma pg_range_add:
  assumes p: "pg_put P va (leaf pa attr) s s1" and r: "pg_range P (va + 0x200000) n (pa + 0x200000) attr s1 s'"
    and va: "unat va + 0x200000 < 2 ^ 64" "canonical va" and b: "vpn (va + 0x200000) div 512 = vpn va div 512"
  shows "pg_range P va (Suc n) pa attr s s'"
proof -
  note vn = vpn_next(2) [OF va(1)]
  have "pd_ent (km_mem s') P va' =
      (if vpn va \<le> vpn va' \<and> vpn va' < vpn va + Suc n then leaf (pa + of_nat (vpn va' - vpn va) * 0x200000) attr
       else pd_ent (km_mem s) P va')" if c: "canonical va'" for va'
  proof -
    have 1: "pd_ent (km_mem s1) P va' = (if vpn va' = vpn va then leaf pa attr else pd_ent (km_mem s) P va')"
      using p same_page_iff [OF c va(2)] by (simp add: pg_put_def)
    have 2: "pd_ent (km_mem s') P va' =
        (if Suc (vpn va) \<le> vpn va' \<and> vpn va' < Suc (vpn va) + n
         then leaf (pa + 0x200000 + of_nat (vpn va' - Suc (vpn va)) * 0x200000) attr else pd_ent (km_mem s1) P va')"
      using r c by (simp add: pg_range_def vn)
    show ?thesis
    proof (cases "Suc (vpn va) \<le> vpn va' \<and> vpn va' < Suc (vpn va) + n")
      case True
      then obtain k where "vpn va' = Suc (vpn va) + k" by (auto simp: le_iff_add)
      then show ?thesis using 2 True by (simp add: algebra_simps)
    next
      case False
      then show ?thesis using 1 2 by (cases "vpn va' = vpn va") auto
    qed
  qed
  then show ?thesis
    using p r same_block(1) [OF b] by (simp add: pg_range_def pg_put_def)
qed

lemma map_pages_unfold:
  "map_pages vma cur_page cur_vaddr last_addr attr kpgtbl =
     (if cur_page \<le> last_addr
      then mthen (map_kernel_page vma cur_page cur_vaddr attr kpgtbl)
        (map_pages vma (cur_page + 0x200000) (cur_vaddr + 0x200000) last_addr attr kpgtbl)
      else mret ())"
proof
  fix s
  let ?r = "map_kernel_page vma cur_page cur_vaddr attr kpgtbl s"
  show "map_pages vma cur_page cur_vaddr last_addr attr kpgtbl s = (if cur_page \<le> last_addr
      then mthen (map_kernel_page vma cur_page cur_vaddr attr kpgtbl)
        (map_pages vma (cur_page + 0x200000) (cur_vaddr + 0x200000) last_addr attr kpgtbl)
      else mret ()) s"
  proof (cases "cur_page \<le> last_addr")
    case True
    show ?thesis
    proof (cases ?r)
      case (Ok x)
      then show ?thesis using True
        by (cases x) (simp add: map_pages_def while_option_unfold [of _ _ "(cur_page, cur_vaddr, Ok ((), s))"] mthen_def mbind_def)
    next
      case (Stop e)
      then show ?thesis using True
        by (simp add: map_pages_def while_option_unfold [of _ _ "(cur_page, cur_vaddr, Ok ((), s))"]
            while_option_unfold [of _ _ "(cur_page + 0x200000, cur_vaddr + 0x200000, Stop e)"] mthen_def mbind_def)
    qed
  next
    case False
    then show ?thesis by (simp add: map_pages_def while_option_unfold mret_def)
  qed
qed

lemma map_pages_ok:
  assumes v: "vma_ok vma" "page_frame P"
  shows "0 < n \<Longrightarrow> pg_ok vma P s (missing (km_mem s) P va + k) \<Longrightarrow> unat last_addr + 1 = unat pa + n * 0x200000 \<Longrightarrow>
    unat pa + n * 0x200000 < 2 ^ 64 \<Longrightarrow> unat va + n * 0x200000 < 2 ^ 64 \<Longrightarrow> vpn va mod 512 + n \<le> 512 \<Longrightarrow> canonical va \<Longrightarrow>
    (\<And>va'. canonical va' \<Longrightarrow> vpn va \<le> vpn va' \<Longrightarrow> vpn va' < vpn va + n \<Longrightarrow> \<not> present (pd_ent (km_mem s) P va')) \<Longrightarrow>
    \<exists>s'. runs (map_pages vma pa va last_addr attr P) s () s' \<and> pg_ok vma P s' k \<and> pg_range P va n pa attr s s'"
proof (induction n arbitrary: s va pa)
  case (Suc n)
  note vn = vpn_next [of va] and pn = vpn_next(1) [of pa]
  have no: "\<not> present (pd_ent (km_mem s) P va)" using Suc.prems(7,8) by simp
  obtain s1 where 1: "runs (map_kernel_page vma pa va attr P) s () s1" "pg_ok vma P s1 k" "pg_put P va (leaf pa attr) s s1"
    using map_kernel_page_ok [OF v Suc.prems(2) no] by blast
  have le: "pa \<le> last_addr" using Suc.prems(3) by (simp add: word_le_nat_alt)
  have nx: "unat pa + 0x200000 < 2 ^ 64" "unat va + 0x200000 < 2 ^ 64" using Suc.prems by auto
  have step: "runs (map_pages vma pa va last_addr attr P) s () s'"
    if "runs (map_pages vma (pa + 0x200000) (va + 0x200000) last_addr attr P) s1 () s'" for s'
    by (subst map_pages_unfold) (use le nx that in \<open>simp add: runs_mthenI [OF 1(1)]\<close>)
  show ?case
  proof (cases "n = 0")
    case True
    have "\<not> pa + 0x200000 \<le> last_addr" using Suc.prems(3) True vpn_next(1) [OF nx(1)] by (simp add: word_le_nat_alt)
    then have "runs (map_pages vma (pa + 0x200000) (va + 0x200000) last_addr attr P) s1 () s1"
      by (subst map_pages_unfold) (simp add: mrun)
    then show ?thesis using step 1 pg_range_1 [OF 1(3) Suc.prems(7)] True by auto
  next
    case False
    have b: "Suc (vpn va) div 512 = vpn va div 512" "Suc (vpn va) mod 512 = Suc (vpn va mod 512)"
      using block_next [of "vpn va"] Suc.prems(6) False by auto
    have blk: "vpn (va + 0x200000) div 512 = vpn va div 512" using b vpn_next(2) [OF nx(2)] by simp
    have m0: "missing (km_mem s1) P (va + 0x200000) = 0" using same_block(3) [OF blk] 1(3) by (simp add: pg_put_def)
    have "\<exists>s'. runs (map_pages vma (pa + 0x200000) (va + 0x200000) last_addr attr P) s1 () s' \<and> pg_ok vma P s' k
        \<and> pg_range P (va + 0x200000) n (pa + 0x200000) attr s1 s'"
    proof (rule Suc.IH)
      show "pg_ok vma P s1 (missing (km_mem s1) P (va + 0x200000) + k)" using 1(2) m0 by simp
      show "canonical (va + 0x200000)" using same_block(4) [OF blk] Suc.prems(7) by simp
      show "\<not> present (pd_ent (km_mem s1) P va')"
        if "canonical va'" "vpn (va + 0x200000) \<le> vpn va'" "vpn va' < vpn (va + 0x200000) + n" for va'
        using that 1(3) Suc.prems(8) [of va'] same_page_iff [OF that(1) Suc.prems(7)] vpn_next(2) [OF nx(2)]
        by (simp add: pg_put_def)
    qed (use Suc.prems False b vpn_next [OF nx(2)] vpn_next(1) [OF nx(1)] in auto)
    then show ?thesis using step pg_range_add [OF 1(3) _ nx(2) Suc.prems(7) blk] by blast
  qed
qed simp

section \<open>Translation\<close>

lemma large_mask: "(0x1fffff :: u64) = mask 21" "(0x000FFFFFFFFFF000 :: u64) = push_bit 12 (mask 40)"
  by (simp_all add: mask_eq_exp_minus_1)

lemma large_offset: "unat (va AND 0x1fffff) = unat va mod 0x200000" for va :: u64
  by (simp only: large_mask take_bit_eq_mask [symmetric] unsigned_take_bit_eq) (simp add: take_bit_eq_mod)

definition large_frame :: "u64 \<Rightarrow> bool" where
  "large_frame pa = (unat pa mod 0x200000 = 0 \<and> unat pa < 2 ^ 52)"

lemma bit_large_frame:
  assumes "large_frame pa" "bit pa n"
  shows "21 \<le> n \<and> n < 52"
proof
  show "21 \<le> n"
  proof (rule ccontr)
    assume "\<not> 21 \<le> n"
    then have "bit (pa AND 0x1fffff) n" using assms(2)
      by (simp only: large_mask bit_and_iff bit_mask_iff) (use assms(2) bit_imp_le_length in fastforce)
    moreover have "pa AND 0x1fffff = 0" using large_offset [of pa] assms(1) by (simp add: large_frame_def unat_eq_zero)
    ultimately show False by simp
  qed
  have "take_bit 52 pa = pa" using assms(1)
    by (simp add: large_frame_def word_unat_eq_iff take_bit_eq_mod unat_mod)
  then show "n < 52" using assms(2) by (metis bit_take_bit_iff)
qed

lemma bit_low: "bit (a AND 0xfff) n \<Longrightarrow> n < 12" for a :: u64
proof -
  assume "bit (a AND 0xfff) n"
  moreover have "(0xfff :: u64) = mask 12" by (simp add: mask_eq_exp_minus_1)
  ultimately show "n < 12" by (simp only: bit_and_iff bit_mask_iff)
qed

lemma bit_128: "bit (128 :: u64) n \<longleftrightarrow> n = 7"
  using bit_exp_iff [where 'a = "64 word", of 7 n] by auto

lemma leaf_sel:
  assumes "large_frame pa"
  shows "present (leaf pa attr)" "leaf pa attr AND 128 \<noteq> 0"
    "(ent_frame (leaf pa attr) AND NOT 0x1fffff) OR (va AND 0x1fffff) = pa + (va AND 0x1fffff)"
proof -
  have st: "KERN_STRAIGHT_PAGE_START pa = pa"
    by (rule bit_eqI)
      (use bit_large_frame [OF assms] in \<open>fastforce simp: KERN_STRAIGHT_PAGE_START_def large_mask bit_and_iff bit_not_iff bit_mask_iff\<close>)
  show "present (leaf pa attr)" by (simp add: leaf_def present_bit bit_or_iff)
  have "bit (leaf pa attr) 7" by (simp add: leaf_def bit_or_iff bit_128)
  then show "leaf pa attr AND 128 \<noteq> 0" by (simp add: large_bit)
  define low where low: "low = attr AND 0xfff"
  have bl: "bit low n \<Longrightarrow> n < 12" for n using bit_low low by blast
  have e: "leaf pa attr = pa OR low OR 1 OR 128" by (simp add: leaf_def st low or.assoc)
  have "ent_frame (leaf pa attr) AND NOT 0x1fffff = pa"
  proof (rule bit_eqI)
    fix n
    show "bit (ent_frame (leaf pa attr) AND NOT 0x1fffff) n = bit pa n" if "possible_bit TYPE(64 word) n"
      unfolding e ent_frame_def large_mask bit_and_iff bit_or_iff bit_not_iff bit_mask_iff bit_push_bit_iff one_bit bit_128
      using bit_large_frame [OF assms, of n] bl [of n] that by auto
  qed
  moreover have "pa + (va AND 0x1fffff) = pa OR (va AND 0x1fffff)"
    by (rule disjunctive_add)
      (use bit_large_frame [OF assms] in \<open>fastforce simp: large_mask bit_and_iff bit_mask_iff\<close>)
  ultimately show "(ent_frame (leaf pa attr) AND NOT 0x1fffff) OR (va AND 0x1fffff) = pa + (va AND 0x1fffff)" by simp
qed

lemma xlate_pd:
  assumes ok: "pg_ok vma P s k" "page_frame P" and c: "canonical va"
  shows "pd_ent (km_mem s) P va = 0 \<Longrightarrow> xlate (km_mem s) P va = None"
    and "pd_ent (km_mem s) P va = leaf pa attr \<Longrightarrow> large_frame pa \<Longrightarrow> xlate (km_mem s) P va = Some (pa + (va AND 0x1fffff))"
proof -
  obtain own h where inv: "pt_inv (km_mem s) P own h" using ok by (auto simp: pg_ok_def)
  let ?m = "km_mem s" and ?i = "PML4_INDEX va" and ?j = "PDPT_INDEX va"
  have "xlate ?m P va = (let e3 = pd_ent ?m P va in if \<not> present e3 then None else
      if e3 AND 128 \<noteq> 0 then Some ((ent_frame e3 AND NOT 0x1fffff) OR (va AND 0x1fffff)) else xlate ?m P va)"
  proof (cases "present (?m P ?i)")
    case True
    then obtain d where d: "?m P ?i = d OR 1" "page_frame d" "own d = Pdp ?i" using pt_inv_D(2) [OF inv] by blast
    show ?thesis
    proof (cases "present (?m d ?j)")
      case True
      then obtain e where e: "?m d ?j = e OR 1" "page_frame e" using pt_inv_D(3) [OF inv d(3)] by blast
      have p: "pd_ent ?m P va = ?m e (PD_INDEX va)" using d e by (simp add: pd_ent_def)
      show ?thesis unfolding p using d e c ok(2) by (simp add: xlate_def Let_def)
    qed (use d c ok(2) in \<open>simp add: xlate_def pd_ent_def Let_def\<close>)
  qed (use c ok(2) in \<open>simp add: xlate_def pd_ent_def Let_def\<close>)
  note x = this
  show "xlate ?m P va = None" if "pd_ent ?m P va = 0" using x that by simp
  show "xlate ?m P va = Some (pa + (va AND 0x1fffff))" if "pd_ent ?m P va = leaf pa attr" "large_frame pa"
    using x that leaf_sel [OF that(2)] by simp
qed

text \<open>A page of a range that starts at \<open>base\<close> and shows the memory from \<open>pa\<close> on.\<close>

lemma range_frame:
  assumes b: "unat base mod 0x200000 = 0" "unat pa mod 0x200000 = 0" and r: "unat pa + n * 0x200000 \<le> 2 ^ 52"
    and v: "vpn base \<le> vpn va" "vpn va < vpn base + n"
  defines "f \<equiv> pa + of_nat (vpn va - vpn base) * 0x200000"
  shows "large_frame f" "f + (va AND 0x1fffff) = va - base + pa"
proof -
  obtain k where k: "vpn va = vpn base + k" "k < n" using v by (auto simp: le_iff_add)
  have kl: "k * 0x200000 + 0x200000 \<le> n * 0x200000" using k(2) by linarith
  have ub: "unat (of_nat k * 0x200000 :: u64) = k * 0x200000" using kl r by (simp add: unat_word_ariths unat_of_nat)
  have uf: "unat f = unat pa + k * 0x200000" using kl r ub by (simp add: f_def k unat_word_ariths(1))
  show "large_frame f" using b(2) kl r by (simp add: large_frame_def uf mod_add_eq [symmetric])
  have va: "unat va = unat base + k * 0x200000 + unat va mod 0x200000"
  proof -
    have "unat va = vpn va * 0x200000 + unat va mod 0x200000" "unat base = vpn base * 0x200000"
      using b(1) by (simp_all add: vpn_def mult.commute flip: dvd_eq_mod_eq_0)
    then show ?thesis by (simp add: k algebra_simps)
  qed
  have "of_nat (unat va) = (of_nat (unat base + k * 0x200000 + unat va mod 0x200000) :: u64)" using va by simp
  then have "va = base + of_nat k * 0x200000 + of_nat (unat va mod 0x200000)" by simp
  moreover have "of_nat (unat va mod 0x200000) = va AND 0x1fffff"
    by (simp flip: large_offset)
  ultimately have "va = base + of_nat k * 0x200000 + (va AND 0x1fffff)" by simp
  then show "f + (va AND 0x1fffff) = va - base + pa" by (simp add: f_def k algebra_simps)
qed

section \<open>The map of the kernel\<close>

lemma straight_start: "unat (KERN_STRAIGHT_PAGE_START x) = unat x div 0x200000 * 0x200000"
proof -
  have split: "(x AND NOT m) + (x AND m) = x" for m :: u64
  proof -
    have "(x AND NOT m) + (x AND m) = (x AND NOT m) OR (x AND m)"
      by (rule disjunctive_add) (simp add: bit_and_iff bit_not_iff)
    also have "\<dots> = x" by (rule bit_eqI) (auto simp: bit_and_iff bit_or_iff bit_not_iff)
    finally show ?thesis .
  qed
  have "KERN_STRAIGHT_PAGE_START x = x AND NOT 0x1fffff" by (simp add: KERN_STRAIGHT_PAGE_START_def)
  then have "KERN_STRAIGHT_PAGE_START x = x - (x AND 0x1fffff)" using split [of "0x1fffff"] by (simp add: eq_diff_eq)
  moreover have "x AND 0x1fffff \<le> x" by (simp add: word_le_nat_alt large_offset)
  ultimately show ?thesis by (simp add: unat_sub large_offset minus_mod_eq_div_mult)
qed

lemma straight_end:
  assumes "unat x < 0x200000000"
  shows "unat (KERN_STRAIGHT_PAGE_END x) + 1 = (unat x div 0x200000 + 1) * 0x200000"
proof -
  have s: "unat (KERN_STRAIGHT_PAGE_START x + 0x200000) = unat x div 0x200000 * 0x200000 + 0x200000"
    using assms by (simp add: unat_word_ariths(1) straight_start)
  have "1 \<le> KERN_STRAIGHT_PAGE_START x + 0x200000" using s by (simp add: word_le_nat_alt)
  then have "unat (KERN_STRAIGHT_PAGE_END x) = unat (KERN_STRAIGHT_PAGE_START x + 0x200000) - 1"
    unfolding KERN_STRAIGHT_PAGE_END_def by (simp only: unat_sub unat_1)
  then show ?thesis using s by simp
qed

lemma range_iff:
  assumes "unat base mod 0x200000 = 0"
  shows "vpn base \<le> vpn va \<and> vpn va < vpn base + n \<longleftrightarrow> unat base \<le> unat va \<and> unat va < unat base + n * 0x200000"
proof -
  have b: "unat base = vpn base * 0x200000" using assms by (simp add: vpn_def mult.commute flip: dvd_eq_mod_eq_0)
  have "unat va < (vpn base + n) * 0x200000 \<longleftrightarrow> vpn va < vpn base + n"
    by (simp add: vpn_def div_less_iff_less_mult)
  moreover have "vpn base * 0x200000 \<le> unat va \<longleftrightarrow> vpn base \<le> vpn va"
    by (simp add: vpn_def less_eq_div_iff_mult_less_eq)
  ultimately show ?thesis unfolding b by (simp add: algebra_simps)
qed

text \<open>The last address of the straight map: the end of the large page with the last byte of memory.\<close>

definition straight_last :: "u64 \<Rightarrow> u64" where
  "straight_last mem_max = KERN_STRAIGHT_PAGE_END (min mem_max KERN_PHY_MAX - 1)"

text \<open>
  What the tables are to say: memory at the base of the kernel, the area of the APICs at its window, and
  nothing else.  The loop over that area runs one page further than its end.
\<close>

definition kernel_map :: "u64 \<Rightarrow> u64 \<Rightarrow> u64 \<Rightarrow> u64 option" where
  "kernel_map vma mem_max va =
     (if vma \<le> va \<and> va \<le> vma + straight_last mem_max then Some (va - vma)
      else if KERN_HIGH_IO_BASE \<le> va \<and> va < KERN_HIGH_IO_BASE + KERN_HIGH_IO_SIZE + 0x200000
      then Some (va - KERN_HIGH_IO_BASE + KERN_HIGH_IO_AREA)
      else None)"

definition straight_pages :: "u64 \<Rightarrow> nat" where
  "straight_pages mem_max = unat (min mem_max KERN_PHY_MAX - 1) div 0x200000 + 1"

lemma straight_pages:
  assumes "0 < mem_max"
  shows "unat (straight_last mem_max) + 1 = straight_pages mem_max * 0x200000" "straight_pages mem_max \<le> 512" "0 < straight_pages mem_max"
proof -
  have "1 \<le> min mem_max KERN_PHY_MAX" using assms by (simp add: min_def word_le_nat_alt word_less_nat_alt)
  then have u: "unat (min mem_max KERN_PHY_MAX - 1) = unat (min mem_max KERN_PHY_MAX) - 1" by (simp add: unat_sub)
  have "unat (min mem_max KERN_PHY_MAX) \<le> 0x40000000" by (simp add: min_def word_le_nat_alt)
  then have l: "unat (min mem_max KERN_PHY_MAX - 1) < 0x40000000" using u assms by (auto simp: min_def word_less_nat_alt split: if_splits)
  show "unat (straight_last mem_max) + 1 = straight_pages mem_max * 0x200000"
    unfolding straight_last_def straight_pages_def by (rule straight_end) (use l in simp)
  have "unat (min mem_max KERN_PHY_MAX - 1) div 0x200000 < 512" using l by (simp add: div_less_iff_less_mult)
  then show "straight_pages mem_max \<le> 512" "0 < straight_pages mem_max" by (simp_all add: straight_pages_def)
qed

lemma vma_facts:
  assumes "vma_ok vma"
  shows "canonical vma" "vpn vma mod 512 = 0" "unat vma mod 0x200000 = 0" "unat vma + 0x40000000 < 2 ^ 64"
    "vpn vma + 512 \<le> 0x7FFFFFFFFE0" "PML4_INDEX KERN_HIGH_IO_BASE \<noteq> PML4_INDEX vma"
  using assms by (auto simp: vma_ok_def canonical_def vpn_def index_vpn)

lemma high_facts:
  "canonical KERN_HIGH_IO_BASE" "vpn KERN_HIGH_IO_BASE = 0x7FFFFFFFFE0" "unat KERN_HIGH_IO_BASE = 0xFFFFFFFFFC000000"
  "unat (KERN_STRAIGHT_PAGE_START KERN_HIGH_IO_AREA) = 0xFE000000"
  "unat (KERN_STRAIGHT_PAGE_END (KERN_HIGH_IO_AREA + KERN_HIGH_IO_SIZE)) + 1 = 0xFE000000 + 17 * 0x200000"
  using straight_end [of "KERN_HIGH_IO_AREA + KERN_HIGH_IO_SIZE"]
  by (simp_all add: canonical_def vpn_def straight_start)

lemma cleared_ok:
  assumes "vma_ok vma" "page_frame P" "heap_room vma (km_heap s) c k" "P < c"
  defines "s' \<equiv> s\<lparr>km_mem := (km_mem s)(P := (\<lambda>_. 0))\<rparr>"
  shows "runs (clear_page vma P) s () s'" "pg_ok vma P s' k" "pd_ent (km_mem s') P va = 0" "missing (km_mem s') P va = 2"
proof -
  show "runs (clear_page vma P) s () s'" using assms by (simp add: clear_page_def mrun)
  have "pt_inv (km_mem s') P (\<lambda>f. if f = P then Root else Free) c"
    using assms(4) by (auto simp: pt_inv_def s'_def)
  then show "pg_ok vma P s' k" using assms(3) by (auto simp: pg_ok_def s'_def)
  show "pd_ent (km_mem s') P va = 0" "missing (km_mem s') P va = 2" by (simp_all add: pd_ent_def missing_def s'_def)
qed

lemma map_pages_run:
  assumes v: "vma_ok vma" "page_frame P" "0 < mem_max" and h: "heap_room vma (km_heap s) c 4" "P < c"
  shows "\<exists>s'. runs (x64_map_kernel vma P mem_max) s () s' \<and> km_cr3 s' = P \<and> pg_ok vma P s' 0 \<and>
    (\<forall>va. canonical va \<longrightarrow> pd_ent (km_mem s') P va =
       (if vpn KERN_HIGH_IO_BASE \<le> vpn va \<and> vpn va < vpn KERN_HIGH_IO_BASE + 17
        then leaf (KERN_HIGH_IO_AREA + of_nat (vpn va - vpn KERN_HIGH_IO_BASE) * 0x200000) (PAGE_WRITABLE OR PAGE_NONCACHABLE)
        else if vpn vma \<le> vpn va \<and> vpn va < vpn vma + straight_pages mem_max
        then leaf (0 + of_nat (vpn va - vpn vma) * 0x200000) PAGE_WRITABLE else 0))"
proof -
  let ?n = "straight_pages mem_max"
  note n = straight_pages [OF v(3)] and vf = vma_facts [OF v(1)] and hf = high_facts and c0 = cleared_ok [OF v(1,2) h]
  define s0 where "s0 = s\<lparr>km_mem := (km_mem s)(P := (\<lambda>_. 0))\<rparr>"
  note c = c0 [folded s0_def]
  have "\<exists>s1. runs (map_pages vma 0 vma (straight_last mem_max) PAGE_WRITABLE P) s0 () s1 \<and> pg_ok vma P s1 2
      \<and> pg_range P vma ?n 0 PAGE_WRITABLE s0 s1"
    by (rule map_pages_ok [OF v(1,2)]) (use n vf c in auto)
  then obtain s1 where 1: "runs (map_pages vma 0 vma (straight_last mem_max) PAGE_WRITABLE P) s0 () s1" "pg_ok vma P s1 2"
    "pg_range P vma ?n 0 PAGE_WRITABLE s0 s1" by blast
  have m1: "missing (km_mem s1) P KERN_HIGH_IO_BASE = 2"
    using 1(3) vf(6) c(4) by (simp add: pg_range_def)
  have "\<exists>s2. runs (map_high_io_area vma P) s1 () s2 \<and> pg_ok vma P s2 0
      \<and> pg_range P KERN_HIGH_IO_BASE 17 (KERN_STRAIGHT_PAGE_START KERN_HIGH_IO_AREA) (PAGE_WRITABLE OR PAGE_NONCACHABLE) s1 s2"
    unfolding map_high_io_area_def
  proof (rule map_pages_ok [OF v(1,2)])
    show "\<not> present (pd_ent (km_mem s1) P va')"
      if "canonical va'" "vpn KERN_HIGH_IO_BASE \<le> vpn va'" "vpn va' < vpn KERN_HIGH_IO_BASE + 17" for va'
      using that 1(3) c(3) n(2) vf(5) hf(2) by (simp add: pg_range_def)
  qed (use hf m1 1(2) in \<open>simp_all\<close>)
  then obtain s2 where 2: "runs (map_high_io_area vma P) s1 () s2" "pg_ok vma P s2 0"
    "pg_range P KERN_HIGH_IO_BASE 17 (KERN_STRAIGHT_PAGE_START KERN_HIGH_IO_AREA) (PAGE_WRITABLE OR PAGE_NONCACHABLE) s1 s2" by blast
  let ?s = "s2\<lparr>km_cr3 := P\<rparr>"
  have hs: "KERN_STRAIGHT_PAGE_START KERN_HIGH_IO_AREA = KERN_HIGH_IO_AREA" "KERN_STRAIGHT_PAGE_START 0 = 0"
    by (simp_all add: KERN_STRAIGHT_PAGE_START_def)
  have "(if mem_max < KERN_PHY_MAX then mem_max else KERN_PHY_MAX) = min mem_max KERN_PHY_MAX" by (auto simp: min_def)
  then have "runs (x64_map_kernel vma P mem_max) s () ?s"
    unfolding x64_map_kernel_def Let_def hs(2) straight_last_def [symmetric]
    by (simp add: straight_last_def [symmetric] runs_mthenI [OF c(1)] runs_mthenI [OF 1(1)] runs_mthenI [OF 2(1)] runs_mmod)
  moreover have "pg_ok vma P ?s 0" using 2(2) by (simp add: pg_ok_def)
  ultimately show ?thesis using 1(3) 2(3) c(3) by (intro exI [of _ ?s]) (simp add: pg_range_def hs)
qed

lemma kernel_map_vpn:
  assumes "vma_ok vma" "0 < mem_max"
  shows "kernel_map vma mem_max va =
    (if vpn vma \<le> vpn va \<and> vpn va < vpn vma + straight_pages mem_max then Some (va - vma)
     else if vpn KERN_HIGH_IO_BASE \<le> vpn va \<and> vpn va < vpn KERN_HIGH_IO_BASE + 17
     then Some (va - KERN_HIGH_IO_BASE + KERN_HIGH_IO_AREA) else None)"
    "vpn KERN_HIGH_IO_BASE \<le> vpn va \<Longrightarrow> \<not> vpn va < vpn vma + straight_pages mem_max"
proof -
  note n = straight_pages [OF assms(2)] and vf = vma_facts [OF assms(1)]
  have l: "unat (straight_last mem_max + vma) = unat (straight_last mem_max) + unat vma"
    using n by (intro vma_add [OF assms(1)]) linarith
  have "vma \<le> va \<and> va \<le> vma + straight_last mem_max \<longleftrightarrow> vpn vma \<le> vpn va \<and> vpn va < vpn vma + straight_pages mem_max"
    unfolding range_iff [OF vf(3)] using l n(1) by (auto simp: word_le_nat_alt add.commute)
  moreover have "KERN_HIGH_IO_BASE \<le> va \<and> va < KERN_HIGH_IO_BASE + KERN_HIGH_IO_SIZE + 0x200000 \<longleftrightarrow>
      vpn KERN_HIGH_IO_BASE \<le> vpn va \<and> vpn va < vpn KERN_HIGH_IO_BASE + 17"
    using range_iff [of KERN_HIGH_IO_BASE va 17] by (simp add: word_le_nat_alt word_less_nat_alt)
  ultimately show "kernel_map vma mem_max va =
    (if vpn vma \<le> vpn va \<and> vpn va < vpn vma + straight_pages mem_max then Some (va - vma)
     else if vpn KERN_HIGH_IO_BASE \<le> vpn va \<and> vpn va < vpn KERN_HIGH_IO_BASE + 17
     then Some (va - KERN_HIGH_IO_BASE + KERN_HIGH_IO_AREA) else None)" by (simp add: kernel_map_def)
  show "\<not> vpn va < vpn vma + straight_pages mem_max" if "vpn KERN_HIGH_IO_BASE \<le> vpn va"
    using that n(2) vf(5) high_facts(2) by simp
qed

lemma kernel_map_canonical:
  assumes "vma_ok vma" "0 < mem_max" "\<not> canonical va"
  shows "kernel_map vma mem_max va = None"
  using assms straight_pages [OF assms(2)] high_facts(2) vma_facts(2,5) [OF assms(1)]
  by (auto simp: kernel_map_vpn [OF assms(1,2)] canonical_vpn vma_ok_def vpn_def)


definition km0 :: kmst where
  "km0 = \<lparr>km_heap = \<lparr>kh_start = 0xFFFF800000200000, kh_end = 0xFFFF800000600000, kh_cur = 0xFFFF800000200000\<rparr>,
          km_mem = (\<lambda>_ _. 0), km_cr3 = 0x102000\<rparr>"


end
