(* ===== verification/Kexpr.thy ===== *)
theory Kexpr
  imports Kprelude
begin

text \<open>
  The dependency expressions of the configuration tool (\<^verbatim>\<open>tools/kconfig/expr.c\<close>, \<^verbatim>\<open>expr.h\<close>).  An expression is a tree
  that its owner has for itself, so a tree of \<^verbatim>\<open>struct expr\<close> is a value of a datatype; a null pointer, the expression
  that is always true, is \<open>None\<close>.  The lists of choice members and the ranges, which the tool also keeps as
  \<^verbatim>\<open>struct expr\<close>, are not dependency expressions and none of the operations below meets them.  Symbols are compared by
  identity; what they are and their calculated values are a table.
\<close>

section \<open>Data\<close>

datatype tristate = no | mod_t | yes

datatype symbol_type = S_UNKNOWN | S_BOOLEAN | S_TRISTATE | S_INT | S_HEX | S_STRING | S_OTHER

datatype symbol = symbol_no | symbol_mod | symbol_yes | Sym nat

record symtab =
  sym_type :: "symbol \<Rightarrow> symbol_type"
  sym_const :: "symbol \<Rightarrow> bool"
  curr_tri :: "symbol \<Rightarrow> tristate"
  curr_val :: "symbol \<Rightarrow> string"

datatype expr =
    E_OR expr expr | E_AND expr expr | E_NOT expr
  | E_EQUAL symbol symbol | E_UNEQUAL symbol symbol | E_SYMBOL symbol

datatype expr_type = T_NONE | T_OR | T_AND | T_NOT | T_EQUAL | T_UNEQUAL | T_SYMBOL

fun expr_typ :: "expr \<Rightarrow> expr_type" where
  "expr_typ (E_OR _ _) = T_OR"
| "expr_typ (E_AND _ _) = T_AND"
| "expr_typ (E_NOT _) = T_NOT"
| "expr_typ (E_EQUAL _ _) = T_EQUAL"
| "expr_typ (E_UNEQUAL _ _) = T_UNEQUAL"
| "expr_typ (E_SYMBOL _) = T_SYMBOL"

section \<open>Values\<close>

fun tri_nat :: "tristate \<Rightarrow> nat" where
  "tri_nat no = 0"
| "tri_nat mod_t = 1"
| "tri_nat yes = 2"

definition EXPR_OR :: "tristate \<Rightarrow> tristate \<Rightarrow> tristate" where
  "EXPR_OR dep1 dep2 = (if tri_nat dep1 > tri_nat dep2 then dep1 else dep2)"

definition EXPR_AND :: "tristate \<Rightarrow> tristate \<Rightarrow> tristate" where
  "EXPR_AND dep1 dep2 = (if tri_nat dep1 < tri_nat dep2 then dep1 else dep2)"

fun EXPR_NOT :: "tristate \<Rightarrow> tristate" where
  "EXPR_NOT no = yes"
| "EXPR_NOT mod_t = mod_t"
| "EXPR_NOT yes = no"

fun tri_str :: "tristate \<Rightarrow> string" where
  "tri_str no = ''n''"
| "tri_str mod_t = ''m''"
| "tri_str yes = ''y''"

definition sym_get_string_value :: "symtab \<Rightarrow> symbol \<Rightarrow> string" where
  "sym_get_string_value st sy =
     (case sym_type st sy of
        S_BOOLEAN \<Rightarrow> tri_str (curr_tri st sy)
      | S_TRISTATE \<Rightarrow> tri_str (curr_tri st sy)
      | _ \<Rightarrow> curr_val st sy)"

fun calc_value :: "symtab \<Rightarrow> expr \<Rightarrow> tristate" where
  "calc_value st (E_SYMBOL sy) = curr_tri st sy"
| "calc_value st (E_AND l r) = EXPR_AND (calc_value st l) (calc_value st r)"
| "calc_value st (E_OR l r) = EXPR_OR (calc_value st l) (calc_value st r)"
| "calc_value st (E_NOT l) = EXPR_NOT (calc_value st l)"
| "calc_value st (E_EQUAL l r) =
     (if sym_get_string_value st l = sym_get_string_value st r then yes else no)"
| "calc_value st (E_UNEQUAL l r) =
     (if sym_get_string_value st l = sym_get_string_value st r then no else yes)"

definition expr_calc_value :: "symtab \<Rightarrow> expr option \<Rightarrow> tristate" where
  "expr_calc_value st e = (case e of None \<Rightarrow> yes | Some e \<Rightarrow> calc_value st e)"

section \<open>Construction\<close>

definition expr_alloc_and :: "expr option \<Rightarrow> expr option \<Rightarrow> expr option" where
  "expr_alloc_and e1 e2 =
     (case e1 of None \<Rightarrow> e2 | Some x \<Rightarrow> (case e2 of None \<Rightarrow> e1 | Some y \<Rightarrow> Some (E_AND x y)))"

definition expr_alloc_or :: "expr option \<Rightarrow> expr option \<Rightarrow> expr option" where
  "expr_alloc_or e1 e2 =
     (case e1 of None \<Rightarrow> e2 | Some x \<Rightarrow> (case e2 of None \<Rightarrow> e1 | Some y \<Rightarrow> Some (E_OR x y)))"

fun expr_copy :: "expr \<Rightarrow> expr" where
  "expr_copy (E_SYMBOL sy) = E_SYMBOL sy"
| "expr_copy (E_NOT l) = E_NOT (expr_copy l)"
| "expr_copy (E_EQUAL l r) = E_EQUAL l r"
| "expr_copy (E_UNEQUAL l r) = E_UNEQUAL l r"
| "expr_copy (E_AND l r) = E_AND (expr_copy l) (expr_copy r)"
| "expr_copy (E_OR l r) = E_OR (expr_copy l) (expr_copy r)"

lemma expr_copy_id [simp]: "expr_copy e = e"
  by (induction e) simp_all

section \<open>Constants\<close>

fun expr_eliminate_yn :: "expr \<Rightarrow> expr" where
  "expr_eliminate_yn (E_AND l r) =
     (let l = expr_eliminate_yn l; r = expr_eliminate_yn r in
      if l = E_SYMBOL symbol_no then E_SYMBOL symbol_no
      else if l = E_SYMBOL symbol_yes then r
      else if r = E_SYMBOL symbol_no then E_SYMBOL symbol_no
      else if r = E_SYMBOL symbol_yes then l
      else E_AND l r)"
| "expr_eliminate_yn (E_OR l r) =
     (let l = expr_eliminate_yn l; r = expr_eliminate_yn r in
      if l = E_SYMBOL symbol_no then r
      else if l = E_SYMBOL symbol_yes then E_SYMBOL symbol_yes
      else if r = E_SYMBOL symbol_no then l
      else if r = E_SYMBOL symbol_yes then E_SYMBOL symbol_yes
      else E_OR l r)"
| "expr_eliminate_yn e = e"

fun expr_trans_bool :: "symtab \<Rightarrow> expr \<Rightarrow> expr" where
  "expr_trans_bool st (E_AND l r) = E_AND (expr_trans_bool st l) (expr_trans_bool st r)"
| "expr_trans_bool st (E_OR l r) = E_OR (expr_trans_bool st l) (expr_trans_bool st r)"
| "expr_trans_bool st (E_NOT l) = E_NOT (expr_trans_bool st l)"
| "expr_trans_bool st (E_UNEQUAL l r) =
     (if sym_type st l = S_TRISTATE \<and> r = symbol_no then E_SYMBOL l else E_UNEQUAL l r)"
| "expr_trans_bool st e = e"

section \<open>Common parts of two expressions\<close>

text \<open>
  \<^verbatim>\<open>__expr_eliminate_eq\<close> goes through the operands of the first expression and for each through those of
  the second; \<open>eq\<close> is \<^verbatim>\<open>expr_eq\<close>, which is defined below with it.  The unit of the operation
  takes the place of both operands when they are equal.
\<close>

definition unit_of :: "expr_type \<Rightarrow> expr" where
  "unit_of type = (if type = T_OR then E_SYMBOL symbol_no else E_SYMBOL symbol_yes)"

definition eliminate_leaf :: "(expr \<Rightarrow> expr \<Rightarrow> bool) \<Rightarrow> expr_type \<Rightarrow> expr \<Rightarrow> expr \<Rightarrow> expr \<times> expr" where
  "eliminate_leaf eq type e1 e2 =
     (if e1 = e2 \<and> (e1 = E_SYMBOL symbol_yes \<or> e1 = E_SYMBOL symbol_no) then (e1, e2)
      else if \<not> eq e1 e2 then (e1, e2)
      else (unit_of type, unit_of type))"

fun eliminate_right :: "(expr \<Rightarrow> expr \<Rightarrow> bool) \<Rightarrow> expr_type \<Rightarrow> expr \<Rightarrow> expr \<Rightarrow> expr \<times> expr" where
  "eliminate_right eq type e1 (E_OR l r) =
     (if type = T_OR
      then let (e1, l) = eliminate_right eq type e1 l; (e1, r) = eliminate_right eq type e1 r in (e1, E_OR l r)
      else eliminate_leaf eq type e1 (E_OR l r))"
| "eliminate_right eq type e1 (E_AND l r) =
     (if type = T_AND
      then let (e1, l) = eliminate_right eq type e1 l; (e1, r) = eliminate_right eq type e1 r in (e1, E_AND l r)
      else eliminate_leaf eq type e1 (E_AND l r))"
| "eliminate_right eq type e1 e2 = eliminate_leaf eq type e1 e2"

fun eliminate_eq1 :: "(expr \<Rightarrow> expr \<Rightarrow> bool) \<Rightarrow> expr_type \<Rightarrow> expr \<Rightarrow> expr \<Rightarrow> expr \<times> expr" where
  "eliminate_eq1 eq type (E_OR l r) e2 =
     (if type = T_OR
      then let (l, e2) = eliminate_eq1 eq type l e2; (r, e2) = eliminate_eq1 eq type r e2 in (E_OR l r, e2)
      else eliminate_right eq type (E_OR l r) e2)"
| "eliminate_eq1 eq type (E_AND l r) e2 =
     (if type = T_AND
      then let (l, e2) = eliminate_eq1 eq type l e2; (r, e2) = eliminate_eq1 eq type r e2 in (E_AND l r, e2)
      else eliminate_right eq type (E_AND l r) e2)"
| "eliminate_eq1 eq type e1 e2 = eliminate_right eq type e1 e2"

text \<open>\<open>expr_eq\<close> is only called with operands of the two expressions: this is why it terminates.\<close>

definition part_of :: "expr_type \<Rightarrow> expr \<Rightarrow> expr \<Rightarrow> expr \<Rightarrow> expr \<Rightarrow> bool" where
  "part_of type e1 e2 x y = (size x \<le> size e1 \<and> size y \<le> size e2 \<and> (expr_typ e1 = type \<and> type \<in> {T_OR, T_AND} \<longrightarrow> size x < size e1))"

lemma unit_size [simp]: "size (unit_of type) = 0"
  by (simp add: unit_of_def)

lemma eliminate_leaf_size:
  "eliminate_leaf eq type e1 e2 = (x, y) \<Longrightarrow> size x \<le> size e1 \<and> size y \<le> size e2"
  by (auto simp: eliminate_leaf_def split: if_splits)

lemma eliminate_right_size:
  "eliminate_right eq type e1 e2 = (x, y) \<Longrightarrow> size x \<le> size e1 \<and> size y \<le> size e2"
proof (induction eq type e1 e2 arbitrary: x y rule: eliminate_right.induct)
qed (fastforce dest: eliminate_leaf_size split: if_splits prod.splits)+

lemma eliminate_eq1_size:
  "eliminate_eq1 eq type e1 e2 = (x, y) \<Longrightarrow> size x \<le> size e1 \<and> size y \<le> size e2"
proof (induction eq type e1 e2 arbitrary: x y rule: eliminate_eq1.induct)
qed (fastforce dest: eliminate_right_size split: if_splits prod.splits)+

lemma eliminate_leaf_cong:
  "eq e1 e2 = eq' e1 e2 \<Longrightarrow> eliminate_leaf eq type e1 e2 = eliminate_leaf eq' type e1 e2"
  by (simp only: eliminate_leaf_def)

lemma eliminate_right_cong:
  "(\<And>x y. size x \<le> size e1 \<Longrightarrow> size y \<le> size e2 \<Longrightarrow> eq x y = eq' x y) \<Longrightarrow>
     eliminate_right eq type e1 e2 = eliminate_right eq' type e1 e2"
proof (induction e2 arbitrary: e1)
  case (E_OR l r)
  show ?case
  proof (cases "type = T_OR")
    case True
    obtain x y where l: "eliminate_right eq' type e1 l = (x, y)" by fastforce
    have "size x \<le> size e1" using eliminate_right_size [OF l] by simp
    then have "eliminate_right eq type x r = eliminate_right eq' type x r" using E_OR.prems by (intro E_OR.IH) auto
    moreover have "eliminate_right eq type e1 l = eliminate_right eq' type e1 l" using E_OR.prems by (intro E_OR.IH) auto
    ultimately show ?thesis using True l by simp
  next
    case False
    have "eliminate_leaf eq type e1 (E_OR l r) = eliminate_leaf eq' type e1 (E_OR l r)"
      by (intro eliminate_leaf_cong E_OR.prems) simp_all
    then show ?thesis using False by simp
  qed
next
  case (E_AND l r)
  show ?case
  proof (cases "type = T_AND")
    case True
    obtain x y where l: "eliminate_right eq' type e1 l = (x, y)" by fastforce
    have "size x \<le> size e1" using eliminate_right_size [OF l] by simp
    then have "eliminate_right eq type x r = eliminate_right eq' type x r" using E_AND.prems by (intro E_AND.IH) auto
    moreover have "eliminate_right eq type e1 l = eliminate_right eq' type e1 l" using E_AND.prems by (intro E_AND.IH) auto
    ultimately show ?thesis using True l by simp
  next
    case False
    have "eliminate_leaf eq type e1 (E_AND l r) = eliminate_leaf eq' type e1 (E_AND l r)"
      by (intro eliminate_leaf_cong E_AND.prems) simp_all
    then show ?thesis using False by simp
  qed
qed (simp_all only: eliminate_right.simps, (rule eliminate_leaf_cong, simp)+)

lemma part_of_le: "part_of type l e2 x y \<Longrightarrow> size l < size e1 \<Longrightarrow> part_of type e1 e2 x y"
  by (auto simp: part_of_def)

lemma part_of_right: "part_of type e1 e2 x y \<Longrightarrow> size e2 \<le> size e2' \<Longrightarrow> part_of type e1 e2' x y"
  by (auto simp: part_of_def)

lemma eliminate_right_part:
  assumes "\<not> (expr_typ e1 = type \<and> type \<in> {T_OR, T_AND})" "\<And>x y. part_of type e1 e2 x y \<Longrightarrow> eq x y = eq' x y"
  shows "eliminate_right eq type e1 e2 = eliminate_right eq' type e1 e2"
  using assms(1) by (intro eliminate_right_cong assms(2)) (auto simp: part_of_def)

lemma eliminate_eq1_cong_aux:
  "(\<And>x y. part_of type e1 e2 x y \<Longrightarrow> eq x y = eq' x y) \<Longrightarrow>
     eliminate_eq1 eq type e1 e2 = eliminate_eq1 eq' type e1 e2"
proof (induction e1 arbitrary: e2)
  case (E_OR l r)
  show ?case
  proof (cases "type = T_OR")
    case True
    obtain x y where l: "eliminate_eq1 eq' type l e2 = (x, y)" by fastforce
    have "size y \<le> size e2" using eliminate_eq1_size [OF l] by simp
    then have "eliminate_eq1 eq type r y = eliminate_eq1 eq' type r y"
      by (intro E_OR.IH E_OR.prems) (auto intro: part_of_le part_of_right)
    moreover have "eliminate_eq1 eq type l e2 = eliminate_eq1 eq' type l e2"
      by (intro E_OR.IH E_OR.prems) (auto intro: part_of_le)
    ultimately show ?thesis using True l by simp
  next
    case False
    have "eliminate_right eq type (E_OR l r) e2 = eliminate_right eq' type (E_OR l r) e2"
      by (rule eliminate_right_part) (use False E_OR.prems in auto)
    then show ?thesis using False by simp
  qed
next
  case (E_AND l r)
  show ?case
  proof (cases "type = T_AND")
    case True
    obtain x y where l: "eliminate_eq1 eq' type l e2 = (x, y)" by fastforce
    have "size y \<le> size e2" using eliminate_eq1_size [OF l] by simp
    then have "eliminate_eq1 eq type r y = eliminate_eq1 eq' type r y"
      by (intro E_AND.IH E_AND.prems) (auto intro: part_of_le part_of_right)
    moreover have "eliminate_eq1 eq type l e2 = eliminate_eq1 eq' type l e2"
      by (intro E_AND.IH E_AND.prems) (auto intro: part_of_le)
    ultimately show ?thesis using True l by simp
  next
    case False
    have "eliminate_right eq type (E_AND l r) e2 = eliminate_right eq' type (E_AND l r) e2"
      by (rule eliminate_right_part) (use False E_AND.prems in auto)
    then show ?thesis using False by simp
  qed
qed (simp only: eliminate_eq1.simps, rule eliminate_right_part, force, blast)+


lemma eliminate_eq1_cong [fundef_cong]:
  "type = type' \<Longrightarrow> e1 = e1' \<Longrightarrow> e2 = e2' \<Longrightarrow> (\<And>x y. part_of type' e1' e2' x y \<Longrightarrow> eq x y = eq' x y) \<Longrightarrow>
     eliminate_eq1 eq type e1 e2 = eliminate_eq1 eq' type' e1' e2'"
  using eliminate_eq1_cong_aux by blast

function (sequential) expr_eq :: "expr \<Rightarrow> expr \<Rightarrow> bool" where
  "expr_eq (E_EQUAL l r) (E_EQUAL l' r') = (l = l' \<and> r = r')"
| "expr_eq (E_UNEQUAL l r) (E_UNEQUAL l' r') = (l = l' \<and> r = r')"
| "expr_eq (E_SYMBOL s) (E_SYMBOL s') = (s = s')"
| "expr_eq (E_NOT l) (E_NOT l') = expr_eq l l'"
| "expr_eq (E_AND l r) (E_AND l' r') =
     (let (e1, e2) = eliminate_eq1 expr_eq T_AND (E_AND l r) (E_AND l' r');
          e1 = expr_eliminate_yn e1; e2 = expr_eliminate_yn e2
      in expr_typ e1 = T_SYMBOL \<and> e1 = e2)"
| "expr_eq (E_OR l r) (E_OR l' r') =
     (let (e1, e2) = eliminate_eq1 expr_eq T_OR (E_OR l r) (E_OR l' r');
          e1 = expr_eliminate_yn e1; e2 = expr_eliminate_yn e2
      in expr_typ e1 = T_SYMBOL \<and> e1 = e2)"
| "expr_eq _ _ = False"
  by pat_completeness auto

termination
  by (relation "measure (\<lambda>(x, y). size x)") (auto simp: part_of_def)

definition expr_eliminate_eq :: "expr option \<Rightarrow> expr option \<Rightarrow> expr option \<times> expr option" where
  "expr_eliminate_eq ep1 ep2 =
     (case (ep1, ep2) of
        (Some e1, Some e2) \<Rightarrow>
          (let (e1, e2) = (if expr_typ e1 \<in> {T_OR, T_AND} then eliminate_eq1 expr_eq (expr_typ e1) e1 e2 else (e1, e2));
               (e1, e2) = (if expr_typ e1 \<noteq> expr_typ e2 \<and> expr_typ e2 \<in> {T_OR, T_AND}
                           then eliminate_eq1 expr_eq (expr_typ e2) e1 e2 else (e1, e2))
           in (Some (expr_eliminate_yn e1), Some (expr_eliminate_yn e2)))
      | _ \<Rightarrow> (ep1, ep2))"

section \<open>Joining two operands\<close>

text \<open>The symbol an operand is about, where the joining rules look at it.\<close>

definition join_sym1 :: "expr \<Rightarrow> symbol option" where
  "join_sym1 e1 =
     (case e1 of
        E_NOT (E_EQUAL s _) \<Rightarrow> Some s
      | E_NOT (E_UNEQUAL s _) \<Rightarrow> Some s
      | E_NOT (E_SYMBOL s) \<Rightarrow> Some s
      | E_EQUAL s _ \<Rightarrow> Some s
      | E_UNEQUAL s _ \<Rightarrow> Some s
      | E_SYMBOL s \<Rightarrow> Some s
      | _ \<Rightarrow> None)"

definition join_sym2 :: "expr \<Rightarrow> symbol option" where
  "join_sym2 e2 =
     (case e2 of
        E_NOT (E_SYMBOL s) \<Rightarrow> Some s
      | E_EQUAL s _ \<Rightarrow> Some s
      | E_UNEQUAL s _ \<Rightarrow> Some s
      | E_SYMBOL s \<Rightarrow> Some s
      | _ \<Rightarrow> None)"

definition join_sym :: "symtab \<Rightarrow> expr \<Rightarrow> expr \<Rightarrow> symbol option" where
  "join_sym st e1 e2 =
     (case (join_sym1 e1, join_sym2 e2) of
        (Some sym1, Some sym2) \<Rightarrow>
          if sym1 \<noteq> sym2 then None
          else if sym_type st sym1 \<noteq> S_BOOLEAN \<and> sym_type st sym1 \<noteq> S_TRISTATE then None
          else Some sym1
      | _ \<Rightarrow> None)"

definition both_equal :: "expr \<Rightarrow> expr \<Rightarrow> symbol \<Rightarrow> symbol \<Rightarrow> bool" where
  "both_equal e1 e2 a b =
     (case (e1, e2) of (E_EQUAL _ r1, E_EQUAL _ r2) \<Rightarrow> r1 = a \<and> r2 = b \<or> r1 = b \<and> r2 = a | _ \<Rightarrow> False)"

definition both_unequal :: "expr \<Rightarrow> expr \<Rightarrow> symbol \<Rightarrow> symbol \<Rightarrow> bool" where
  "both_unequal e1 e2 a b =
     (case (e1, e2) of (E_UNEQUAL _ r1, E_UNEQUAL _ r2) \<Rightarrow> r1 = a \<and> r2 = b \<or> r1 = b \<and> r2 = a | _ \<Rightarrow> False)"

definition symbol_and :: "expr \<Rightarrow> expr \<Rightarrow> (expr \<Rightarrow> bool) \<Rightarrow> bool" where
  "symbol_and e1 e2 P = (expr_typ e1 = T_SYMBOL \<and> P e2 \<or> expr_typ e2 = T_SYMBOL \<and> P e1)"

definition is_equal_to :: "symbol \<Rightarrow> expr \<Rightarrow> bool" where
  "is_equal_to a e = (case e of E_EQUAL _ r \<Rightarrow> r = a | _ \<Rightarrow> False)"

definition is_unequal_to :: "symbol \<Rightarrow> expr \<Rightarrow> bool" where
  "is_unequal_to a e = (case e of E_UNEQUAL _ r \<Rightarrow> r = a | _ \<Rightarrow> False)"

definition not_and_symbol :: "expr \<Rightarrow> expr \<Rightarrow> bool" where
  "not_and_symbol e1 e2 = (case (e1, e2) of (E_NOT (E_SYMBOL _), E_SYMBOL _) \<Rightarrow> True | _ \<Rightarrow> False)"

definition expr_join_or :: "symtab \<Rightarrow> expr \<Rightarrow> expr \<Rightarrow> expr option" where
  "expr_join_or st e1 e2 =
     (if expr_eq e1 e2 then Some (expr_copy e1)
      else case join_sym st e1 e2 of
        None \<Rightarrow> None
      | Some sym1 \<Rightarrow>
          if sym_type st sym1 = S_TRISTATE \<and> both_equal e1 e2 symbol_yes symbol_mod then Some (E_UNEQUAL sym1 symbol_no)
          else if sym_type st sym1 = S_TRISTATE \<and> both_equal e1 e2 symbol_yes symbol_no then Some (E_UNEQUAL sym1 symbol_mod)
          else if sym_type st sym1 = S_TRISTATE \<and> both_equal e1 e2 symbol_mod symbol_no then Some (E_UNEQUAL sym1 symbol_yes)
          else if sym_type st sym1 = S_BOOLEAN \<and> (not_and_symbol e1 e2 \<or> not_and_symbol e2 e1)
          then Some (E_SYMBOL symbol_yes)
          else None)"

text \<open>The rule for \<open>(a='b') && (a!='c')\<close>, which applies to constants.\<close>

definition join_eq_uneq :: "symtab \<Rightarrow> symbol \<Rightarrow> expr \<Rightarrow> expr \<Rightarrow> expr option" where
  "join_eq_uneq st sym1 e1 e2 =
     (case (e1, e2) of
        (E_EQUAL _ sym2, E_UNEQUAL _ r) \<Rightarrow>
          if sym_const st r \<and> sym_const st sym2
          then Some (if sym2 \<noteq> r then E_EQUAL sym1 sym2 else E_SYMBOL symbol_no)
          else None
      | _ \<Rightarrow> None)"

definition expr_join_and :: "symtab \<Rightarrow> expr \<Rightarrow> expr \<Rightarrow> expr option" where
  "expr_join_and st e1 e2 =
     (if expr_eq e1 e2 then Some (expr_copy e1)
      else case join_sym st e1 e2 of
        None \<Rightarrow> None
      | Some sym1 \<Rightarrow>
          if symbol_and e1 e2 (is_equal_to symbol_yes) then Some (E_EQUAL sym1 symbol_yes)
          else if symbol_and e1 e2 (is_unequal_to symbol_no) then Some (E_SYMBOL sym1)
          else if symbol_and e1 e2 (is_unequal_to symbol_mod) then Some (E_EQUAL sym1 symbol_yes)
          else if sym_type st sym1 \<noteq> S_TRISTATE then None
          else if join_eq_uneq st sym1 e1 e2 \<noteq> None then join_eq_uneq st sym1 e1 e2
          else if join_eq_uneq st sym1 e2 e1 \<noteq> None then join_eq_uneq st sym1 e2 e1
          else if both_unequal e1 e2 symbol_yes symbol_no then Some (E_EQUAL sym1 symbol_mod)
          else if both_unequal e1 e2 symbol_yes symbol_mod then Some (E_EQUAL sym1 symbol_no)
          else if both_unequal e1 e2 symbol_mod symbol_no then Some (E_EQUAL sym1 symbol_yes)
          else None)"

section \<open>Normal form\<close>

text \<open>Comparisons of a boolean symbol with a constant.\<close>

definition transform_equal :: "symtab \<Rightarrow> symbol \<Rightarrow> symbol \<Rightarrow> expr" where
  "transform_equal st l r =
     (if sym_type st l \<noteq> S_BOOLEAN then E_EQUAL l r
      else if r = symbol_no then E_NOT (E_SYMBOL l)
      else if r = symbol_mod then E_SYMBOL symbol_no
      else if r = symbol_yes then E_SYMBOL l
      else E_EQUAL l r)"

definition transform_unequal :: "symtab \<Rightarrow> symbol \<Rightarrow> symbol \<Rightarrow> expr" where
  "transform_unequal st l r =
     (if sym_type st l \<noteq> S_BOOLEAN then E_UNEQUAL l r
      else if r = symbol_no then E_SYMBOL l
      else if r = symbol_mod then E_SYMBOL symbol_yes
      else if r = symbol_yes then E_NOT (E_SYMBOL l)
      else E_UNEQUAL l r)"

fun weight :: "expr \<Rightarrow> nat" where
  "weight (E_OR l r) = weight l + weight r + 1"
| "weight (E_AND l r) = weight l + weight r + 1"
| "weight (E_NOT l) = 2 * weight l"
| "weight (E_EQUAL _ _) = 2"
| "weight (E_UNEQUAL _ _) = 2"
| "weight (E_SYMBOL _) = 1"

lemma weight_pos [simp]: "0 < weight e"
  by (induction e) simp_all

function expr_transform :: "symtab \<Rightarrow> expr \<Rightarrow> expr" where
  "expr_transform st (E_EQUAL l r) = transform_equal st l r"
| "expr_transform st (E_UNEQUAL l r) = transform_unequal st l r"
| "expr_transform st (E_SYMBOL s) = E_SYMBOL s"
| "expr_transform st (E_AND l r) = E_AND (expr_transform st l) (expr_transform st r)"
| "expr_transform st (E_OR l r) = E_OR (expr_transform st l) (expr_transform st r)"
| "expr_transform st (E_NOT e) =
     (case expr_transform st e of
        E_NOT x \<Rightarrow> expr_transform st x
      | E_EQUAL l r \<Rightarrow> E_UNEQUAL l r
      | E_UNEQUAL l r \<Rightarrow> E_EQUAL l r
      | E_OR l r \<Rightarrow> expr_transform st (E_AND (E_NOT l) (E_NOT r))
      | E_AND l r \<Rightarrow> expr_transform st (E_OR (E_NOT l) (E_NOT r))
      | E_SYMBOL s \<Rightarrow>
          if s = symbol_yes then E_SYMBOL symbol_no
          else if s = symbol_mod then E_SYMBOL symbol_mod
          else if s = symbol_no then E_SYMBOL symbol_yes
          else E_NOT (E_SYMBOL s))"
  by pat_completeness auto

termination
proof -
  have le: "weight (expr_transform st e) \<le> weight e" if "expr_transform_dom (st, e)" for st e
    using that
    by (induction rule: expr_transform.pinduct)
      (auto simp: expr_transform.psimps transform_equal_def transform_unequal_def split: expr.splits)
  have lt: "weight x < 2 * weight e" if "2 * weight x \<le> weight e" for x e
    using that weight_pos [of e] by linarith
  show ?thesis
    by (relation "measure (\<lambda>(st, e). weight e)") (auto dest!: le intro: lt)
qed

section \<open>Symbols of an expression\<close>

fun contains_symbol :: "expr \<Rightarrow> symbol \<Rightarrow> bool" where
  "contains_symbol (E_AND l r) s = (contains_symbol l s \<or> contains_symbol r s)"
| "contains_symbol (E_OR l r) s = (contains_symbol l s \<or> contains_symbol r s)"
| "contains_symbol (E_SYMBOL a) s = (a = s)"
| "contains_symbol (E_EQUAL l r) s = (l = s \<or> r = s)"
| "contains_symbol (E_UNEQUAL l r) s = (l = s \<or> r = s)"
| "contains_symbol (E_NOT l) s = contains_symbol l s"

definition expr_contains_symbol :: "expr option \<Rightarrow> symbol \<Rightarrow> bool" where
  "expr_contains_symbol dep s = (case dep of None \<Rightarrow> False | Some e \<Rightarrow> contains_symbol e s)"

fun depends_symbol :: "expr \<Rightarrow> symbol \<Rightarrow> bool" where
  "depends_symbol (E_AND l r) s = (depends_symbol l s \<or> depends_symbol r s)"
| "depends_symbol (E_SYMBOL a) s = (a = s)"
| "depends_symbol (E_EQUAL l r) s = (l = s \<and> (r = symbol_yes \<or> r = symbol_mod))"
| "depends_symbol (E_UNEQUAL l r) s = (l = s \<and> r = symbol_no)"
| "depends_symbol _ s = False"

definition expr_depends_symbol :: "expr option \<Rightarrow> symbol \<Rightarrow> bool" where
  "expr_depends_symbol dep s = (case dep of None \<Rightarrow> False | Some e \<Rightarrow> depends_symbol e s)"

section \<open>Extraction of common operands\<close>

definition alloc_two :: "expr_type \<Rightarrow> expr \<Rightarrow> expr \<Rightarrow> expr" where
  "alloc_two type e1 e2 = (if type = T_OR then E_OR e1 e2 else E_AND e1 e2)"

definition extract_leaf :: "expr_type \<Rightarrow> expr option \<Rightarrow> expr \<Rightarrow> expr \<Rightarrow> expr option \<times> expr \<times> expr" where
  "extract_leaf type ep e1 e2 =
     (if expr_eq e1 e2
      then (Some (case ep of None \<Rightarrow> e1 | Some e \<Rightarrow> alloc_two type e e1), unit_of type, unit_of type)
      else (ep, e1, e2))"

fun extract_right :: "expr_type \<Rightarrow> expr option \<Rightarrow> expr \<Rightarrow> expr \<Rightarrow> expr option \<times> expr \<times> expr" where
  "extract_right type ep e1 (E_OR l r) =
     (if type = T_OR
      then let (ep, e1, l) = extract_right type ep e1 l; (ep, e1, r) = extract_right type ep e1 r in (ep, e1, E_OR l r)
      else extract_leaf type ep e1 (E_OR l r))"
| "extract_right type ep e1 (E_AND l r) =
     (if type = T_AND
      then let (ep, e1, l) = extract_right type ep e1 l; (ep, e1, r) = extract_right type ep e1 r in (ep, e1, E_AND l r)
      else extract_leaf type ep e1 (E_AND l r))"
| "extract_right type ep e1 e2 = extract_leaf type ep e1 e2"

fun expr_extract_eq :: "expr_type \<Rightarrow> expr option \<Rightarrow> expr \<Rightarrow> expr \<Rightarrow> expr option \<times> expr \<times> expr" where
  "expr_extract_eq type ep (E_OR l r) e2 =
     (if type = T_OR
      then let (ep, l, e2) = expr_extract_eq type ep l e2; (ep, r, e2) = expr_extract_eq type ep r e2 in (ep, E_OR l r, e2)
      else extract_right type ep (E_OR l r) e2)"
| "expr_extract_eq type ep (E_AND l r) e2 =
     (if type = T_AND
      then let (ep, l, e2) = expr_extract_eq type ep l e2; (ep, r, e2) = expr_extract_eq type ep r e2 in (ep, E_AND l r, e2)
      else extract_right type ep (E_AND l r) e2)"
| "expr_extract_eq type ep e1 e2 = extract_right type ep e1 e2"

definition expr_extract_eq_and :: "expr \<Rightarrow> expr \<Rightarrow> expr option \<times> expr \<times> expr" where
  "expr_extract_eq_and e1 e2 =
     (case expr_extract_eq T_AND None e1 e2 of
        (None, e1, e2) \<Rightarrow> (None, e1, e2)
      | (Some tmp, e1, e2) \<Rightarrow> (Some tmp, expr_eliminate_yn e1, expr_eliminate_yn e2))"

definition expr_extract_eq_or :: "expr \<Rightarrow> expr \<Rightarrow> expr option \<times> expr \<times> expr" where
  "expr_extract_eq_or e1 e2 =
     (case expr_extract_eq T_OR None e1 e2 of
        (None, e1, e2) \<Rightarrow> (None, e1, e2)
      | (Some tmp, e1, e2) \<Rightarrow> (Some tmp, expr_eliminate_yn e1, expr_eliminate_yn e2))"

section \<open>Comparison with a constant\<close>

text \<open>
  The type is \<^verbatim>\<open>E_EQUAL\<close> or \<^verbatim>\<open>E_UNEQUAL\<close>; \<open>eq\<close> says which.  For a symbol other than the three constants
  the comparison of a comparison is the null pointer.
\<close>

definition negate :: "bool \<Rightarrow> expr \<Rightarrow> expr" where
  "negate eq e = (if eq then e else E_NOT e)"

fun trans_compare :: "expr \<Rightarrow> bool \<Rightarrow> symbol \<Rightarrow> expr option" where
  "trans_compare (E_AND l r) eq s =
     (case (trans_compare l True s, trans_compare r True s) of
        (Some e1, Some e2) \<Rightarrow>
          Some (negate eq (if s = symbol_yes then E_AND e1 e2 else if s = symbol_no then E_OR e1 e2 else E_AND l r))
      | _ \<Rightarrow> Some (negate eq (E_AND l r)))"
| "trans_compare (E_OR l r) eq s =
     (case (trans_compare l True s, trans_compare r True s) of
        (Some e1, Some e2) \<Rightarrow>
          Some (negate eq (if s = symbol_yes then E_OR e1 e2 else if s = symbol_no then E_AND e1 e2 else E_OR l r))
      | _ \<Rightarrow> Some (negate eq (E_OR l r)))"
| "trans_compare (E_NOT l) eq s = trans_compare l (\<not> eq) s"
| "trans_compare (E_SYMBOL a) eq s = Some (if eq then E_EQUAL a s else E_UNEQUAL a s)"
| "trans_compare e eq s =
     (if s = symbol_yes then Some (negate eq (expr_copy e))
      else if s = symbol_mod then Some (E_SYMBOL (if eq then symbol_no else symbol_yes))
      else if s = symbol_no then Some (negate (\<not> eq) (expr_copy e))
      else None)"

definition expr_trans_compare :: "expr option \<Rightarrow> bool \<Rightarrow> symbol \<Rightarrow> expr option" where
  "expr_trans_compare e eq s =
     (case e of None \<Rightarrow> Some (negate eq (E_SYMBOL s)) | Some e \<Rightarrow> trans_compare e eq s)"

end
