(* ===== verification/Kexprlem.thy ===== *)
theory Kexprlem
  imports Kexpr
begin

text \<open>
  The operations on dependency expressions keep the value of the expression, for every table of symbols
  that the tool can have.
\<close>

section \<open>Truth values\<close>

instantiation tristate :: linorder
begin

definition less_eq_tristate :: "tristate \<Rightarrow> tristate \<Rightarrow> bool" where
  "less_eq_tristate a b = (tri_nat a \<le> tri_nat b)"

definition less_tristate :: "tristate \<Rightarrow> tristate \<Rightarrow> bool" where
  "less_tristate a b = (tri_nat a < tri_nat b)"

instance
proof
  show "x = y" if "x \<le> y" "y \<le> x" for x y :: tristate
    using that by (cases x; cases y) (simp_all add: less_eq_tristate_def)
qed (auto simp: less_eq_tristate_def less_tristate_def)

end

lemma tri_ops: "EXPR_OR a b = max a b" "EXPR_AND a b = min a b"
  by (cases a; cases b; simp add: EXPR_OR_def EXPR_AND_def max_def min_def less_eq_tristate_def)+

lemma tri_le [simp]: "no \<le> a" "a \<le> yes" "a \<le> no \<longleftrightarrow> a = no" "yes \<le> a \<longleftrightarrow> a = yes"
  by (cases a; simp add: less_eq_tristate_def)+

lemma tri_units [simp]: "max no a = a" "max a no = a" "min yes a = a" "min a yes = a" "max yes a = yes" "max a yes = yes"
    "min no a = no" "min a no = no" for a :: tristate
  by (simp_all add: max_def min_def)

lemma tri_no_iff [simp]: "min a b = no \<longleftrightarrow> a = no \<or> b = no" "max a b = no \<longleftrightarrow> a = no \<and> b = no"
  by (cases a; cases b; simp add: max_def min_def less_eq_tristate_def)+

lemma tri_not [simp]: "EXPR_NOT (EXPR_NOT a) = a" "EXPR_NOT (max a b) = min (EXPR_NOT a) (EXPR_NOT b)"
    "EXPR_NOT (min a b) = max (EXPR_NOT a) (EXPR_NOT b)"
  by (cases a; cases b; simp add: max_def min_def less_eq_tristate_def)+

text \<open>
  The tables of the tool: the three constants are as \<^verbatim>\<open>symbol.c\<close> defines them, a boolean symbol is never \<open>m\<close>
  (\<^verbatim>\<open>sym_calc_value\<close>), and constants are found by name (\<^verbatim>\<open>sym_lookup\<close>), so two of them have different names.
\<close>

definition wf_symtab :: "symtab \<Rightarrow> bool" where
  "wf_symtab st =
     (sym_type st symbol_no = S_UNKNOWN \<and> sym_type st symbol_mod = S_UNKNOWN \<and> sym_type st symbol_yes = S_UNKNOWN \<and>
      curr_tri st symbol_no = no \<and> curr_tri st symbol_mod = mod_t \<and> curr_tri st symbol_yes = yes \<and>
      curr_val st symbol_no = ''n'' \<and> curr_val st symbol_mod = ''m'' \<and> curr_val st symbol_yes = ''y'' \<and>
      (\<forall>s. sym_type st s = S_BOOLEAN \<longrightarrow> curr_tri st s \<noteq> mod_t) \<and>
      (\<forall>a b. sym_const st a \<longrightarrow> sym_const st b \<longrightarrow> sym_get_string_value st a = sym_get_string_value st b \<longrightarrow> a = b))"

lemma wf_const [simp]:
  assumes "wf_symtab st"
  shows "curr_tri st symbol_no = no" "curr_tri st symbol_mod = mod_t" "curr_tri st symbol_yes = yes"
    "sym_get_string_value st symbol_no = ''n''" "sym_get_string_value st symbol_mod = ''m''"
    "sym_get_string_value st symbol_yes = ''y''"
    "sym_type st symbol_no = S_UNKNOWN" "sym_type st symbol_mod = S_UNKNOWN" "sym_type st symbol_yes = S_UNKNOWN"
  using assms by (simp_all add: wf_symtab_def sym_get_string_value_def)

lemma tri_string:
  "sym_type st s = S_BOOLEAN \<or> sym_type st s = S_TRISTATE \<Longrightarrow> sym_get_string_value st s = tri_str (curr_tri st s)"
  by (auto simp: sym_get_string_value_def)

lemma tri_str_iff [simp]:
  "tri_str a = ''n'' \<longleftrightarrow> a = no" "tri_str a = ''m'' \<longleftrightarrow> a = mod_t" "tri_str a = ''y'' \<longleftrightarrow> a = yes"
  by (cases a; simp)+

lemma bool_tri: "wf_symtab st \<Longrightarrow> sym_type st s = S_BOOLEAN \<Longrightarrow> curr_tri st s = no \<or> curr_tri st s = yes"
  unfolding wf_symtab_def by (cases "curr_tri st s") blast+

section \<open>Constants\<close>

lemma calc_symbol_eq: "e = E_SYMBOL s \<Longrightarrow> calc_value st e = curr_tri st s"
  by simp

lemma eliminate_yn_value: "wf_symtab st \<Longrightarrow> calc_value st (expr_eliminate_yn e) = calc_value st e"
  by (induction e) (auto simp: Let_def tri_ops dest: calc_symbol_eq)

section \<open>Equality\<close>

definition op_of :: "expr_type \<Rightarrow> tristate \<Rightarrow> tristate \<Rightarrow> tristate" where
  "op_of type = (if type = T_OR then max else min)"

lemma op_of_unit [simp]: "wf_symtab st \<Longrightarrow> op_of type (calc_value st (unit_of type)) c = c"
  by (simp add: op_of_def unit_of_def)

lemma op_of_ac: "op_of type (op_of type a b) c = op_of type a (op_of type b c)" "op_of type a b = op_of type b a"
    "op_of type a (op_of type b c) = op_of type b (op_of type a c)"
  by (simp_all add: op_of_def ac_simps)

lemma op_of_calc:
  "op_of T_OR (calc_value st l) (calc_value st r) = calc_value st (E_OR l r)"
  "op_of T_AND (calc_value st l) (calc_value st r) = calc_value st (E_AND l r)"
  by (simp_all add: op_of_def tri_ops)

text \<open>Both expressions are their rests joined with the same value.\<close>

definition common :: "symtab \<Rightarrow> expr_type \<Rightarrow> expr \<times> expr \<Rightarrow> expr \<times> expr \<Rightarrow> bool" where
  "common st type p q = (\<exists>c. calc_value st (fst p) = op_of type (calc_value st (fst q)) c \<and>
     calc_value st (snd p) = op_of type (calc_value st (snd q)) c)"

lemma common_refl:
  assumes "wf_symtab st"
  shows "common st type p p"
proof -
  have "x = op_of type x (calc_value st (unit_of type))" for x using op_of_unit [OF assms, of type x] by (simp add: op_of_ac)
  then show ?thesis unfolding common_def by blast
qed

lemma common_leaf:
  assumes "wf_symtab st" "eq e1 e2 \<Longrightarrow> calc_value st e1 = calc_value st e2"
  shows "common st type (e1, e2) (eliminate_leaf eq type e1 e2)"
proof (cases "eliminate_leaf eq type e1 e2 = (e1, e2)")
  case True
  then show ?thesis using common_refl [OF assms(1)] by simp
next
  case False
  then have "eq e1 e2" "eliminate_leaf eq type e1 e2 = (unit_of type, unit_of type)"
    by (auto simp: eliminate_leaf_def split: if_splits)
  then show ?thesis using assms by (auto simp: common_def)
qed

lemma common_left:
  assumes "common st type (l, e2) (l', e2')" "common st type (r, e2') (r', e2'')"
    "\<And>a b. calc_value st (f a b) = op_of type (calc_value st a) (calc_value st b)"
  shows "common st type (f l r, e2) (f l' r', e2'')"
proof -
  obtain c d where "calc_value st l = op_of type (calc_value st l') c" "calc_value st e2 = op_of type (calc_value st e2') c"
    "calc_value st r = op_of type (calc_value st r') d" "calc_value st e2' = op_of type (calc_value st e2'') d"
    using assms(1,2) by (auto simp: common_def)
  then show ?thesis unfolding common_def by (intro exI [of _ "op_of type c d"]) (simp add: assms(3) op_of_ac)
qed

lemma common_swap: "common st type (a, b) (a', b') \<longleftrightarrow> common st type (b, a) (b', a')"
  by (auto simp: common_def)

lemma common_right:
  assumes "common st type (e1, l) (e1', l')" "common st type (e1', r) (e1'', r')"
    "\<And>a b. calc_value st (f a b) = op_of type (calc_value st a) (calc_value st b)"
  shows "common st type (e1, f l r) (e1'', f l' r')"
  using common_left [of st type l e1 l' e1' r r' e1'' f] assms by (simp add: common_swap)

lemma eliminate_right_common:
  assumes "wf_symtab st"
  shows "(\<And>x y. size x \<le> size e1 \<Longrightarrow> size y \<le> size e2 \<Longrightarrow> eq x y \<Longrightarrow> calc_value st x = calc_value st y) \<Longrightarrow>
    common st type (e1, e2) (eliminate_right eq type e1 e2)"
proof (induction e2 arbitrary: e1)
  case (E_OR l r)
  show ?case
  proof (cases "type = T_OR")
    case True
    obtain e1' l' where 1: "eliminate_right eq type e1 l = (e1', l')" by fastforce
    obtain e1'' r' where 2: "eliminate_right eq type e1' r = (e1'', r')" by fastforce
    note sz = eliminate_right_size [OF 1]
    have a: "common st type (e1, l) (e1', l')" unfolding 1 [symmetric] by (intro E_OR.IH E_OR.prems) simp_all
    have b: "common st type (e1', r) (e1'', r')" unfolding 2 [symmetric] using sz by (intro E_OR.IH E_OR.prems) simp_all
    have "common st type (e1, E_OR l r) (e1'', E_OR l' r')"
      by (rule common_right [OF a b]) (simp add: True op_of_calc del: calc_value.simps)
    then show ?thesis using True 1 2 by simp
  next
    case False
    have "common st type (e1, E_OR l r) (eliminate_leaf eq type e1 (E_OR l r))"
      by (intro common_leaf assms E_OR.prems) simp_all
    then show ?thesis using False by simp
  qed
next
  case (E_AND l r)
  show ?case
  proof (cases "type = T_AND")
    case True
    obtain e1' l' where 1: "eliminate_right eq type e1 l = (e1', l')" by fastforce
    obtain e1'' r' where 2: "eliminate_right eq type e1' r = (e1'', r')" by fastforce
    note sz = eliminate_right_size [OF 1]
    have a: "common st type (e1, l) (e1', l')" unfolding 1 [symmetric] by (intro E_AND.IH E_AND.prems) simp_all
    have b: "common st type (e1', r) (e1'', r')" unfolding 2 [symmetric] using sz by (intro E_AND.IH E_AND.prems) simp_all
    have "common st type (e1, E_AND l r) (e1'', E_AND l' r')"
      by (rule common_right [OF a b]) (simp add: True op_of_calc del: calc_value.simps)
    then show ?thesis using True 1 2 by simp
  next
    case False
    have "common st type (e1, E_AND l r) (eliminate_leaf eq type e1 (E_AND l r))"
      by (intro common_leaf assms E_AND.prems) simp_all
    then show ?thesis using False by simp
  qed
qed (simp only: eliminate_right.simps, rule common_leaf [OF assms], metis order_refl)+

lemma eliminate_right_common_part:
  assumes "wf_symtab st" "\<not> (expr_typ e1 = type \<and> type \<in> {T_OR, T_AND})"
    "\<And>x y. part_of type e1 e2 x y \<Longrightarrow> eq x y \<Longrightarrow> calc_value st x = calc_value st y"
  shows "common st type (e1, e2) (eliminate_right eq type e1 e2)"
  by (rule eliminate_right_common [OF assms(1)], rule assms(3)) (use assms(2) in \<open>auto simp: part_of_def\<close>)

lemma eliminate_eq1_common:
  assumes "wf_symtab st"
  shows "(\<And>x y. part_of type e1 e2 x y \<Longrightarrow> eq x y \<Longrightarrow> calc_value st x = calc_value st y) \<Longrightarrow>
    common st type (e1, e2) (eliminate_eq1 eq type e1 e2)"
proof (induction e1 arbitrary: e2)
  case (E_OR l r)
  show ?case
  proof (cases "type = T_OR")
    case True
    obtain l' e2' where 1: "eliminate_eq1 eq type l e2 = (l', e2')" by fastforce
    obtain r' e2'' where 2: "eliminate_eq1 eq type r e2' = (r', e2'')" by fastforce
    note sz = eliminate_eq1_size [OF 1]
    have a: "common st type (l, e2) (l', e2')" unfolding 1 [symmetric]
      by (intro E_OR.IH E_OR.prems) (auto intro: part_of_le)
    have b: "common st type (r, e2') (r', e2'')" unfolding 2 [symmetric] using sz
      by (intro E_OR.IH E_OR.prems) (auto intro: part_of_le part_of_right)
    have "common st type (E_OR l r, e2) (E_OR l' r', e2'')"
      by (rule common_left [OF a b]) (simp add: True op_of_calc del: calc_value.simps)
    then show ?thesis using True 1 2 by simp
  next
    case False
    have "common st type (E_OR l r, e2) (eliminate_right eq type (E_OR l r) e2)"
      by (rule eliminate_right_common_part [OF assms]) (use False E_OR.prems in auto)
    then show ?thesis using False by simp
  qed
next
  case (E_AND l r)
  show ?case
  proof (cases "type = T_AND")
    case True
    obtain l' e2' where 1: "eliminate_eq1 eq type l e2 = (l', e2')" by fastforce
    obtain r' e2'' where 2: "eliminate_eq1 eq type r e2' = (r', e2'')" by fastforce
    note sz = eliminate_eq1_size [OF 1]
    have a: "common st type (l, e2) (l', e2')" unfolding 1 [symmetric]
      by (intro E_AND.IH E_AND.prems) (auto intro: part_of_le)
    have b: "common st type (r, e2') (r', e2'')" unfolding 2 [symmetric] using sz
      by (intro E_AND.IH E_AND.prems) (auto intro: part_of_le part_of_right)
    have "common st type (E_AND l r, e2) (E_AND l' r', e2'')"
      by (rule common_left [OF a b]) (simp add: True op_of_calc del: calc_value.simps)
    then show ?thesis using True 1 2 by simp
  next
    case False
    have "common st type (E_AND l r, e2) (eliminate_right eq type (E_AND l r) e2)"
      by (rule eliminate_right_common_part [OF assms]) (use False E_AND.prems in auto)
    then show ?thesis using False by simp
  qed
qed (simp only: eliminate_eq1.simps, rule eliminate_right_common_part [OF assms], force, blast)+

text \<open>Equal rests mean equal expressions.\<close>

lemma common_rest:
  assumes "wf_symtab st" "common st type p (x, y)" "expr_eliminate_yn x = expr_eliminate_yn y"
  shows "calc_value st (fst p) = calc_value st (snd p)"
proof -
  have "calc_value st x = calc_value st y"
    using eliminate_yn_value [OF assms(1), of x] eliminate_yn_value [OF assms(1), of y] assms(3) by simp
  then show ?thesis using assms(2) by (auto simp: common_def)
qed

lemma expr_eq_value:
  assumes "wf_symtab st"
  shows "expr_eq e1 e2 \<Longrightarrow> calc_value st e1 = calc_value st e2"
proof (induction e1 e2 rule: expr_eq.induct)
  case (5 l r l' r')
  obtain x y where e: "eliminate_eq1 expr_eq T_AND (E_AND l r) (E_AND l' r') = (x, y)" by fastforce
  have "common st T_AND (E_AND l r, E_AND l' r') (x, y)" unfolding e [symmetric]
    by (rule eliminate_eq1_common [OF assms]) (use 5 in blast)
  from common_rest [OF assms this] show ?case using 5(2) e by (simp add: Let_def)
next
  case (6 l r l' r')
  obtain x y where e: "eliminate_eq1 expr_eq T_OR (E_OR l r) (E_OR l' r') = (x, y)" by fastforce
  have "common st T_OR (E_OR l r, E_OR l' r') (x, y)" unfolding e [symmetric]
    by (rule eliminate_eq1_common [OF assms]) (use 6 in blast)
  from common_rest [OF assms this] show ?case using 6(2) e by (simp add: Let_def)
qed simp_all

lemma eliminate_value:
  assumes "wf_symtab st" "eliminate_eq1 expr_eq type e1 e2 = (x, y)"
  shows "common st type (e1, e2) (x, y)"
  unfolding assms(2) [symmetric] by (rule eliminate_eq1_common [OF assms(1)]) (rule expr_eq_value [OF assms(1)])

section \<open>Joining\<close>

lemma join_symD:
  assumes "join_sym st e1 e2 = Some s"
  shows "join_sym1 e1 = Some s" "join_sym2 e2 = Some s" "sym_type st s = S_BOOLEAN \<or> sym_type st s = S_TRISTATE"
  using assms by (auto simp: join_sym_def split: option.splits if_splits)

lemma sym1_simps:
  "join_sym1 (E_EQUAL a b) = Some s \<longleftrightarrow> a = s" "join_sym1 (E_UNEQUAL a b) = Some s \<longleftrightarrow> a = s" "join_sym1 (E_SYMBOL a) = Some s \<longleftrightarrow> a = s"
  "join_sym2 (E_EQUAL a b) = Some s \<longleftrightarrow> a = s" "join_sym2 (E_UNEQUAL a b) = Some s \<longleftrightarrow> a = s" "join_sym2 (E_SYMBOL a) = Some s \<longleftrightarrow> a = s"
  "join_sym1 (E_NOT (E_SYMBOL a)) = Some s \<longleftrightarrow> a = s" "join_sym2 (E_NOT (E_SYMBOL a)) = Some s \<longleftrightarrow> a = s"
  by (simp_all add: join_sym1_def join_sym2_def)

lemma both_equalD:
  "both_equal e1 e2 a b \<Longrightarrow> join_sym1 e1 = Some s \<Longrightarrow> join_sym2 e2 = Some s \<Longrightarrow>
     e1 = E_EQUAL s a \<and> e2 = E_EQUAL s b \<or> e1 = E_EQUAL s b \<and> e2 = E_EQUAL s a"
  by (auto simp: both_equal_def sym1_simps split: expr.splits)

lemma both_unequalD:
  "both_unequal e1 e2 a b \<Longrightarrow> join_sym1 e1 = Some s \<Longrightarrow> join_sym2 e2 = Some s \<Longrightarrow>
     e1 = E_UNEQUAL s a \<and> e2 = E_UNEQUAL s b \<or> e1 = E_UNEQUAL s b \<and> e2 = E_UNEQUAL s a"
  by (auto simp: both_unequal_def sym1_simps split: expr.splits)

lemma symbol_and_equalD:
  "symbol_and e1 e2 (is_equal_to a) \<Longrightarrow> join_sym1 e1 = Some s \<Longrightarrow> join_sym2 e2 = Some s \<Longrightarrow>
     e1 = E_SYMBOL s \<and> e2 = E_EQUAL s a \<or> e1 = E_EQUAL s a \<and> e2 = E_SYMBOL s"
  by (cases e1; cases e2; auto simp: symbol_and_def is_equal_to_def sym1_simps)

lemma symbol_and_unequalD:
  "symbol_and e1 e2 (is_unequal_to a) \<Longrightarrow> join_sym1 e1 = Some s \<Longrightarrow> join_sym2 e2 = Some s \<Longrightarrow>
     e1 = E_SYMBOL s \<and> e2 = E_UNEQUAL s a \<or> e1 = E_UNEQUAL s a \<and> e2 = E_SYMBOL s"
  by (cases e1; cases e2; auto simp: symbol_and_def is_unequal_to_def sym1_simps)

lemma not_and_symbolD:
  "not_and_symbol e1 e2 \<Longrightarrow> \<exists>a b. e1 = E_NOT (E_SYMBOL a) \<and> e2 = E_SYMBOL b"
  by (auto simp: not_and_symbol_def split: expr.splits)

lemma join_eq_uneqD:
  "join_eq_uneq st s e1 e2 = Some x \<Longrightarrow> \<exists>a b c d. e1 = E_EQUAL a b \<and> e2 = E_UNEQUAL c d \<and> sym_const st b \<and> sym_const st d \<and>
     x = (if b \<noteq> d then E_EQUAL s b else E_SYMBOL symbol_no)"
  by (auto simp: join_eq_uneq_def split: expr.splits if_splits)

lemma const_inj:
  "wf_symtab st \<Longrightarrow> sym_const st a \<Longrightarrow> sym_const st b \<Longrightarrow> sym_get_string_value st a = sym_get_string_value st b \<longleftrightarrow> a = b"
  unfolding wf_symtab_def by blast

lemma join_or_value:
  assumes wf: "wf_symtab st" and j: "expr_join_or st e1 e2 = Some e"
  shows "calc_value st e = calc_value st (E_OR e1 e2)"
proof (cases "expr_eq e1 e2")
  case True
  then show ?thesis using j expr_eq_value [OF wf True] by (simp add: expr_join_or_def tri_ops)
next
  case False
  then obtain s where js: "join_sym st e1 e2 = Some s" using j by (cases "join_sym st e1 e2") (simp_all add: expr_join_or_def)
  note D = join_symD [OF js]
  note str = tri_string [OF D(3)]
  consider (ym) "both_equal e1 e2 symbol_yes symbol_mod" "e = E_UNEQUAL s symbol_no"
    | (yn) "both_equal e1 e2 symbol_yes symbol_no" "e = E_UNEQUAL s symbol_mod"
    | (mn) "both_equal e1 e2 symbol_mod symbol_no" "e = E_UNEQUAL s symbol_yes"
    | (bool) "sym_type st s = S_BOOLEAN" "not_and_symbol e1 e2 \<or> not_and_symbol e2 e1" "e = E_SYMBOL symbol_yes"
    using j js False by (auto simp: expr_join_or_def split: if_splits)
  then show ?thesis
  proof cases
    case ym
    then show ?thesis using both_equalD [OF ym(1) D(1,2)] wf by (cases "curr_tri st s") (auto simp: tri_ops str)
  next
    case yn
    then show ?thesis using both_equalD [OF yn(1) D(1,2)] wf by (cases "curr_tri st s") (auto simp: tri_ops str)
  next
    case mn
    then show ?thesis using both_equalD [OF mn(1) D(1,2)] wf by (cases "curr_tri st s") (auto simp: tri_ops str)
  next
    case bool
    then have "e1 = E_NOT (E_SYMBOL s) \<and> e2 = E_SYMBOL s \<or> e1 = E_SYMBOL s \<and> e2 = E_NOT (E_SYMBOL s)"
      using D(1,2) by (auto dest!: not_and_symbolD simp: sym1_simps)
    then show ?thesis using bool_tri [OF wf bool(1)] bool(3) wf by (auto simp: tri_ops)
  qed
qed

text \<open>The rule that made the result.\<close>

lemma join_and_rules:
  assumes j: "expr_join_and st e1 e2 = Some e" and ne: "\<not> expr_eq e1 e2" and js: "join_sym st e1 e2 = Some s"
  shows "symbol_and e1 e2 (is_equal_to symbol_yes) \<and> e = E_EQUAL s symbol_yes
    \<or> symbol_and e1 e2 (is_unequal_to symbol_no) \<and> e = E_SYMBOL s
    \<or> symbol_and e1 e2 (is_unequal_to symbol_mod) \<and> e = E_EQUAL s symbol_yes
    \<or> join_eq_uneq st s e1 e2 = Some e \<or> join_eq_uneq st s e2 e1 = Some e
    \<or> sym_type st s = S_TRISTATE \<and> (both_unequal e1 e2 symbol_yes symbol_no \<and> e = E_EQUAL s symbol_mod
        \<or> both_unequal e1 e2 symbol_yes symbol_mod \<and> e = E_EQUAL s symbol_no
        \<or> both_unequal e1 e2 symbol_mod symbol_no \<and> e = E_EQUAL s symbol_yes)"
  using j unfolding expr_join_and_def js option.case if_not_P [OF ne] by (simp split: if_split_asm)

lemma join_and_value:
  assumes wf: "wf_symtab st" and j: "expr_join_and st e1 e2 = Some e"
  shows "calc_value st e = calc_value st (E_AND e1 e2)"
proof (cases "expr_eq e1 e2")
  case True
  then show ?thesis using j expr_eq_value [OF wf True] by (simp add: expr_join_and_def tri_ops)
next
  case False
  then obtain s where js: "join_sym st e1 e2 = Some s" using j by (cases "join_sym st e1 e2") (simp_all add: expr_join_and_def)
  note D = join_symD [OF js]
  note str = tri_string [OF D(3)]
  consider (sy) "symbol_and e1 e2 (is_equal_to symbol_yes)" "e = E_EQUAL s symbol_yes"
    | (sn) "symbol_and e1 e2 (is_unequal_to symbol_no)" "e = E_SYMBOL s"
    | (sm) "symbol_and e1 e2 (is_unequal_to symbol_mod)" "e = E_EQUAL s symbol_yes"
    | (eu) "join_eq_uneq st s e1 e2 = Some e"
    | (ue) "join_eq_uneq st s e2 e1 = Some e"
    | (yn) "both_unequal e1 e2 symbol_yes symbol_no" "e = E_EQUAL s symbol_mod" "sym_type st s = S_TRISTATE"
    | (ym) "both_unequal e1 e2 symbol_yes symbol_mod" "e = E_EQUAL s symbol_no" "sym_type st s = S_TRISTATE"
    | (mn) "both_unequal e1 e2 symbol_mod symbol_no" "e = E_EQUAL s symbol_yes" "sym_type st s = S_TRISTATE"
    using join_and_rules [OF j False js] by blast
  then show ?thesis
  proof cases
    case sy
    then show ?thesis using symbol_and_equalD [OF sy(1) D(1,2)] wf by (cases "curr_tri st s") (auto simp: tri_ops str)
  next
    case sn
    then show ?thesis using symbol_and_unequalD [OF sn(1) D(1,2)] wf by (cases "curr_tri st s") (auto simp: tri_ops str)
  next
    case sm
    then show ?thesis using symbol_and_unequalD [OF sm(1) D(1,2)] wf by (cases "curr_tri st s") (auto simp: tri_ops str)
  next
    case eu
    then obtain b d where "e1 = E_EQUAL s b" "e2 = E_UNEQUAL s d" "sym_const st b" "sym_const st d"
      "e = (if b \<noteq> d then E_EQUAL s b else E_SYMBOL symbol_no)"
      using D(1,2) by (auto dest!: join_eq_uneqD simp: sym1_simps)
    then show ?thesis using wf const_inj [OF wf, of b d] by (auto simp: tri_ops)
  next
    case ue
    then obtain b d where "e2 = E_EQUAL s b" "e1 = E_UNEQUAL s d" "sym_const st b" "sym_const st d"
      "e = (if b \<noteq> d then E_EQUAL s b else E_SYMBOL symbol_no)"
      using D(1,2) by (auto dest!: join_eq_uneqD simp: sym1_simps)
    then show ?thesis using wf const_inj [OF wf, of b d] by (auto simp: tri_ops)
  next
    case yn
    then show ?thesis using both_unequalD [OF yn(1) D(1,2)] wf by (cases "curr_tri st s") (auto simp: tri_ops str)
  next
    case ym
    then show ?thesis using both_unequalD [OF ym(1) D(1,2)] wf by (cases "curr_tri st s") (auto simp: tri_ops str)
  next
    case mn
    then show ?thesis using both_unequalD [OF mn(1) D(1,2)] wf by (cases "curr_tri st s") (auto simp: tri_ops str)
  qed
qed

section \<open>Normal form\<close>

text \<open>Negation only in front of a symbol that is not a constant, and no comparison of a boolean symbol with a constant.\<close>

fun normal :: "symtab \<Rightarrow> expr \<Rightarrow> bool" where
  "normal st (E_OR l r) = (normal st l \<and> normal st r)"
| "normal st (E_AND l r) = (normal st l \<and> normal st r)"
| "normal st (E_NOT e) = (\<exists>s \<in> {Sym n | n. True}. e = E_SYMBOL s)"
| "normal st (E_EQUAL l r) = (sym_type st l = S_BOOLEAN \<longrightarrow> r \<notin> {symbol_no, symbol_mod, symbol_yes})"
| "normal st (E_UNEQUAL l r) = (sym_type st l = S_BOOLEAN \<longrightarrow> r \<notin> {symbol_no, symbol_mod, symbol_yes})"
| "normal st (E_SYMBOL s) = True"

lemma transform_value:
  assumes wf: "wf_symtab st"
  shows "calc_value st (expr_transform st e) = calc_value st e"
  using assms
proof (induction st e rule: expr_transform.induct)
  case (1 st l r)
  then show ?case using bool_tri [of st l] by (auto simp: transform_equal_def tri_string)
next
  case (2 st l r)
  then show ?case using bool_tri [of st l] by (auto simp: transform_unequal_def tri_string)
next
  case (6 st e)
  have e: "calc_value st (E_NOT e) = EXPR_NOT (calc_value st (expr_transform st e))" using 6 by simp
  note T = expr_transform.simps(6) [of st e]
  show ?case
  proof (cases "expr_transform st e")
    case (E_OR l r)
    then show ?thesis unfolding T using 6(2) [OF E_OR 6(5)] e
      by (simp add: tri_ops del: expr_transform.simps)
  next
    case (E_AND l r)
    then show ?thesis unfolding T using 6(3) [OF E_AND 6(5)] e
      by (simp add: tri_ops del: expr_transform.simps)
  next
    case (E_NOT x)
    then show ?thesis unfolding T using 6(4) [OF E_NOT 6(5)] e by (simp del: expr_transform.simps)
  next
    case (E_SYMBOL s)
    then show ?thesis unfolding T using e 6(5) by (simp del: expr_transform.simps)
  qed (use e in \<open>simp_all only: T expr.case calc_value.simps\<close>, simp_all)
qed (simp_all add: tri_ops)

lemma transform_normal:
  assumes wf: "wf_symtab st"
  shows "normal st (expr_transform st e)"
  using assms
proof (induction st e rule: expr_transform.induct)
  case (1 st l r)
  then show ?case by (cases l) (auto simp: transform_equal_def)
next
  case (2 st l r)
  then show ?case by (cases l) (auto simp: transform_unequal_def)
next
  case (6 st e)
  then have n: "normal st (expr_transform st e)" by simp
  note T = expr_transform.simps(6) [of st e]
  show ?case
  proof (cases "expr_transform st e")
    case (E_OR l r)
    then show ?thesis unfolding T using 6(2) [OF E_OR 6(5)] by (simp del: expr_transform.simps)
  next
    case (E_AND l r)
    then show ?thesis unfolding T using 6(3) [OF E_AND 6(5)] by (simp del: expr_transform.simps)
  next
    case (E_NOT x)
    then show ?thesis unfolding T using 6(4) [OF E_NOT 6(5)] by (simp del: expr_transform.simps)
  next
    case (E_SYMBOL s)
    then show ?thesis unfolding T by (cases s) (simp_all del: expr_transform.simps)
  qed (use n in \<open>simp_all only: T expr.case normal.simps\<close>)
qed simp_all

lemma normal_transform:
  "normal st e \<Longrightarrow> expr_transform st e = e"
proof (induction e)
  case (E_EQUAL l r)
  then show ?case by (auto simp: transform_equal_def)
next
  case (E_UNEQUAL l r)
  then show ?case by (auto simp: transform_unequal_def)
qed auto

section \<open>Extraction\<close>

definition opt_value :: "symtab \<Rightarrow> expr_type \<Rightarrow> expr option \<Rightarrow> tristate" where
  "opt_value st type ep = (case ep of None \<Rightarrow> calc_value st (unit_of type) | Some e \<Rightarrow> calc_value st e)"

text \<open>What was taken out of both expressions was added to the third.\<close>

definition moved :: "symtab \<Rightarrow> expr_type \<Rightarrow> expr option \<times> expr \<times> expr \<Rightarrow> expr option \<times> expr \<times> expr \<Rightarrow> bool" where
  "moved st type p q =
     (\<exists>c. opt_value st type (fst q) = op_of type (opt_value st type (fst p)) c \<and>
          calc_value st (fst (snd p)) = op_of type (calc_value st (fst (snd q))) c \<and>
          calc_value st (snd (snd p)) = op_of type (calc_value st (snd (snd q))) c)"

lemma op_of_alloc:
  "type \<in> {T_OR, T_AND} \<Longrightarrow> calc_value st (alloc_two type a b) = op_of type (calc_value st a) (calc_value st b)"
  by (auto simp: alloc_two_def op_of_def tri_ops)

lemma moved_leaf:
  assumes wf: "wf_symtab st" and ty: "type \<in> {T_OR, T_AND}"
  shows "moved st type (ep, e1, e2) (extract_leaf type ep e1 e2)"
proof (cases "expr_eq e1 e2")
  case True
  have "opt_value st type (Some (case ep of None \<Rightarrow> e1 | Some e \<Rightarrow> alloc_two type e e1)) = op_of type (opt_value st type ep) (calc_value st e1)"
    using wf ty by (cases ep) (simp_all add: opt_value_def op_of_alloc)
  then show ?thesis using True expr_eq_value [OF wf True] wf
    by (auto simp: moved_def extract_leaf_def intro!: exI [of _ "calc_value st e1"])
next
  case False
  have u: "op_of type x (calc_value st (unit_of type)) = x" for x using op_of_unit [OF wf, of type x] by (simp add: op_of_ac)
  then show ?thesis using False by (auto simp: moved_def extract_leaf_def intro!: exI [of _ "calc_value st (unit_of type)"])
qed

lemma moved_left:
  assumes "moved st type (ep, l, e2) (ep', l', e2')" "moved st type (ep', r, e2') (ep'', r', e2'')"
    "\<And>a b. calc_value st (f a b) = op_of type (calc_value st a) (calc_value st b)"
  shows "moved st type (ep, f l r, e2) (ep'', f l' r', e2'')"
proof -
  obtain c d where "opt_value st type ep' = op_of type (opt_value st type ep) c" "opt_value st type ep'' = op_of type (opt_value st type ep') d"
    "calc_value st l = op_of type (calc_value st l') c" "calc_value st e2 = op_of type (calc_value st e2') c"
    "calc_value st r = op_of type (calc_value st r') d" "calc_value st e2' = op_of type (calc_value st e2'') d"
    using assms(1,2) by (auto simp: moved_def)
  then show ?thesis unfolding moved_def by (intro exI [of _ "op_of type c d"]) (simp add: assms(3) op_of_ac)
qed

lemma moved_swap: "moved st type (p, a, b) (q, a', b') \<longleftrightarrow> moved st type (p, b, a) (q, b', a')"
  by (auto simp: moved_def)

lemma moved_right:
  assumes "moved st type (ep, e1, l) (ep', e1', l')" "moved st type (ep', e1', r) (ep'', e1'', r')"
    "\<And>a b. calc_value st (f a b) = op_of type (calc_value st a) (calc_value st b)"
  shows "moved st type (ep, e1, f l r) (ep'', e1'', f l' r')"
  using moved_left [of st type ep l e1 ep' l' e1' r ep'' r' e1'' f] assms by (simp add: moved_swap)

lemma extract_right_moved:
  assumes wf: "wf_symtab st" and ty: "type \<in> {T_OR, T_AND}"
  shows "moved st type (ep, e1, e2) (extract_right type ep e1 e2)"
proof (induction e2 arbitrary: ep e1)
  case (E_OR l r)
  obtain p x l' where 1: "extract_right type ep e1 l = (p, x, l')" by (rule prod_cases3)
  obtain q y r' where 2: "extract_right type p x r = (q, y, r')" by (rule prod_cases3)
  have "moved st type (ep, e1, E_OR l r) (q, y, E_OR l' r')" if "type = T_OR"
    by (rule moved_right [OF E_OR.IH(1) [of ep e1, unfolded 1] E_OR.IH(2) [of p x, unfolded 2]])
      (simp add: that op_of_calc del: calc_value.simps)
  then show ?case using 1 2 moved_leaf [OF wf ty] by (cases "type = T_OR") simp_all
next
  case (E_AND l r)
  obtain p x l' where 1: "extract_right type ep e1 l = (p, x, l')" by (rule prod_cases3)
  obtain q y r' where 2: "extract_right type p x r = (q, y, r')" by (rule prod_cases3)
  have "moved st type (ep, e1, E_AND l r) (q, y, E_AND l' r')" if "type = T_AND"
    by (rule moved_right [OF E_AND.IH(1) [of ep e1, unfolded 1] E_AND.IH(2) [of p x, unfolded 2]])
      (simp add: that op_of_calc del: calc_value.simps)
  then show ?case using 1 2 moved_leaf [OF wf ty] by (cases "type = T_AND") simp_all
qed (simp_all add: moved_leaf [OF wf ty])

lemma extract_eq_moved:
  assumes wf: "wf_symtab st" and ty: "type \<in> {T_OR, T_AND}"
  shows "moved st type (ep, e1, e2) (expr_extract_eq type ep e1 e2)"
proof (induction e1 arbitrary: ep e2)
  case (E_OR l r)
  obtain p l' x where 1: "expr_extract_eq type ep l e2 = (p, l', x)" by (rule prod_cases3)
  obtain q r' y where 2: "expr_extract_eq type p r x = (q, r', y)" by (rule prod_cases3)
  have "moved st type (ep, E_OR l r, e2) (q, E_OR l' r', y)" if "type = T_OR"
    by (rule moved_left [OF E_OR.IH(1) [of ep e2, unfolded 1] E_OR.IH(2) [of p x, unfolded 2]])
      (simp add: that op_of_calc del: calc_value.simps)
  then show ?case using 1 2 extract_right_moved [OF wf ty] by (cases "type = T_OR") simp_all
next
  case (E_AND l r)
  obtain p l' x where 1: "expr_extract_eq type ep l e2 = (p, l', x)" by (rule prod_cases3)
  obtain q r' y where 2: "expr_extract_eq type p r x = (q, r', y)" by (rule prod_cases3)
  have "moved st type (ep, E_AND l r, e2) (q, E_AND l' r', y)" if "type = T_AND"
    by (rule moved_left [OF E_AND.IH(1) [of ep e2, unfolded 1] E_AND.IH(2) [of p x, unfolded 2]])
      (simp add: that op_of_calc del: calc_value.simps)
  then show ?case using 1 2 extract_right_moved [OF wf ty] by (cases "type = T_AND") simp_all
qed (simp_all add: extract_right_moved [OF wf ty])

lemma moved_none:
  assumes wf: "wf_symtab st" and m: "moved st type (None, e1, e2) (ep, x, y)"
  shows "calc_value st e1 = op_of type (opt_value st type ep) (calc_value st x)"
    "calc_value st e2 = op_of type (opt_value st type ep) (calc_value st y)"
proof -
  obtain c where "opt_value st type ep = op_of type (calc_value st (unit_of type)) c"
    "calc_value st e1 = op_of type (calc_value st x) c" "calc_value st e2 = op_of type (calc_value st y) c"
    using m by (auto simp: moved_def opt_value_def)
  moreover from this have "opt_value st type ep = c" using wf by simp
  ultimately show "calc_value st e1 = op_of type (opt_value st type ep) (calc_value st x)"
    "calc_value st e2 = op_of type (opt_value st type ep) (calc_value st y)" by (simp_all add: op_of_ac)
qed

lemma extract_and_value:
  assumes wf: "wf_symtab st" and x: "expr_extract_eq_and e1 e2 = (ep, x, y)"
  shows "calc_value st e1 = min (expr_calc_value st ep) (calc_value st x)" "calc_value st e2 = min (expr_calc_value st ep) (calc_value st y)"
proof -
  obtain p a b where e: "expr_extract_eq T_AND None e1 e2 = (p, a, b)" by (rule prod_cases3)
  have m: "moved st T_AND (None, e1, e2) (p, a, b)" using extract_eq_moved [OF wf, of T_AND None e1 e2] e by simp
  have "ep = p" "calc_value st x = calc_value st a" "calc_value st y = calc_value st b"
    using x e by (cases p; auto simp: expr_extract_eq_and_def eliminate_yn_value [OF wf])+
  moreover have "opt_value st T_AND p = expr_calc_value st p"
    using wf by (simp add: opt_value_def expr_calc_value_def unit_of_def split: option.split)
  ultimately show "calc_value st e1 = min (expr_calc_value st ep) (calc_value st x)" "calc_value st e2 = min (expr_calc_value st ep) (calc_value st y)"
    using moved_none [OF wf m] by (simp_all add: op_of_def)
qed

lemma eliminate_eq_value:
  assumes wf: "wf_symtab st" and e: "expr_eliminate_eq (Some e1) (Some e2) = (Some x, Some y)" and v: "calc_value st x = calc_value st y"
  shows "calc_value st e1 = calc_value st e2"
proof -
  have step: "calc_value st a = calc_value st b" if "eliminate_eq1 expr_eq t a b = (c, d)" "calc_value st c = calc_value st d" for t a b c d
    using eliminate_value [OF wf that(1)] that(2) by (auto simp: common_def)
  obtain a b where ab: "(if expr_typ e1 \<in> {T_OR, T_AND} then eliminate_eq1 expr_eq (expr_typ e1) e1 e2 else (e1, e2)) = (a, b)" by fastforce
  obtain c d where cd: "(if expr_typ a \<noteq> expr_typ b \<and> expr_typ b \<in> {T_OR, T_AND} then eliminate_eq1 expr_eq (expr_typ b) a b else (a, b)) = (c, d)"
    by fastforce
  have "x = expr_eliminate_yn c" "y = expr_eliminate_yn d"
    using e unfolding expr_eliminate_eq_def prod.case option.case Let_def ab cd by simp_all
  then have "calc_value st c = calc_value st d" using v eliminate_yn_value [OF wf] by simp
  then have "calc_value st a = calc_value st b" using cd step by (auto split: if_splits)
  then show ?thesis using ab step by (auto split: if_splits)
qed

section \<open>Dependence\<close>

lemma string_other:
  "x \<noteq> s \<Longrightarrow> sym_get_string_value (st\<lparr>curr_tri := (curr_tri st)(s := t), curr_val := (curr_val st)(s := v)\<rparr>) x =
     sym_get_string_value st x"
  by (cases "sym_type st x") (simp_all add: sym_get_string_value_def)

lemma calc_value_cong:
  "\<not> contains_symbol e s \<Longrightarrow>
     calc_value (st\<lparr>curr_tri := (curr_tri st)(s := t), curr_val := (curr_val st)(s := v)\<rparr>) e = calc_value st e"
  by (induction e) (auto simp: string_other)

lemma depends_value:
  assumes "wf_symtab st" "sym_type st s = S_BOOLEAN \<or> sym_type st s = S_TRISTATE"
  shows "depends_symbol e s \<Longrightarrow> calc_value st e \<noteq> no \<Longrightarrow> curr_tri st s \<noteq> no"
  using assms
  by (induction e) (auto simp: tri_ops tri_string split: if_splits)

section \<open>Comparison with a constant\<close>

fun bool_expr :: "symtab \<Rightarrow> expr \<Rightarrow> bool" where
  "bool_expr st (E_OR l r) = (bool_expr st l \<and> bool_expr st r)"
| "bool_expr st (E_AND l r) = (bool_expr st l \<and> bool_expr st r)"
| "bool_expr st (E_NOT l) = bool_expr st l"
| "bool_expr st (E_SYMBOL s) = (sym_type st s = S_BOOLEAN \<or> s = symbol_yes \<or> s = symbol_no)"
| "bool_expr st _ = True"

lemma negate_value [simp]: "calc_value st (negate eq e) = (if eq then calc_value st e else EXPR_NOT (calc_value st e))"
  by (simp add: negate_def)

text \<open>On boolean expressions a comparison with \<open>y\<close> is the expression and one with \<open>n\<close> its negation.\<close>

lemma trans_compare_value:
  assumes wf: "wf_symtab st" and s: "s = symbol_yes \<or> s = symbol_no"
  shows "bool_expr st e \<Longrightarrow> \<exists>x. trans_compare e eq s = Some x \<and>
    calc_value st x = (if eq = (s = symbol_yes) then calc_value st e else EXPR_NOT (calc_value st e))"
proof (induction e arbitrary: eq)
  case (E_OR l r)
  then have "bool_expr st l" "bool_expr st r" by simp_all
  from E_OR.IH(1) [OF this(1), of True] E_OR.IH(2) [OF this(2), of True]
  show ?case using s by (auto simp: tri_ops)
next
  case (E_AND l r)
  then have "bool_expr st l" "bool_expr st r" by simp_all
  from E_AND.IH(1) [OF this(1), of True] E_AND.IH(2) [OF this(2), of True]
  show ?case using s by (auto simp: tri_ops)
next
  case (E_NOT l)
  then have "bool_expr st l" by simp
  from E_NOT.IH [OF this, of "\<not> eq"] show ?case by (cases eq; cases "s = symbol_yes"; auto)
next
  case (E_SYMBOL a)
  then show ?case using s wf bool_tri [OF wf, of a] by (auto simp: tri_string)
qed (use s wf in auto)

section \<open>Properties\<close>

text \<open>
  C39: normalisation is total, keeps the value of every expression and gives a normal form: negations stand only in
  front of symbols, boolean symbols are not compared with constants; an expression in normal form is not changed.
\<close>

theorem expr_transform_normal:
  assumes "wf_symtab st"
  shows "normal st (expr_transform st e) \<and> calc_value st (expr_transform st e) = calc_value st e \<and>
         expr_transform st (expr_transform st e) = expr_transform st e"
  using transform_normal [OF assms] transform_value [OF assms] normal_transform by simp

text \<open>One tristate symbol and one boolean symbol.\<close>

definition st0 :: symtab where
  "st0 = \<lparr>sym_type = (\<lambda>s. if s = Sym 0 then S_TRISTATE else if s = Sym 1 then S_BOOLEAN else S_UNKNOWN),
     sym_const = (\<lambda>s. s \<in> {symbol_no, symbol_mod, symbol_yes}),
     curr_tri = (\<lambda>s. if s = symbol_yes \<or> s = Sym 1 then yes else if s = symbol_mod \<or> s = Sym 0 then mod_t else no),
     curr_val = (\<lambda>s. if s = symbol_yes then ''y'' else if s = symbol_mod then ''m'' else if s = symbol_no then ''n'' else '''')\<rparr>"

lemma wf_st0: "wf_symtab st0"
  unfolding wf_symtab_def by (auto simp: st0_def sym_get_string_value_def)

theorem expr_transform_normal_witness:
  "normal st0 (expr_transform st0 (E_NOT (E_OR (E_EQUAL (Sym 0) symbol_mod) (E_UNEQUAL (Sym 1) symbol_no)))) \<and>
   expr_transform st0 (E_NOT (E_OR (E_EQUAL (Sym 0) symbol_mod) (E_UNEQUAL (Sym 1) symbol_no))) =
     E_AND (E_UNEQUAL (Sym 0) symbol_mod) (E_NOT (E_SYMBOL (Sym 1)))"
  using expr_transform_normal [OF wf_st0, of "E_NOT (E_OR (E_EQUAL (Sym 0) symbol_mod) (E_UNEQUAL (Sym 1) symbol_no))"]
  by (simp add: transform_equal_def transform_unequal_def st0_def)

text \<open>
  C40: the simplifications are sound for every table of symbols.  Removing constants keeps the value; expressions found equal have
  the same value, also when their operands are permuted; joining two operands of a disjunction or conjunction gives
  an expression with the value of the whole; what is extracted from two conjunctions gives them back.
\<close>

theorem expr_simplify_sound:
  assumes "wf_symtab st"
  shows "calc_value st (expr_eliminate_yn e) = calc_value st e \<and>
    (expr_eq e1 e2 \<longrightarrow> calc_value st e1 = calc_value st e2) \<and>
    (expr_join_or st e1 e2 = Some e \<longrightarrow> calc_value st e = EXPR_OR (calc_value st e1) (calc_value st e2)) \<and>
    (expr_join_and st e1 e2 = Some e \<longrightarrow> calc_value st e = EXPR_AND (calc_value st e1) (calc_value st e2)) \<and>
    (expr_extract_eq_and e1 e2 = (ep, x, y) \<longrightarrow>
       calc_value st e1 = EXPR_AND (expr_calc_value st ep) (calc_value st x) \<and>
       calc_value st e2 = EXPR_AND (expr_calc_value st ep) (calc_value st y)) \<and>
    (expr_eliminate_eq (Some e1) (Some e2) = (Some x, Some y) \<longrightarrow> calc_value st x = calc_value st y \<longrightarrow>
       calc_value st e1 = calc_value st e2)"
  using eliminate_yn_value [OF assms] expr_eq_value [OF assms] join_or_value [OF assms] join_and_value [OF assms]
    extract_and_value [OF assms] eliminate_eq_value [OF assms] by (simp add: tri_ops)

theorem expr_simplify_sound_witness:
  "expr_eq (E_OR (E_SYMBOL (Sym 0)) (E_SYMBOL (Sym 1))) (E_OR (E_SYMBOL (Sym 1)) (E_SYMBOL (Sym 0))) \<and>
   calc_value st0 (E_OR (E_SYMBOL (Sym 0)) (E_SYMBOL (Sym 1))) = calc_value st0 (E_OR (E_SYMBOL (Sym 1)) (E_SYMBOL (Sym 0)))"
proof -
  have "expr_eq (E_OR (E_SYMBOL (Sym 0)) (E_SYMBOL (Sym 1))) (E_OR (E_SYMBOL (Sym 1)) (E_SYMBOL (Sym 0)))"
    by (simp add: Let_def eliminate_leaf_def unit_of_def)
  then show ?thesis using expr_simplify_sound [OF wf_st0] by blast
qed

end
